(* ===== verification/Go_Prelude.thy ===== *)
theory Go_Prelude
  imports Main "HOL-Library.Word"
begin

text \<open>
  The part of Go that the history server uses and that every component shares:
  error values (package \<open>errors\<close> and \<open>fmt.Errorf\<close>), decimal formatting and
  parsing (\<open>strconv\<close>), \<open>fmt.Sprintf\<close>, \<open>strings.Join\<close>, \<open>strings.Split\<close>,
  nil-able slices, and loops that return early on the first error.
  The second half holds the lemmas about them that the component theories use
  through \<open>simp\<close> or through the collections \<open>go_defs\<close> and \<open>go_loops\<close>.
\<close>

named_theorems go_defs "definitions of small Go operations, unfolded by component proofs"
named_theorems go_loops "facts about loops with early return"

section \<open>Errors\<close>

text \<open>
  An error value is a package-level sentinel (\<open>errors.New\<close> in a \<open>var\<close>), a formatted
  error (\<open>fmt.Errorf\<close> with \<open>%v\<close>, which keeps the text only), a \<open>*strconv.NumError\<close>,
  or a wrapping error (\<open>fmt.Errorf\<close> with \<open>%w\<close>).
\<close>

datatype goerror =
    Sentinel string
  | ErrorText string
  | NumError string string string
  | WrapError string goerror

type_synonym 'a result = "goerror + 'a"

text \<open>\<open>strconv.Quote\<close> on a byte string; bytes above 127 are left as they are.\<close>

definition hex_digit :: "nat \<Rightarrow> char" where
  "hex_digit d = (''0123456789abcdef'' ! d)"

definition quote_char :: "char \<Rightarrow> string" where
  "quote_char c = (let n = (of_char c :: nat) in
     if c = CHR 0x22 then [CHR 0x5C, CHR 0x22]
     else if c = CHR 0x5C then [CHR 0x5C, CHR 0x5C]
     else if n = 7 then [CHR 0x5C, CHR ''a'']
     else if n = 8 then [CHR 0x5C, CHR ''b'']
     else if n = 12 then [CHR 0x5C, CHR ''f'']
     else if n = 10 then [CHR 0x5C, CHR ''n'']
     else if n = 13 then [CHR 0x5C, CHR ''r'']
     else if n = 9 then [CHR 0x5C, CHR ''t'']
     else if n = 11 then [CHR 0x5C, CHR ''v'']
     else if n < 32 \<or> n = 127 then [CHR 0x5C, CHR ''x'', hex_digit (n div 16), hex_digit (n mod 16)]
     else [c])"

definition go_quote :: "string \<Rightarrow> string" where
  "go_quote s = CHR 0x22 # concat (map quote_char s) @ [CHR 0x22]"

text \<open>The method \<open>Error()\<close> of the error values.\<close>

primrec error_text :: "goerror \<Rightarrow> string" where
  "error_text (Sentinel s) = s"
| "error_text (ErrorText s) = s"
| "error_text (NumError f n e) = ''strconv.'' @ f @ '': parsing '' @ go_quote n @ '': '' @ e"
| "error_text (WrapError p e) = p @ error_text e"

text \<open>\<open>fmt.Errorf("prefix%v", err)\<close> and \<open>fmt.Errorf("prefix%w", err)\<close>.\<close>

definition Errorf_v :: "string \<Rightarrow> goerror \<Rightarrow> goerror" where
  "Errorf_v p e = ErrorText (p @ error_text e)"

definition Errorf_w :: "string \<Rightarrow> goerror \<Rightarrow> goerror" where
  "Errorf_w p e = WrapError p e"

text \<open>\<open>errors.Is(err, target)\<close> for a sentinel target follows the \<open>%w\<close> chain.\<close>

primrec errors_Is :: "goerror \<Rightarrow> goerror \<Rightarrow> bool" where
  "errors_Is (Sentinel s) t = (Sentinel s = t)"
| "errors_Is (ErrorText s) t = False"
| "errors_Is (NumError f n e) t = False"
| "errors_Is (WrapError p e) t = errors_Is e t"

definition context_Canceled :: goerror where
  "context_Canceled = Sentinel ''context canceled''"

definition io_EOF :: goerror where
  "io_EOF = Sentinel ''EOF''"

section \<open>Decimal numbers\<close>

definition digit_char :: "nat \<Rightarrow> char" where
  "digit_char d = char_of (48 + d)"

fun format_nat :: "nat \<Rightarrow> string" where
  "format_nat n =
     (if n < 10 then [digit_char n] else format_nat (n div 10) @ [digit_char (n mod 10)])"

declare format_nat.simps [simp del]

text \<open>The verb \<open>%d\<close> on an integer.\<close>

definition format_int :: "int \<Rightarrow> string" where
  "format_int i =
     (if i < 0 then CHR ''-'' # format_nat (nat (- i)) else format_nat (nat i))"

definition digit_val :: "char \<Rightarrow> nat option" where
  "digit_val c =
     (let n = (of_char c :: nat) in if 48 \<le> n \<and> n \<le> 57 then Some (n - 48) else None)"

text \<open>
  The loop of \<open>strconv.ParseUint(s, 10, bitSize)\<close>: a bad digit is a syntax error, a value
  above \<open>2 ^ bitSize - 1\<close> a range error, whichever comes first.
\<close>

primrec parse_digits :: "nat \<Rightarrow> string \<Rightarrow> nat \<Rightarrow> string + nat" where
  "parse_digits maxv [] acc = Inr acc"
| "parse_digits maxv (c # cs) acc =
     (case digit_val c of
        None \<Rightarrow> Inl ''invalid syntax''
      | Some d \<Rightarrow>
          if maxv < 10 * acc + d then Inl ''value out of range''
          else parse_digits maxv cs (10 * acc + d))"

definition ParseUint :: "nat \<Rightarrow> string \<Rightarrow> string + nat" where
  "ParseUint bits s =
     (if s = [] then Inl ''invalid syntax'' else parse_digits (2 ^ bits - 1) s 0)"

text \<open>
  \<open>strconv.ParseInt(s, 10, bitSize)\<close>; \<open>fn\<close> is the function named in the error
  (\<open>Atoi\<close> reports itself). A range error of \<open>ParseUint\<close> stays a range error.
\<close>

definition strip_sign :: "string \<Rightarrow> bool \<times> string" where
  "strip_sign s = (case s of
       [] \<Rightarrow> (False, [])
     | c # cs \<Rightarrow> if c = CHR ''+'' then (False, cs)
                else if c = CHR ''-'' then (True, cs) else (False, s))"

definition ParseInt :: "string \<Rightarrow> nat \<Rightarrow> string \<Rightarrow> int result" where
  "ParseInt fn bits s =
     (case strip_sign s of (neg, t) \<Rightarrow>
        (case ParseUint bits t of
           Inl e \<Rightarrow> Inl (NumError fn s e)
         | Inr un \<Rightarrow>
             if \<not> neg \<and> 2 ^ (bits - 1) \<le> un then Inl (NumError fn s ''value out of range'')
             else if neg \<and> 2 ^ (bits - 1) < un then Inl (NumError fn s ''value out of range'')
             else Inr (if neg then - int un else int un)))"

text \<open>\<open>strconv.Atoi\<close> on a 64-bit platform.\<close>

definition Atoi :: "string \<Rightarrow> int result" where
  "Atoi s = ParseInt ''Atoi'' 64 s"

section \<open>Formatting\<close>

text \<open>
  The arguments that the program passes to \<open>fmt.Sprintf\<close> and to SQL: integers, strings, and values of other types,
  which are given by the name of the type and what \<open>fmt\<close> prints for them under each verb.
\<close>

datatype goarg = AInt int | AText string | AAny string "char \<Rightarrow> string"

primrec arg_text :: "goarg \<Rightarrow> string" where
  "arg_text (AInt i) = format_int i"
| "arg_text (AText s) = s"
| "arg_text (AAny t shown) = shown (CHR ''v'')"

primrec arg_type :: "goarg \<Rightarrow> string" where
  "arg_type (AInt i) = ''int''"
| "arg_type (AText s) = ''string''"
| "arg_type (AAny t shown) = t"

definition bad_verb :: "char \<Rightarrow> goarg \<Rightarrow> string" where
  "bad_verb v a = ''%!'' @ [v] @ ''('' @ arg_type a @ ''='' @ arg_text a @ '')''"

text \<open>\<open>fmt.Sprintf\<close> for verbs without flags, width and precision.\<close>

fun format_verb :: "char \<Rightarrow> goarg \<Rightarrow> string" where
  "format_verb v (AInt i) =
     (if v = CHR ''d'' \<or> v = CHR ''v'' then format_int i else bad_verb v (AInt i))"
| "format_verb v (AText s) =
     (if v = CHR ''s'' \<or> v = CHR ''v'' then s else bad_verb v (AText s))"
| "format_verb v (AAny t shown) = shown v"

primrec join :: "string \<Rightarrow> string list \<Rightarrow> string" where
  "join sep [] = []"
| "join sep (x # xs) = (if xs = [] then x else x @ sep @ join sep xs)"

definition extra_args :: "goarg list \<Rightarrow> string" where
  "extra_args as =
     (if as = [] then []
      else ''%!(EXTRA '' @ join '', '' (map (\<lambda>a. arg_type a @ ''='' @ arg_text a) as) @ '')'')"

fun sprintf :: "string \<Rightarrow> goarg list \<Rightarrow> string" where
  "sprintf [] as = extra_args as"
| "sprintf (c # cs) as =
     (if c \<noteq> CHR ''%'' then c # sprintf cs as
      else (case cs of
          [] \<Rightarrow> ''%!(NOVERB)'' @ extra_args as
        | v # cs' \<Rightarrow>
            if v = CHR ''%'' then CHR ''%'' # sprintf cs' as
            else (case as of
                [] \<Rightarrow> ''%!'' @ [v] @ ''(MISSING)'' @ sprintf cs' []
              | a # as' \<Rightarrow> format_verb v a @ sprintf cs' as')))"

text \<open>The verb \<open>%v\<close> on a slice of strings and on a slice of errors.\<close>

definition format_strings :: "string list \<Rightarrow> string" where
  "format_strings ss = ''['' @ join '' '' ss @ '']''"

definition format_errors :: "goerror list \<Rightarrow> string" where
  "format_errors es = format_strings (map error_text es)"

section \<open>Strings\<close>

text \<open>\<open>strings.Split(s, sep)\<close> for a separator of one byte.\<close>

primrec split_on :: "char \<Rightarrow> string \<Rightarrow> string list" where
  "split_on c [] = [[]]"
| "split_on c (x # xs) =
     (if x = c then [] # split_on c xs
      else (x # hd (split_on c xs)) # tl (split_on c xs))"

fun TrimPrefix :: "string \<Rightarrow> string \<Rightarrow> string" where
  "TrimPrefix s p = (if take (length p) s = p then drop (length p) s else s)"

definition ToLower_char :: "char \<Rightarrow> char" where
  "ToLower_char c =
     (let n = (of_char c :: nat) in if 65 \<le> n \<and> n \<le> 90 then char_of (n + 32) else c)"

definition ToLower :: "string \<Rightarrow> string" where
  "ToLower s = map ToLower_char s"

section \<open>Slices and loops\<close>

text \<open>A nil-able slice: \<open>None\<close> is the nil slice, whose length is 0.\<close>

type_synonym 'a slice = "'a list option"

definition slice_list :: "'a slice \<Rightarrow> 'a list" where
  "slice_list s = (case s of None \<Rightarrow> [] | Some xs \<Rightarrow> xs)"

text \<open>\<open>append(s, x)\<close>: appending to a nil slice gives a slice that is not nil.\<close>

definition append_slice :: "'a slice \<Rightarrow> 'a \<Rightarrow> 'a slice" where
  "append_slice s x = Some (slice_list s @ [x])"

text \<open>
  A \<open>for ... range\<close> loop whose body changes a state and may return an error, which
  ends the loop: the error of the first failing iteration, or none.
\<close>

primrec for_each :: "('a \<Rightarrow> 's \<Rightarrow> goerror option \<times> 's) \<Rightarrow> 'a list \<Rightarrow> 's \<Rightarrow> goerror option \<times> 's" where
  "for_each f [] s = (None, s)"
| "for_each f (x # xs) s =
     (case f x s of
        (Some e, s') \<Rightarrow> (Some e, s')
      | (None, s') \<Rightarrow> for_each f xs s')"

text \<open>A \<open>time.Duration\<close> is a signed 64-bit number of nanoseconds.\<close>

type_synonym duration = "64 word"

definition second :: duration where
  "second = 1000000000"

section \<open>Lemmas on errors\<close>

lemma errors_Is_Errorf_w [simp]: "errors_Is (Errorf_w p e) t = errors_Is e t"
  by (simp add: Errorf_w_def)

lemma errors_Is_Errorf_v [simp]: "\<not> errors_Is (Errorf_v p e) t"
  by (simp add: Errorf_v_def)

section \<open>Lemmas on decimal numbers\<close>

lemma of_char_digit_char: "d < 10 \<Longrightarrow> of_char (digit_char d) = 48 + d"
  by (simp add: digit_char_def)

lemma digit_val_digit_char [simp]: "d < 10 \<Longrightarrow> digit_val (digit_char d) = Some d"
  by (simp add: digit_val_def of_char_digit_char)

lemma digit_char_not_sign [simp]:
  assumes "d < 10"
  shows "digit_char d \<noteq> CHR ''-''" and "digit_char d \<noteq> CHR ''+''"
proof -
  have "of_char (digit_char d) \<ge> (48 :: nat)"
    using assms by (simp add: of_char_digit_char)
  then show "digit_char d \<noteq> CHR ''-''" and "digit_char d \<noteq> CHR ''+''"
    by auto
qed

lemma format_nat_nonempty [simp]: "format_nat n \<noteq> []"
  by (subst format_nat.simps) simp

text \<open>Every character that \<open>%d\<close> prints for a natural number is a digit.\<close>

lemma format_nat_digits: "c \<in> set (format_nat n) \<Longrightarrow> \<exists>d < 10. c = digit_char d"
proof (induction n rule: format_nat.induct)
  case (1 n)
  show ?case
  proof (cases "n < 10")
    case True
    with "1.prems" show ?thesis by (subst (asm) format_nat.simps) auto
  next
    case False
    with "1.prems" have "c \<in> set (format_nat (n div 10)) \<or> c = digit_char (n mod 10)"
      by (subst (asm) format_nat.simps) auto
    moreover have "n mod 10 < 10" by simp
    ultimately show ?thesis using "1.IH" [OF False] by blast
  qed
qed

lemma parse_digits_append:
  "parse_digits m (xs @ ys) a =
     (case parse_digits m xs a of Inl e \<Rightarrow> Inl e | Inr b \<Rightarrow> parse_digits m ys b)"
  by (induction xs arbitrary: a) (auto split: option.split)

lemma parse_digits_format_nat: "n \<le> m \<Longrightarrow> parse_digits m (format_nat n) 0 = Inr n"
proof (induction n rule: format_nat.induct)
  case (1 n)
  show ?case
  proof (cases "n < 10")
    case True
    with "1.prems" show ?thesis by (subst format_nat.simps) simp
  next
    case False
    have "n div 10 \<le> m" using "1.prems" by linarith
    with "1.IH" [OF False] have "parse_digits m (format_nat (n div 10)) 0 = Inr (n div 10)"
      by simp
    with False "1.prems" show ?thesis
      by (subst format_nat.simps) (simp add: parse_digits_append)
  qed
qed

lemma strip_sign_format_nat [simp]: "strip_sign (format_nat n) = (False, format_nat n)"
proof (cases "format_nat n")
  case Nil
  then show ?thesis by simp
next
  case (Cons c cs)
  then obtain d where "d < 10" "c = digit_char d"
    using format_nat_digits [of c n] by auto
  with Cons show ?thesis by (simp add: strip_sign_def)
qed

text \<open>Printing an integer of \<open>bits\<close> bits with \<open>%d\<close> and parsing it back gives the integer.\<close>

lemma ParseInt_format_int:
  assumes "0 < bits" and "- (2 ^ (bits - 1)) \<le> i" and "i < 2 ^ (bits - 1)"
  shows "ParseInt fn bits (format_int i) = Inr i"
proof (cases "i < 0")
  case True
  have bound: "nat (- i) \<le> 2 ^ (bits - 1)"
    using True assms(2) by (simp add: nat_le_iff)
  also have "\<dots> \<le> (2::nat) ^ bits - 1"
  proof -
    obtain k where "bits = Suc k" using assms(1) by (cases bits) auto
    then show ?thesis using one_le_power [of "2::nat" k] by simp
  qed
  finally have "parse_digits (2 ^ bits - 1) (format_nat (nat (- i))) 0 = Inr (nat (- i))"
    by (rule parse_digits_format_nat)
  with True bound show ?thesis
    by (simp add: ParseInt_def format_int_def strip_sign_def ParseUint_def)
next
  case False
  have bound: "nat i < 2 ^ (bits - 1)"
    using False assms(3) by (simp add: nat_less_iff)
  also have "\<dots> \<le> (2::nat) ^ bits"
    by (rule power_increasing) simp_all
  finally have "nat i < 2 ^ bits" .
  then have "nat i \<le> 2 ^ bits - 1" by linarith
  then have "parse_digits (2 ^ bits - 1) (format_nat (nat i)) 0 = Inr (nat i)"
    by (rule parse_digits_format_nat)
  with False bound show ?thesis
    by (simp add: ParseInt_def format_int_def ParseUint_def)
qed

text \<open>What \<open>ParseInt\<close> accepts is in the range of the type.\<close>

lemma ParseInt_range:
  assumes "ParseInt fn bits s = Inr i" and "0 < bits"
  shows "- (2 ^ (bits - 1)) \<le> i \<and> i < 2 ^ (bits - 1)"
proof -
  obtain neg t where t: "strip_sign s = (neg, t)" by fastforce
  obtain un where un: "ParseUint bits t = Inr un"
    using assms(1) t by (cases "ParseUint bits t") (auto simp: ParseInt_def)
  have pos: "(0::int) < 2 ^ (bits - 1)" by simp
  have le: "int un \<le> 2 ^ (bits - 1)" if "un \<le> 2 ^ (bits - 1)" for un :: nat
    using that by (metis of_nat_le_iff of_nat_numeral of_nat_power)
  have less: "int un < 2 ^ (bits - 1)" if "un < 2 ^ (bits - 1)" for un :: nat
    using that by (metis of_nat_less_iff of_nat_numeral of_nat_power)
  show ?thesis
  proof (cases neg)
    case True
    then have "un \<le> 2 ^ (bits - 1)" and "i = - int un"
      using assms(1) t un by (auto simp: ParseInt_def split: if_splits)
    with le [of un] pos show ?thesis by linarith
  next
    case False
    then have "un < 2 ^ (bits - 1)" and "i = int un"
      using assms(1) t un by (auto simp: ParseInt_def split: if_splits)
    with less [of un] pos show ?thesis by linarith
  qed
qed

section \<open>Lemmas on strings\<close>

lemma sprintf_lit [simp]: "c \<noteq> CHR ''%'' \<Longrightarrow> sprintf (c # cs) as = c # sprintf cs as"
  by simp

lemma extra_args_Nil [simp]: "extra_args [] = []"
  by (simp add: extra_args_def)

lemma split_on_nonempty [simp]: "split_on c s \<noteq> []"
  by (cases s) auto

lemma join_snoc:
  "join sep (xs @ [x]) = (if xs = [] then x else join sep xs @ sep @ x)"
  by (induction xs) auto

lemma join_eq_Nil: "join sep xs = [] \<Longrightarrow> xs \<noteq> [] \<Longrightarrow> hd xs = []"
  by (cases xs) (auto split: if_splits)

lemma split_on_no_sep: "c \<notin> set s \<Longrightarrow> split_on c s = [s]"
  by (induction s) auto

lemma split_on_append_sep:
  "c \<notin> set s \<Longrightarrow> split_on c (s @ c # t) = s # split_on c t"
  by (induction s) auto

text \<open>\<open>Split\<close> undoes \<open>Join\<close> when no element holds the separator, and \<open>Join\<close> undoes \<open>Split\<close>.\<close>

lemma split_on_join:
  "xs \<noteq> [] \<Longrightarrow> (\<And>x. x \<in> set xs \<Longrightarrow> c \<notin> set x) \<Longrightarrow> split_on c (join [c] xs) = xs"
proof (induction xs)
  case Nil
  then show ?case by simp
next
  case (Cons x xs)
  then show ?case
    by (cases "xs = []") (auto simp: split_on_no_sep split_on_append_sep)
qed

lemma join_split_on: "join [c] (split_on c s) = s"
proof (induction s)
  case Nil
  then show ?case by simp
next
  case (Cons x s)
  obtain y ys where "split_on c s = y # ys"
    by (cases "split_on c s") auto
  with Cons show ?case by auto
qed

lemma split_on_elems: "x \<in> set (split_on c s) \<Longrightarrow> c \<notin> set x"
proof (induction s arbitrary: x)
  case Nil
  then show ?case by simp
next
  case (Cons a s)
  obtain y ys where "split_on c s = y # ys"
    by (cases "split_on c s") auto
  with Cons show ?case by (auto split: if_splits)
qed

section \<open>Lemmas on searching a list by a key\<close>

lemma list_ex_key: "list_ex (\<lambda>x. f x = y) xs \<longleftrightarrow> y \<in> f ` set xs"
  unfolding list_ex_iff image_iff by metis

lemma find_key_None: "find (\<lambda>x. f x = y) xs = None \<longleftrightarrow> y \<notin> f ` set xs"
  unfolding find_None_iff image_iff by metis

lemma find_snoc:
  "find P (xs @ [x]) = (case find P xs of None \<Rightarrow> if P x then Some x else None | Some y \<Rightarrow> Some y)"
  by (induction xs) auto

lemma those_map_Some:
  "those (map g xs) = Some ys \<longleftrightarrow> list_all2 (\<lambda>x y. g x = Some y) xs ys"
proof (induction xs arbitrary: ys)
  case Nil
  then show ?case by auto
next
  case (Cons x xs)
  then show ?case by (cases ys) (auto split: option.split)
qed

lemma those_map_not_None: "those (map g xs) \<noteq> None \<longleftrightarrow> (\<forall>x \<in> set xs. g x \<noteq> None)"
  by (induction xs) (auto split: option.split)

lemma distinct_count_list: "distinct xs \<Longrightarrow> count_list xs x = (if x \<in> set xs then 1 else 0)"
  by (induction xs) auto

lemma count_list_concat_map:
  "count_list (concat (map f ts)) x = sum_list (map (\<lambda>t. count_list (f t) x) ts)"
  by (induction ts) simp_all

lemma sum_list_all2:
  assumes "list_all2 R cs ts" and "\<And>c t. R c t \<Longrightarrow> g t = h c + k t"
  shows "sum_list (map g ts) = sum_list (map h cs) + (sum_list (map k ts) :: nat)"
  using assms(1) by (induction rule: list_all2_induct) (simp_all add: assms(2))

section \<open>Lemmas on slices and loops\<close>

lemma slice_list_simps [simp]:
  "slice_list None = []" "slice_list (Some xs) = xs"
  "slice_list (append_slice s x) = slice_list s @ [x]"
  by (simp_all add: slice_list_def append_slice_def)

lemma for_each_append [go_loops]:
  "for_each f (xs @ ys) s =
     (case for_each f xs s of (Some e, s') \<Rightarrow> (Some e, s') | (None, s') \<Rightarrow> for_each f ys s')"
  by (induction xs arbitrary: s) (auto split: prod.split option.split)

text \<open>An invariant of the body is an invariant of the loop, however the loop ends.\<close>

lemma for_each_invariant [go_loops]:
  assumes "\<And>x s. x \<in> set xs \<Longrightarrow> P s \<Longrightarrow> P (snd (f x s))" and "P s"
  shows "P (snd (for_each f xs s))"
  using assms
proof (induction xs arbitrary: s)
  case Nil
  then show ?case by simp
next
  case (Cons x xs)
  obtain r s' where f: "f x s = (r, s')" by fastforce
  have "P s'" using Cons.prems(1) [of x s] Cons.prems(2) f by simp
  then show ?case
    using Cons.IH [of s'] Cons.prems(1) f by (cases r) auto
qed

text \<open>
  A loop ends without error when every iteration does, with an invariant that may depend
  on the elements done so far.
\<close>

lemma for_each_success [go_loops]:
  assumes "\<And>done x rest s. xs = done @ x # rest \<Longrightarrow> Q done s \<Longrightarrow>
      fst (f x s) = None \<and> Q (done @ [x]) (snd (f x s))"
    and "Q [] s"
  shows "fst (for_each f xs s) = None \<and> Q xs (snd (for_each f xs s))"
proof -
  have "fst (for_each f rest t) = None \<and> Q xs (snd (for_each f rest t))"
    if "xs = pre @ rest" "Q pre t" for pre rest t
    using that
  proof (induction rest arbitrary: pre t)
    case Nil
    then show ?case by simp
  next
    case (Cons x rest)
    obtain r t' where f: "f x t = (r, t')" by fastforce
    have r: "r = None" and q: "Q (pre @ [x]) t'"
      using assms(1) [OF Cons.prems] f by auto
    have "xs = (pre @ [x]) @ rest" using Cons.prems(1) by simp
    from Cons.IH [OF this q] f r show ?case by simp
  qed
  from this [of "[]" xs s] assms(2) show ?thesis by simp
qed

text \<open>A loop that ends without error ran every iteration without error.\<close>

lemma for_each_None_Cons [go_loops]:
  "for_each f (x # xs) s = (None, t) \<longleftrightarrow>
     (\<exists>s'. f x s = (None, s') \<and> for_each f xs s' = (None, t))"
  by (auto split: prod.splits option.splits)

end
