(* ===== verification/Models.thy ===== *)
theory Models
  imports Go_Prelude
begin

text \<open>
  The data that moves through the server: the fields of the scheduler's DAO structs
  (package \<open>dao\<close> of yunikorn-core) that the program reads or writes, the event record of
  the scheduler interface, and the program's own structs of \<open>internal/model\<close>. A nil-able
  map or slice is an option, with \<open>None\<close> for nil. Values that the program only passes
  from the REST API to a JSONB column and back are documents of type \<open>json\<close>.
\<close>

type_synonym json = "string option"
type_synonym resmap = "(string \<rightharpoonup> int) option"

section \<open>Partitions, nodes, history\<close>

record PartitionInfo =
  part_ClusterID :: string
  part_Name :: string
  part_Capacity :: json
  part_UsedCapacity :: json
  part_Utilization :: json
  part_TotalNodes :: int
  part_Applications :: json
  part_TotalContainers :: int
  part_State :: string
  part_LastStateTransitionTime :: int

record NodeDAOInfo =
  node_NodeID :: string
  node_HostName :: string
  node_RackName :: string
  node_Attributes :: json
  node_Capacity :: resmap
  node_Allocated :: resmap
  node_Occupied :: resmap
  node_Available :: resmap
  node_Utilized :: resmap
  node_Allocations :: json
  node_Schedulable :: bool
  node_IsReserved :: bool
  node_Reservations :: "string slice"

record PartitionNodesUtilDAOInfo =
  util_ClusterID :: string
  util_Partition :: string
  util_NodesUtilList :: json

record ApplicationHistoryDAOInfo =
  hist_Timestamp :: int
  hist_TotalApplications :: string

record ContainerHistoryDAOInfo =
  chist_Timestamp :: int
  chist_TotalContainers :: string

section \<open>Applications\<close>

record StateDAOInfo =
  st_Time :: int
  st_ApplicationState :: string

record AllocationDAOInfo =
  alloc_AllocationID :: string
  alloc_ResourcePerAlloc :: "string \<rightharpoonup> int"
  alloc_AllocationTime :: int

record AllocationAskDAOInfo =
  ask_AllocationKey :: string
  ask_ResourcePerAlloc :: "string \<rightharpoonup> int"
  ask_RequestTime :: int

record ApplicationDAOInfo =
  app_ApplicationID :: string
  app_UsedResource :: resmap
  app_MaxUsedResource :: resmap
  app_PendingResource :: resmap
  app_Partition :: string
  app_QueueName :: string
  app_SubmissionTime :: int
  app_FinishedTime :: "int option"
  app_Requests :: "AllocationAskDAOInfo slice"
  app_Allocations :: "AllocationDAOInfo slice"
  app_State :: string
  app_User :: string
  app_Groups :: "string slice"
  app_RejectedMessage :: string
  app_StateLog :: "StateDAOInfo slice"
  app_PlaceholderData :: json
  app_HasReserved :: bool
  app_Reservations :: "string slice"
  app_MaxRequestPriority :: int

section \<open>Queues\<close>

text \<open>
  The fields of \<open>dao.PartitionQueueDAOInfo\<close> but for \<open>Children\<close>, and the tree that
  \<open>Children\<close> makes of them.
\<close>

record QueueFields =
  queue_QueueName :: string
  queue_Status :: string
  queue_Partition :: string
  queue_PendingResource :: resmap
  queue_MaxResource :: resmap
  queue_GuaranteedResource :: resmap
  queue_AllocatedResource :: resmap
  queue_PreemptingResource :: resmap
  queue_HeadRoom :: resmap
  queue_IsLeaf :: bool
  queue_IsManaged :: bool
  queue_Properties :: json
  queue_Parent :: string
  queue_TemplateInfo :: json
  queue_AbsUsedCapacity :: resmap
  queue_MaxRunningApps :: int
  queue_RunningApps :: int
  queue_CurrentPriority :: int
  queue_AllocatingAcceptedApps :: "string slice"

datatype PartitionQueueDAOInfo =
  QueueDAO (qinfo: QueueFields) (qChildren: "PartitionQueueDAOInfo list")

text \<open>\<open>model.PartitionQueueDAOInfo\<close>: a stored queue with its identifiers and time stamps.\<close>

record QueueRow =
  qr_id :: string
  qr_parent_id :: "string option"
  qr_created_at :: int
  qr_deleted_at :: "int option"
  qr_info :: QueueFields

datatype StoredQueue =
  StoredQueue (sqRow: QueueRow) (sqChildren: "StoredQueue list")

text \<open>\<open>q.Partition = p\<close> on a queue of the tree.\<close>

definition set_partition :: "string \<Rightarrow> PartitionQueueDAOInfo \<Rightarrow> PartitionQueueDAOInfo" where
  "set_partition p q = QueueDAO ((qinfo q)\<lparr>queue_Partition := p\<rparr>) (qChildren q)"

lemma set_partition_simps [simp]:
  "qChildren (set_partition p q) = qChildren q"
  "queue_Partition (qinfo (set_partition p q)) = p"
  "queue_QueueName (qinfo (set_partition p q)) = queue_QueueName (qinfo q)"
  "queue_Parent (qinfo (set_partition p q)) = queue_Parent (qinfo q)"
  "set_partition p (set_partition p' q) = set_partition p q"
  by (simp_all add: set_partition_def)

text \<open>The number of queues of a tree, the measure of the recursions over \<open>Children\<close>.\<close>

primrec queue_count :: "PartitionQueueDAOInfo \<Rightarrow> nat" where
  "queue_count (QueueDAO i cs) = Suc (sum_list (map queue_count cs))"

lemma queue_count_children: "queue_count q = Suc (sum_list (map queue_count (qChildren q)))"
  by (cases q) simp

lemma queue_count_pos [simp]: "0 < queue_count q"
  by (simp add: queue_count_children)

lemma queue_count_set_partition [simp]: "queue_count (set_partition p q) = queue_count q"
  by (simp add: queue_count_children)

lemma sum_queue_count_set_partition [simp]:
  "sum_list (map (queue_count \<circ> set_partition p) qs) = sum_list (map queue_count qs)"
  by (simp add: comp_def)

section \<open>Events\<close>

text \<open>
  The enumerations of \<open>si.EventRecord\<close>: the constants the program names, and any other value.
\<close>

datatype EventRecord_Type =
    UNKNOWN_EVENTRECORD_TYPE | REQUEST | APP | NODE | QUEUE | USERGROUP | Type_other int

datatype EventRecord_ChangeType =
    ChangeType_NONE | ChangeType_SET | ChangeType_ADD | ChangeType_REMOVE | ChangeType_other int

datatype EventRecord_ChangeDetail =
    DETAILS_NONE | APP_NEW | APP_ALLOC | APP_REQUEST | APP_REJECT
  | APP_ACCEPTED | APP_STARTING | APP_RUNNING | APP_COMPLETING | APP_COMPLETED
  | APP_FAILING | APP_FAILED | APP_RESUMING | APP_EXPIRED
  | ALLOC_CANCEL | ALLOC_TIMEOUT | ALLOC_REPLACED | ALLOC_PREEMPT | ALLOC_NODEREMOVED
  | REQUEST_TIMEOUT | REQUEST_CANCEL | ChangeDetail_other int

record EventRecord =
  ev_Type :: EventRecord_Type
  ev_ObjectID :: string
  ev_Message :: string
  ev_TimestampNano :: int
  ev_EventChangeType :: EventRecord_ChangeType
  ev_EventChangeDetail :: EventRecord_ChangeDetail
  ev_ReferenceID :: string
  ev_Resource :: resmap

section \<open>Concrete queues\<close>

text \<open>A queue of which only the names matter, for examples.\<close>

definition demo_fields :: "string \<Rightarrow> string \<Rightarrow> string \<Rightarrow> QueueFields" where
  "demo_fields pname qname parent = \<lparr>queue_QueueName = qname, queue_Status = ''Active'', queue_Partition = pname,
     queue_PendingResource = None, queue_MaxResource = None, queue_GuaranteedResource = None,
     queue_AllocatedResource = None, queue_PreemptingResource = None, queue_HeadRoom = None,
     queue_IsLeaf = True, queue_IsManaged = True, queue_Properties = None, queue_Parent = parent,
     queue_TemplateInfo = None, queue_AbsUsedCapacity = None, queue_MaxRunningApps = 0, queue_RunningApps = 0,
     queue_CurrentPriority = 0, queue_AllocatingAcceptedApps = None\<rparr>"

definition demo_tree :: PartitionQueueDAOInfo where
  "demo_tree = QueueDAO (demo_fields ''default'' ''root'' '''')
     [QueueDAO (demo_fields '''' ''root.a'' ''root'') [], QueueDAO (demo_fields '''' ''root.b'' ''root'') []]"

lemma demo_fields_simps [simp]:
  "queue_QueueName (demo_fields p q r) = q" "queue_Partition (demo_fields p q r) = p"
  "queue_Parent (demo_fields p q r) = r"
  by (simp_all add: demo_fields_def)

end
