(* ===== verification/Pg_Schema.thy ===== *)
theory Pg_Schema
  imports Models
begin

text \<open>
  The database behind \<open>PostgresRepository\<close>: the tables of
  \<open>migrations/20240628155246_init-tables.up.sql\<close> as lists of rows, the effect of the two
  kinds of \<open>INSERT\<close> that the repository sends, and the environment of a statement. The
  environment supplies what no statement determines: the next UUID, the clock, whether
  the driver reports a failure (a failing statement changes no table), and how the rows of a
  query end. Rows come in the order of the list, and the result of a reader is a list in
  which a nil slice and an empty one are the same. Both
  \<open>uuid.NewString\<close> and \<open>gen_random_uuid()\<close> draw from one supply. The locale
  \<open>keyed_table\<close> states what an \<open>ON CONFLICT ... DO UPDATE\<close> clause must respect, and its
  lemmas hold for each table that is interpreted in it.
\<close>

section \<open>Tables\<close>

datatype history_type = Hist_container | Hist_application

record PartitionRow =
  pr_id :: string
  pr_info :: PartitionInfo

record NodeRow =
  nr_id :: string
  nr_partition :: string
  nr_info :: NodeDAOInfo

record UtilRow =
  ur_id :: string
  ur_info :: PartitionNodesUtilDAOInfo

record HistoryRow =
  hr_id :: string
  hr_type :: history_type
  hr_total_number :: int
  hr_timestamp :: int

record AppRow =
  ar_id :: string
  ar_queue_id :: string
  ar_info :: ApplicationDAOInfo

record db =
  partitions_t :: "PartitionRow list"
  applications_t :: "AppRow list"
  queues_t :: "QueueRow list"
  nodes_t :: "NodeRow list"
  nodes_util_t :: "UtilRow list"
  history_t :: "HistoryRow list"
  uuidCtr :: nat
  stmtCtr :: nat

definition empty_db :: db where
  "empty_db = \<lparr>partitions_t = [], applications_t = [], queues_t = [], nodes_t = [],
     nodes_util_t = [], history_t = [], uuidCtr = 0, stmtCtr = 0\<rparr>"

section \<open>Statements\<close>

text \<open>
  A result set may end early: the connection breaks after \<open>n\<close> rows, which makes
  \<open>rows.Next\<close> return false, or \<open>rows.Scan\<close> fails on the row with index \<open>n\<close>.
\<close>

datatype rows_end = StreamCut nat | ScanFails nat goerror

record pgenv =
  freshUUID :: "nat \<Rightarrow> string"
  unixNow :: "nat \<Rightarrow> int"
  pgFault :: "nat \<Rightarrow> goerror option"
  rowsEnd :: "nat \<Rightarrow> rows_end option"

definition pg_exec :: "pgenv \<Rightarrow> (db \<Rightarrow> db result) \<Rightarrow> db \<Rightarrow> goerror option \<times> db" where
  "pg_exec env stmt d =
     (let d' = d\<lparr>stmtCtr := Suc (stmtCtr d)\<rparr> in
      case pgFault env (stmtCtr d) of
        Some e \<Rightarrow> (Some e, d')
      | None \<Rightarrow> (case stmt d' of Inl e \<Rightarrow> (Some e, d') | Inr d'' \<Rightarrow> (None, d'')))"

definition pg_query :: "pgenv \<Rightarrow> (db \<Rightarrow> 'a result) \<Rightarrow> db \<Rightarrow> 'a result \<times> db" where
  "pg_query env sel d =
     (let d' = d\<lparr>stmtCtr := Suc (stmtCtr d)\<rparr> in
      case pgFault env (stmtCtr d) of Some e \<Rightarrow> (Inl e, d') | None \<Rightarrow> (sel d', d'))"

text \<open>
  The loop \<open>for rows.Next() { ... rows.Scan ... }\<close> of the readers: the message of a failing query, the message of a
  failing scan, and what the database answers. It may refuse the query, which is the error of \<open>Query\<close>, or deliver
  rows. No reader consults \<open>rows.Err\<close>, so a stream that breaks, or a query that fails while it is executed, looks
  like the end of the rows.
\<close>

definition pg_select :: "pgenv \<Rightarrow> string \<Rightarrow> string \<Rightarrow> (db \<Rightarrow> 'r list result) \<Rightarrow> db \<Rightarrow> 'r list result \<times> db" where
  "pg_select env queryMsg scanMsg sel d =
     (case pg_query env sel d of
        (Inl e, d') \<Rightarrow> (Inl (Errorf_v queryMsg e), d')
      | (Inr rows, d') \<Rightarrow>
          ((case rowsEnd env (stmtCtr d) of
              None \<Rightarrow> Inr rows
            | Some (StreamCut n) \<Rightarrow> Inr (take n rows)
            | Some (ScanFails n e) \<Rightarrow>
                (if n < length rows then Inl (Errorf_v scanMsg e) else Inr rows)), d'))"

text \<open>The fixed queries are well-formed: the database does not refuse them.\<close>

definition pg_rows :: "pgenv \<Rightarrow> string \<Rightarrow> string \<Rightarrow> (db \<Rightarrow> 'r list) \<Rightarrow> db \<Rightarrow> 'r list result \<times> db" where
  "pg_rows env queryMsg scanMsg sel d = pg_select env queryMsg scanMsg (\<lambda>d. Inr (sel d)) d"

definition new_uuid :: "pgenv \<Rightarrow> db \<Rightarrow> string \<times> db" where
  "new_uuid env d = (freshUUID env (uuidCtr d), d\<lparr>uuidCtr := Suc (uuidCtr d)\<rparr>)"

definition unix_now :: "pgenv \<Rightarrow> db \<Rightarrow> int" where
  "unix_now env d = unixNow env (stmtCtr d)"

definition ErrNoRows :: goerror where
  "ErrNoRows = Sentinel ''no rows in result set''"

definition unique_violation :: goerror where
  "unique_violation = ErrorText ''duplicate key value violates unique constraint''"

definition check_violation :: goerror where
  "check_violation = ErrorText ''new row violates check constraint''"

definition not_null_violation :: goerror where
  "not_null_violation = ErrorText ''null value violates not-null constraint''"

text \<open>\<open>INSERT\<close> into a table whose primary key is \<open>rid\<close>.\<close>

definition insert_row :: "('r \<Rightarrow> string) \<Rightarrow> 'r \<Rightarrow> 'r list \<Rightarrow> 'r list result" where
  "insert_row rid new rs =
     (if list_ex (\<lambda>r. rid r = rid new) rs then Inl unique_violation else Inr (rs @ [new]))"

text \<open>
  \<open>INSERT ... ON CONFLICT (key) DO UPDATE\<close>: the row with the same key is merged with the
  proposed row; without one the row is inserted, which the primary key may still refuse.
\<close>

definition insert_on_conflict ::
    "('r \<Rightarrow> 'k) \<Rightarrow> ('r \<Rightarrow> string) \<Rightarrow> ('r \<Rightarrow> 'r \<Rightarrow> 'r) \<Rightarrow> 'r \<Rightarrow> 'r list \<Rightarrow> 'r list result" where
  "insert_on_conflict key rid merge new rs =
     (if list_ex (\<lambda>r. key r = key new) rs
      then Inr (map (\<lambda>r. if key r = key new then merge r new else r) rs)
      else insert_row rid new rs)"

text \<open>The row with a given key, and the uniqueness that the indexes enforce.\<close>

definition lookup_row :: "('r \<Rightarrow> 'k) \<Rightarrow> 'k \<Rightarrow> 'r list \<Rightarrow> 'r option" where
  "lookup_row key k rs = find (\<lambda>r. key r = k) rs"

definition table_wf :: "('r \<Rightarrow> 'k) \<Rightarrow> ('r \<Rightarrow> string) \<Rightarrow> 'r list \<Rightarrow> bool" where
  "table_wf key rid rs \<longleftrightarrow> distinct (map key rs) \<and> distinct (map rid rs)"

text \<open>The UUIDs drawn so far, and the environment in which every draw is new.\<close>

definition drawn :: "pgenv \<Rightarrow> db \<Rightarrow> string set" where
  "drawn env d = freshUUID env ` {..< uuidCtr d}"

definition healthy_env :: "pgenv \<Rightarrow> bool" where
  "healthy_env env \<longleftrightarrow>
     inj (freshUUID env) \<and> (\<forall>n. pgFault env n = None) \<and> (\<forall>n. rowsEnd env n = None)"

section \<open>Facts about statements\<close>

lemma pg_exec_healthy [simp]:
  assumes "healthy_env env"
  shows "pg_exec env stmt d =
     (case stmt (d\<lparr>stmtCtr := Suc (stmtCtr d)\<rparr>) of
        Inl e \<Rightarrow> (Some e, d\<lparr>stmtCtr := Suc (stmtCtr d)\<rparr>)
      | Inr d' \<Rightarrow> (None, d'))"
  using assms by (simp add: pg_exec_def healthy_env_def Let_def)

lemma pg_query_healthy [simp]:
  assumes "healthy_env env"
  shows "pg_query env sel d =
     (sel (d\<lparr>stmtCtr := Suc (stmtCtr d)\<rparr>), d\<lparr>stmtCtr := Suc (stmtCtr d)\<rparr>)"
  using assms by (simp add: pg_query_def healthy_env_def Let_def)

lemma pg_select_healthy [simp]:
  assumes "healthy_env env"
  shows "pg_select env qm sm sel d =
     (case sel (d\<lparr>stmtCtr := Suc (stmtCtr d)\<rparr>) of Inl e \<Rightarrow> Inl (Errorf_v qm e) | Inr rows \<Rightarrow> Inr rows,
      d\<lparr>stmtCtr := Suc (stmtCtr d)\<rparr>)"
  using assms by (simp add: pg_select_def split: sum.split) (simp add: healthy_env_def)

lemma pg_rows_healthy [simp]:
  assumes "healthy_env env"
  shows "pg_rows env qm sm sel d =
     (Inr (sel (d\<lparr>stmtCtr := Suc (stmtCtr d)\<rparr>)), d\<lparr>stmtCtr := Suc (stmtCtr d)\<rparr>)"
  using assms by (simp add: pg_rows_def)

text \<open>Without any assumption on the environment: a statement fails and changes no table, or has its effect.\<close>

lemma pg_exec_cases:
  assumes "pg_exec env stmt d = (res, d')"
  obtains (failed) e where "res = Some e" "d' = d\<lparr>stmtCtr := Suc (stmtCtr d)\<rparr>"
    | (ok) "res = None" "stmt (d\<lparr>stmtCtr := Suc (stmtCtr d)\<rparr>) = Inr d'"
proof (cases "pgFault env (stmtCtr d)")
  case None
  with assms show thesis
    by (cases "stmt (d\<lparr>stmtCtr := Suc (stmtCtr d)\<rparr>)") (auto simp: pg_exec_def intro: failed ok)
next
  case (Some e)
  with assms have "res = Some e" "d' = d\<lparr>stmtCtr := Suc (stmtCtr d)\<rparr>"
    by (simp_all add: pg_exec_def)
  then show thesis by (rule failed)
qed

lemma pg_query_cases:
  assumes "pg_query env sel d = (res, d')"
  obtains (failed) e where "res = Inl e" "d' = d\<lparr>stmtCtr := Suc (stmtCtr d)\<rparr>"
    | (ok) "res = sel d'" "d' = d\<lparr>stmtCtr := Suc (stmtCtr d)\<rparr>"
proof (cases "pgFault env (stmtCtr d)")
  case None
  with assms have "res = sel d'" "d' = d\<lparr>stmtCtr := Suc (stmtCtr d)\<rparr>"
    by (auto simp: pg_query_def Let_def)
  then show thesis by (rule ok)
next
  case (Some e)
  with assms have "res = Inl e" "d' = d\<lparr>stmtCtr := Suc (stmtCtr d)\<rparr>"
    by (simp_all add: pg_query_def)
  then show thesis by (rule failed)
qed

text \<open>Whatever the environment, the rows that a loop delivers are a prefix of the rows selected.\<close>

lemma pg_select_cases:
  assumes "pg_select env qm sm sel d = (res, d')"
  obtains (failed) e where "res = Inl e" "d' = d\<lparr>stmtCtr := Suc (stmtCtr d)\<rparr>"
    | (ok) n rows where "sel d' = Inr rows" "res = Inr (take n rows)" "d' = d\<lparr>stmtCtr := Suc (stmtCtr d)\<rparr>"
proof -
  obtain r2 d2 where q: "pg_query env sel d = (r2, d2)" by fastforce
  have d': "d' = d2" using assms q by (simp add: pg_select_def split: sum.splits)
  show thesis
    using q
  proof (cases rule: pg_query_cases)
    case (failed e)
    with assms q d' show thesis by (auto simp: pg_select_def intro: that(1))
  next
    case ok
    show thesis
    proof (cases "sel d'")
      case (Inl e)
      with ok d' assms q show thesis by (auto simp: pg_select_def intro: that(1))
    next
      case (Inr rows)
      have "(\<exists>e. res = Inl e) \<or> res = Inr rows \<or> (\<exists>n. res = Inr (take n rows))"
        using assms q ok d' Inr by (auto simp: pg_select_def split: option.splits rows_end.splits if_splits)
      moreover have "rows = take (length rows) rows" by simp
      ultimately show thesis using Inr ok(2) d' that by metis
    qed
  qed
qed

lemma pg_rows_cases:
  assumes "pg_rows env qm sm sel d = (res, d')"
  obtains (failed) e where "res = Inl e" "d' = d\<lparr>stmtCtr := Suc (stmtCtr d)\<rparr>"
    | (ok) n where "res = Inr (take n (sel d'))" "d' = d\<lparr>stmtCtr := Suc (stmtCtr d)\<rparr>"
  using assms unfolding pg_rows_def by (cases rule: pg_select_cases) (auto intro: that)

lemma fresh_not_drawn: "inj (freshUUID env) \<Longrightarrow> freshUUID env (uuidCtr d) \<notin> drawn env d"
  by (auto simp: drawn_def inj_def)

lemma healthy_env_inj [simp]: "healthy_env env \<Longrightarrow> inj (freshUUID env)"
  by (simp add: healthy_env_def)

lemma drawn_eq: "uuidCtr d' = uuidCtr d \<Longrightarrow> drawn env d' = drawn env d"
  by (simp add: drawn_def)

lemma drawn_Suc: "uuidCtr d' = Suc (uuidCtr d) \<Longrightarrow>
    drawn env d' = insert (freshUUID env (uuidCtr d)) (drawn env d)"
  by (simp add: drawn_def lessThan_Suc)

section \<open>Tables with a conflict key\<close>

locale keyed_table =
  fixes key :: "'r \<Rightarrow> 'k" and rid :: "'r \<Rightarrow> string" and merge :: "'r \<Rightarrow> 'r \<Rightarrow> 'r"
  assumes key_merge [simp]: "key (merge old new) = key old"
    and rid_merge [simp]: "rid (merge old new) = rid old"
begin

lemma upsert_cases:
  assumes "insert_on_conflict key rid merge new rs = Inr rs'"
  obtains (update) "key new \<in> key ` set rs"
      "rs' = map (\<lambda>r. if key r = key new then merge r new else r) rs"
    | (insert) "key new \<notin> key ` set rs" "rid new \<notin> rid ` set rs" "rs' = rs @ [new]"
proof (cases "key new \<in> key ` set rs")
  case True
  then have "list_ex (\<lambda>r. key r = key new) rs" by (simp add: list_ex_key)
  with assms True show thesis by (intro update) (auto simp: insert_on_conflict_def)
next
  case False
  then have "\<not> list_ex (\<lambda>r. key r = key new) rs" by (simp add: list_ex_key)
  with assms have "insert_row rid new rs = Inr rs'" by (simp add: insert_on_conflict_def)
  then have "\<not> list_ex (\<lambda>r. rid r = rid new) rs" and "rs' = rs @ [new]"
    by (auto simp: insert_row_def split: if_splits)
  with False show thesis by (intro insert) (simp_all add: list_ex_key)
qed

lemma map_key_update:
  "map key (map (\<lambda>r. if key r = k then merge r new else r) rs) = map key rs"
  by (induction rs) auto

lemma map_rid_update:
  "map rid (map (\<lambda>r. if key r = k then merge r new else r) rs) = map rid rs"
  by (induction rs) auto

lemma upsert_wf:
  assumes "insert_on_conflict key rid merge new rs = Inr rs'" and "table_wf key rid rs"
  shows "table_wf key rid rs'"
  using assms(1)
proof (cases rule: upsert_cases)
  case update
  then show ?thesis
    using assms(2) unfolding table_wf_def by (metis map_key_update map_rid_update)
next
  case insert
  then show ?thesis using assms(2) by (auto simp: table_wf_def)
qed

lemma upsert_keys:
  assumes "insert_on_conflict key rid merge new rs = Inr rs'"
  shows "key ` set rs' = insert (key new) (key ` set rs)"
  using assms
proof (cases rule: upsert_cases)
  case update
  have "key ` set rs' = key ` set rs"
    by (metis update(2) map_key_update set_map)
  with update(1) show ?thesis by auto
qed auto

lemma upsert_lookup:
  assumes "insert_on_conflict key rid merge new rs = Inr rs'"
  shows "lookup_row key k rs' =
    (if k = key new
     then Some (case lookup_row key k rs of None \<Rightarrow> new | Some old \<Rightarrow> merge old new)
     else lookup_row key k rs)"
  using assms
proof (cases rule: upsert_cases)
  case update
  have "lookup_row key k (map (\<lambda>r. if key r = key new then merge r new else r) rs)
      = map_option (\<lambda>r. if key r = key new then merge r new else r) (lookup_row key k rs)"
    by (induction rs) (auto simp: lookup_row_def)
  moreover have "lookup_row key k rs = Some r \<Longrightarrow> key r = k" for r
    by (auto simp: lookup_row_def find_Some_iff)
  moreover have "lookup_row key (key new) rs \<noteq> None"
    using update(1) by (simp add: lookup_row_def find_key_None)
  ultimately show ?thesis
    using update(2) by (cases "lookup_row key k rs") auto
next
  case insert
  have "lookup_row key (key new) rs = None"
    using insert(1) by (simp add: lookup_row_def find_key_None)
  then show ?thesis
    using insert(3) by (auto simp: lookup_row_def find_snoc split: option.split)
qed

lemma upsert_succeeds:
  assumes "rid new \<notin> rid ` set rs"
  obtains rs' where "insert_on_conflict key rid merge new rs = Inr rs'"
    and "rid ` set rs' \<subseteq> insert (rid new) (rid ` set rs)"
proof (cases "key new \<in> key ` set rs")
  case True
  let ?rs = "map (\<lambda>r. if key r = key new then merge r new else r) rs"
  have "insert_on_conflict key rid merge new rs = Inr ?rs"
    using True by (simp add: insert_on_conflict_def list_ex_key)
  moreover have "rid ` set ?rs \<subseteq> insert (rid new) (rid ` set rs)"
    by auto
  ultimately show thesis by (rule that)
next
  case False
  then have "insert_on_conflict key rid merge new rs = Inr (rs @ [new])"
    using assms by (simp add: insert_on_conflict_def insert_row_def list_ex_key)
  then show thesis by (rule that) auto
qed

text \<open>
  A loop over items with different keys, each iteration of which upserts the row of its item:
  every item is merged into the row of its key or is the row of its key, and the rows of the
  other keys are untouched.
\<close>

definition merged :: "(string \<Rightarrow> 'x \<Rightarrow> 'r) \<Rightarrow> 'x \<Rightarrow> 'r option \<Rightarrow> 'r option \<Rightarrow> bool" where
  "merged row x old new \<longleftrightarrow>
     (\<exists>u. new = Some (case old of None \<Rightarrow> row u x | Some r \<Rightarrow> merge r (row u x)))"

lemma loop_merges:
  assumes key_row: "\<And>u x. key (row u x) = item_key x"
    and step: "\<And>x d. x \<in> set xs \<Longrightarrow> P d \<Longrightarrow>
      \<exists>u d'. f x d = (None, d') \<and> P d' \<and> insert_on_conflict key rid merge (row u x) (tab d) = Inr (tab d')"
    and "P d" and "distinct (map item_key xs)"
  shows "\<exists>d'. for_each f xs d = (None, d') \<and> P d' \<and>
      (\<forall>x \<in> set xs. merged row x (lookup_row key (item_key x) (tab d)) (lookup_row key (item_key x) (tab d'))) \<and>
      (\<forall>k. k \<notin> item_key ` set xs \<longrightarrow> lookup_row key k (tab d') = lookup_row key k (tab d))"
  using assms(2-)
proof (induction xs arbitrary: d)
  case Nil
  then show ?case by simp
next
  case (Cons x xs)
  obtain u d1 where d1: "f x d = (None, d1)" "P d1"
      "insert_on_conflict key rid merge (row u x) (tab d) = Inr (tab d1)"
    using Cons.prems(1) [of x d] Cons.prems(2) by auto
  have "\<exists>d'. for_each f xs d1 = (None, d') \<and> P d' \<and>
      (\<forall>x \<in> set xs. merged row x (lookup_row key (item_key x) (tab d1)) (lookup_row key (item_key x) (tab d'))) \<and>
      (\<forall>k. k \<notin> item_key ` set xs \<longrightarrow> lookup_row key k (tab d') = lookup_row key k (tab d1))"
    by (rule Cons.IH) (use Cons.prems d1(2) in simp_all)
  then obtain d' where d': "for_each f xs d1 = (None, d')" "P d'"
      "\<forall>x \<in> set xs. merged row x (lookup_row key (item_key x) (tab d1)) (lookup_row key (item_key x) (tab d'))"
      "\<forall>k. k \<notin> item_key ` set xs \<longrightarrow> lookup_row key k (tab d') = lookup_row key k (tab d1)"
    by blast
  note l1 = upsert_lookup [OF d1(3), unfolded key_row]
  have new: "item_key x \<notin> item_key ` set xs" using Cons.prems(3) by auto
  have "merged row x (lookup_row key (item_key x) (tab d)) (lookup_row key (item_key x) (tab d'))"
    using d'(4) new l1 [of "item_key x"] by (auto simp: merged_def)
  moreover have "merged row y (lookup_row key (item_key y) (tab d)) (lookup_row key (item_key y) (tab d'))"
    if "y \<in> set xs" for y
  proof -
    have "item_key y \<in> item_key ` set xs" using that by (rule imageI)
    with new have "item_key y \<noteq> item_key x" by metis
    then show ?thesis using d'(3) that l1 [of "item_key y"] by auto
  qed
  moreover have "lookup_row key k (tab d') = lookup_row key k (tab d)" if "k \<notin> item_key ` set (x # xs)" for k
    using d'(4) that l1 [of k] by auto
  ultimately show ?case using d1(1) d'(1,2) by auto
qed

end

section \<open>Loops of upserts\<close>

text \<open>
  The shape of \<open>UpsertPartitions\<close>, \<open>UpsertNodes\<close> and of the write in
  \<open>UpsertApplications\<close>: draw an identifier, send the statement, wrap the error. The
  locale collects what holds of every loop of this shape.
\<close>

definition upsert_stmt ::
    "('r \<Rightarrow> 'k) \<Rightarrow> ('r \<Rightarrow> string) \<Rightarrow> ('r \<Rightarrow> 'r \<Rightarrow> 'r) \<Rightarrow> (db \<Rightarrow> 'r list) \<Rightarrow> ('r list \<Rightarrow> db \<Rightarrow> db) \<Rightarrow>
     'r \<Rightarrow> db \<Rightarrow> db result" where
  "upsert_stmt key rid merge tab put new d =
     (case insert_on_conflict key rid merge new (tab d) of Inl e \<Rightarrow> Inl e | Inr t \<Rightarrow> Inr (put t d))"

locale upsert_loop = keyed_table key rid merge
  for key :: "'r \<Rightarrow> 'k" and rid :: "'r \<Rightarrow> string" and merge :: "'r \<Rightarrow> 'r \<Rightarrow> 'r" +
  fixes tab :: "db \<Rightarrow> 'r list" and put :: "'r list \<Rightarrow> db \<Rightarrow> db"
    and row :: "string \<Rightarrow> 'x \<Rightarrow> 'r" and item_key :: "'x \<Rightarrow> 'k" and wrap :: "goerror \<Rightarrow> goerror"
    and op :: "pgenv \<Rightarrow> 'x \<Rightarrow> db \<Rightarrow> goerror option \<times> db"
  assumes tab_put [simp]: "tab (put t d) = t"
    and uuidCtr_put [simp]: "uuidCtr (put t d) = uuidCtr d"
    and tab_stmtCtr [simp]: "tab (d\<lparr>stmtCtr := n\<rparr>) = tab d"
    and tab_uuidCtr [simp]: "tab (d\<lparr>uuidCtr := n\<rparr>) = tab d"
    and key_row [simp]: "key (row u x) = item_key x"
    and rid_row [simp]: "rid (row u x) = u"
    and op_eq: "op env x d =
      (case new_uuid env d of (u, d1) \<Rightarrow>
         (case pg_exec env (upsert_stmt key rid merge tab put (row u x)) d1 of
            (Some e, d2) \<Rightarrow> (Some (wrap e), d2)
          | (None, d2) \<Rightarrow> (None, d2)))"
begin

definition ids_drawn :: "pgenv \<Rightarrow> db \<Rightarrow> bool" where
  "ids_drawn env d \<longleftrightarrow> rid ` set (tab d) \<subseteq> drawn env d"

text \<open>One iteration, whatever the environment: nothing changes in the table, or the upsert happened.\<close>

lemma op_cases:
  assumes "op env x d = (res, d')"
  obtains (failed) e where "res = Some e" "tab d' = tab d" "uuidCtr d' = Suc (uuidCtr d)"
    | (ok) "res = None" "uuidCtr d' = Suc (uuidCtr d)"
        "insert_on_conflict key rid merge (row (freshUUID env (uuidCtr d)) x) (tab d) = Inr (tab d')"
proof -
  let ?r = "row (freshUUID env (uuidCtr d)) x" and ?d1 = "d\<lparr>uuidCtr := Suc (uuidCtr d)\<rparr>"
  obtain r2 d2 where e: "pg_exec env (upsert_stmt key rid merge tab put ?r) ?d1 = (r2, d2)"
    by fastforce
  have res: "d' = d2" "res = map_option wrap r2"
    using assms e by (auto simp: op_eq new_uuid_def split: option.splits)
  show thesis
    using e
  proof (cases rule: pg_exec_cases)
    case (failed e)
    with res show thesis by (intro that(1)) auto
  next
    case ok
    from ok(2) have "\<exists>t. insert_on_conflict key rid merge ?r (tab d) = Inr t \<and>
        d' = put t (?d1\<lparr>stmtCtr := Suc (stmtCtr ?d1)\<rparr>)"
      using res by (auto simp: upsert_stmt_def split: sum.splits)
    then have "insert_on_conflict key rid merge ?r (tab d) = Inr (tab d')"
        "uuidCtr d' = Suc (uuidCtr d)" by auto
    with ok(1) res show thesis by (intro that(2)) simp_all
  qed
qed

lemma op_keeps:
  assumes "op env x d = (res, d')" and "inj (freshUUID env)"
    and "table_wf key rid (tab d)" and "ids_drawn env d"
  shows "table_wf key rid (tab d') \<and> ids_drawn env d'"
  using assms(1)
proof (cases rule: op_cases)
  case (failed e)
  have "drawn env d \<subseteq> drawn env d'" using drawn_Suc [OF failed(3)] by auto
  with failed assms(3,4) show ?thesis by (auto simp: ids_drawn_def)
next
  case ok
  let ?u = "freshUUID env (uuidCtr d)"
  have "rid ` set (tab d') \<subseteq> insert ?u (rid ` set (tab d))"
    using ok(3) by (cases rule: upsert_cases) auto
  then have "ids_drawn env d'"
    using assms(4) unfolding ids_drawn_def drawn_Suc [OF ok(2)] by blast
  with upsert_wf [OF ok(3) assms(3)] show ?thesis by blast
qed

lemma loop_keeps:
  assumes "for_each (op env) xs d = (res, d')" and "inj (freshUUID env)"
    and "table_wf key rid (tab d)" and "ids_drawn env d"
  shows "table_wf key rid (tab d') \<and> ids_drawn env d'"
  using assms(1,3,4)
proof (induction xs arbitrary: d)
  case Nil
  then show ?case by simp
next
  case (Cons x xs)
  obtain r1 d1 where o1: "op env x d = (r1, d1)" by fastforce
  have k: "table_wf key rid (tab d1) \<and> ids_drawn env d1"
    using op_keeps [OF o1 assms(2)] Cons.prems by blast
  show ?case
    using Cons.prems(1) o1 k Cons.IH [of d1] by (cases r1) auto
qed

lemma op_succeeds:
  assumes "healthy_env env" and "ids_drawn env d"
  obtains d' where "op env x d = (None, d')" "ids_drawn env d'"
    "insert_on_conflict key rid merge (row (freshUUID env (uuidCtr d)) x) (tab d) = Inr (tab d')"
proof -
  let ?u = "freshUUID env (uuidCtr d)"
  have "rid (row ?u x) \<notin> rid ` set (tab d)"
    using assms fresh_not_drawn [OF healthy_env_inj [OF assms(1)], of d] by (auto simp: ids_drawn_def)
  then obtain t where t: "insert_on_conflict key rid merge (row ?u x) (tab d) = Inr t"
      "rid ` set t \<subseteq> insert (rid (row ?u x)) (rid ` set (tab d))"
    by (rule upsert_succeeds)
  let ?d' = "put t (d\<lparr>uuidCtr := Suc (uuidCtr d), stmtCtr := Suc (stmtCtr d)\<rparr>)"
  have "op env x d = (None, ?d')"
    using t(1) assms(1) by (simp add: op_eq new_uuid_def upsert_stmt_def)
  moreover have "ids_drawn env ?d'"
    using t(2) assms(2) drawn_Suc [of ?d' d env] by (auto simp: ids_drawn_def)
  moreover have "insert_on_conflict key rid merge (row ?u x) (tab d) = Inr (tab ?d')"
    unfolding tab_put by (rule t(1))
  ultimately show thesis by (rule that)
qed

lemma loop_succeeds:
  assumes "healthy_env env" and "ids_drawn env d" and "distinct (map item_key xs)"
  shows "\<exists>d'. for_each (op env) xs d = (None, d') \<and> ids_drawn env d' \<and>
      (\<forall>x \<in> set xs. merged row x (lookup_row key (item_key x) (tab d)) (lookup_row key (item_key x) (tab d'))) \<and>
      (\<forall>k. k \<notin> item_key ` set xs \<longrightarrow> lookup_row key k (tab d') = lookup_row key k (tab d))"
proof (rule loop_merges [where tab = tab and P = "ids_drawn env" and row = row and d = d])
  fix x d assume "ids_drawn env d"
  then show "\<exists>u d'. op env x d = (None, d') \<and> ids_drawn env d' \<and>
      insert_on_conflict key rid merge (row u x) (tab d) = Inr (tab d')"
    using op_succeeds [OF assms(1), of d x] by metis
qed (use assms(2,3) in simp_all)

end

section \<open>A concrete environment\<close>

text \<open>An environment in which nothing fails, identifiers are numerals and the clock stands still.\<close>

definition demo_env :: pgenv where
  "demo_env = \<lparr>freshUUID = format_nat, unixNow = (\<lambda>n. 0), pgFault = (\<lambda>n. None), rowsEnd = (\<lambda>n. None)\<rparr>"

lemma inj_format_nat: "inj format_nat"
proof (rule injI)
  fix m n assume eq: "format_nat m = format_nat n"
  have "parse_digits (m + n) (format_nat m) 0 = Inr m" "parse_digits (m + n) (format_nat n) 0 = Inr n"
    by (rule parse_digits_format_nat, simp)+
  then show "m = n" unfolding eq by simp
qed

lemma healthy_demo_env [simp]: "healthy_env demo_env"
  by (simp add: healthy_env_def demo_env_def inj_format_nat)

end
