(* ===== verification/Repo_Queues.thy ===== *)
theory Repo_Queues
  imports Pg_Schema "HOL-Library.Multiset"
begin

text \<open>
  The queue part of the repository, \<open>internal/database/repository/queue.go\<close>: the
  statements on table \<open>queues\<close>, \<open>UpsertQueues\<close>, \<open>AddQueues\<close>, the readers that build
  trees (\<open>GetAllQueues\<close>, \<open>GetQueuesPerPartition\<close>, \<open>GetQueue\<close>) and \<open>DeleteQueues\<close>.
  The recursion of \<open>getChildrenFromMap\<close> follows identifiers and may run forever on a
  cyclic table, so its model has fuel: \<open>None\<close> is a recursion that does not end, and the
  readers pass more fuel than there are rows.
\<close>

section \<open>Statements on table queues\<close>

definition queue_key :: "QueueRow \<Rightarrow> string \<times> string" where
  "queue_key r = (queue_Partition (qr_info r), queue_QueueName (qr_info r))"

text \<open>The \<open>DO UPDATE SET\<close> list of \<open>UpsertQueues\<close>.\<close>

definition queue_merge :: "QueueRow \<Rightarrow> QueueRow \<Rightarrow> QueueRow" where
  "queue_merge old new =
     (let e = qr_info new in
      old\<lparr>qr_info := (qr_info old)\<lparr>
        queue_Status := queue_Status e,
        queue_PendingResource := queue_PendingResource e,
        queue_MaxResource := queue_MaxResource e,
        queue_GuaranteedResource := queue_GuaranteedResource e,
        queue_AllocatedResource := queue_AllocatedResource e,
        queue_PreemptingResource := queue_PreemptingResource e,
        queue_HeadRoom := queue_HeadRoom e,
        queue_IsLeaf := queue_IsLeaf e,
        queue_IsManaged := queue_IsManaged e,
        queue_MaxRunningApps := queue_MaxRunningApps e,
        queue_RunningApps := queue_RunningApps e\<rparr>\<rparr>)"

definition put_queues :: "db \<Rightarrow> QueueRow list result \<Rightarrow> db result" where
  "put_queues d res = (case res of Inl e \<Rightarrow> Inl e | Inr t \<Rightarrow> Inr (d\<lparr>queues_t := t\<rparr>))"

definition upsert_queue_stmt :: "QueueRow \<Rightarrow> db \<Rightarrow> db result" where
  "upsert_queue_stmt new d =
     (if queue_Partition (qr_info new) = [] then Inl check_violation
      else put_queues d (insert_on_conflict queue_key qr_id queue_merge new (queues_t d)))"

definition insert_queue_stmt :: "QueueRow \<Rightarrow> db \<Rightarrow> db result" where
  "insert_queue_stmt new d =
     (if queue_Partition (qr_info new) = [] then Inl check_violation
      else if list_ex (\<lambda>r. queue_key r = queue_key new) (queues_t d) then Inl unique_violation
      else put_queues d (insert_row qr_id new (queues_t d)))"

definition delete_queue_stmt :: "int \<Rightarrow> string \<Rightarrow> db \<Rightarrow> db result" where
  "delete_queue_stmt now i d =
     Inr (d\<lparr>queues_t :=
       map (\<lambda>r. if qr_id r = i then r\<lparr>qr_deleted_at := Some now\<rparr> else r) (queues_t d)\<rparr>)"

section \<open>Operations\<close>

definition alive_queue :: "string \<Rightarrow> string \<Rightarrow> QueueRow \<Rightarrow> bool" where
  "alive_queue queueName pname r \<longleftrightarrow>
     queue_QueueName (qr_info r) = queueName \<and> queue_Partition (qr_info r) = pname \<and>
     qr_deleted_at r = None"

definition getQueueID :: "pgenv \<Rightarrow> string \<Rightarrow> string \<Rightarrow> db \<Rightarrow> string option result \<times> db" where
  "getQueueID env queueName pname d =
     (if queueName = [] then (Inr None, d)
      else (case pg_query env (\<lambda>d. case find (alive_queue queueName pname) (queues_t d) of
                   None \<Rightarrow> Inl ErrNoRows | Some r \<Rightarrow> Inr (qr_id r)) d of
          (Inl e, d') \<Rightarrow> (Inl (Errorf_v ''could not get queueName queue from DB: '' e), d')
        | (Inr i, d') \<Rightarrow> (Inr (Some i), d')))"

definition new_queue_row :: "string \<Rightarrow> string option \<Rightarrow> int \<Rightarrow> PartitionQueueDAOInfo \<Rightarrow> QueueRow" where
  "new_queue_row i parentId now q =
     \<lparr>qr_id = i, qr_parent_id = parentId, qr_created_at = now, qr_deleted_at = None,
      qr_info = qinfo q\<rparr>"

definition UpsertQueue :: "pgenv \<Rightarrow> PartitionQueueDAOInfo \<Rightarrow> db \<Rightarrow> goerror option \<times> db" where
  "UpsertQueue env q d =
     (case getQueueID env (queue_Parent (qinfo q)) (queue_Partition (qinfo q)) d of
        (Inl e, d1) \<Rightarrow> (Some (Errorf_v ''could not get parent queue from DB: '' e), d1)
      | (Inr parentId, d1) \<Rightarrow>
          (case new_uuid env d1 of (u, d2) \<Rightarrow>
             (case pg_exec env (upsert_queue_stmt (new_queue_row u parentId (unix_now env d2) q)) d2 of
                (Some e, d3) \<Rightarrow> (Some (Errorf_v ''could not insert/update queue into DB: '' e), d3)
              | (None, d3) \<Rightarrow> (None, d3))))"

definition UpsertQueues :: "pgenv \<Rightarrow> PartitionQueueDAOInfo list \<Rightarrow> db \<Rightarrow> goerror option \<times> db" where
  "UpsertQueues env queues d = for_each (UpsertQueue env) queues d"

text \<open>One row of \<open>AddQueues\<close>: \<open>INSERT ... RETURNING id\<close>.\<close>

definition AddQueue_row ::
    "pgenv \<Rightarrow> string option \<Rightarrow> PartitionQueueDAOInfo \<Rightarrow> db \<Rightarrow> string result \<times> db" where
  "AddQueue_row env parentId q d =
     (case new_uuid env d of (u, d1) \<Rightarrow>
        (case pg_exec env (insert_queue_stmt (new_queue_row u parentId (unix_now env d1) q)) d1 of
           (Some e, d2) \<Rightarrow> (Inl e, d2)
         | (None, d2) \<Rightarrow> (Inr u, d2)))"

text \<open>
  \<open>AddQueues\<close>: \<open>parentId\<close> is a variable of the whole loop, so the identifier found for one
  queue stays in force for the queues after it.
\<close>

function AddQueues ::
    "pgenv \<Rightarrow> string option \<Rightarrow> PartitionQueueDAOInfo list \<Rightarrow> db \<Rightarrow> goerror option \<times> db" where
  "AddQueues env parentId [] d = (None, d)"
| "AddQueues env parentId (q # qs) d =
     (case (case parentId of
              None \<Rightarrow> getQueueID env (queue_Parent (qinfo q)) (queue_Partition (qinfo q)) d
            | Some p \<Rightarrow> (Inr (Some p), d)) of
        (Inl e, d1) \<Rightarrow> (Some (Errorf_v ''could not get parent queue from DB: '' e), d1)
      | (Inr parentId', d1) \<Rightarrow>
          if queue_Partition (qinfo q) = [] then
            (Some (ErrorText (sprintf ''partition is required for queue %s''
               [AText (queue_QueueName (qinfo q))])), d1)
          else (case AddQueue_row env parentId' q d1 of
              (Inl e, d2) \<Rightarrow>
                (Some (ErrorText (sprintf ''could not add queue %s into DB: %v''
                   [AText (queue_QueueName (qinfo q)), AText (error_text e)])), d2)
            | (Inr i, d2) \<Rightarrow>
                (case (if qChildren q \<noteq> []
                       then AddQueues env (Some i)
                              (map (set_partition (queue_Partition (qinfo q))) (qChildren q)) d2
                       else (None, d2)) of
                   (Some e, d3) \<Rightarrow>
                     (Some (ErrorText (sprintf
                        ''could not add one or more children of queue %s into DB: %v''
                        [AText (queue_QueueName (qinfo q)), AText (error_text e)])), d3)
                 | (None, d3) \<Rightarrow> AddQueues env parentId' qs d3)))"
  by pat_completeness auto
termination
  by (relation "measure (\<lambda>(env, p, qs, d). sum_list (map queue_count qs))")
     (auto simp: queue_count_children)

declare AddQueues.simps(2) [simp del]

text \<open>\<open>GetAllQueues\<close>: a flat list, \<open>Children\<close> left empty.\<close>

definition GetAllQueues :: "pgenv \<Rightarrow> db \<Rightarrow> StoredQueue list result \<times> db" where
  "GetAllQueues env d =
     (case pg_rows env ''could not get queues from DB: '' ''could not scan queue from DB: '' queues_t d of
        (Inl e, d') \<Rightarrow> (Inl e, d')
      | (Inr rows, d') \<Rightarrow> (Inr (map (\<lambda>r. StoredQueue r []) rows), d'))"

type_synonym children_map = "string \<rightharpoonup> QueueRow list"

text \<open>\<open>childrenMap[k] = append(childrenMap[k], &q)\<close>\<close>

definition add_child :: "children_map \<Rightarrow> string \<Rightarrow> QueueRow \<Rightarrow> children_map" where
  "add_child cm k q = cm(k \<mapsto> slice_list (cm k) @ [q])"

fun getChildrenFromMap :: "nat \<Rightarrow> children_map \<Rightarrow> string \<Rightarrow> StoredQueue list option" where
  "getChildrenFromMap 0 cm queueID = None"
| "getChildrenFromMap (Suc n) cm queueID =
     those (map (\<lambda>child. map_option (StoredQueue child) (getChildrenFromMap n cm (qr_id child)))
       (slice_list (cm queueID)))"

text \<open>The row loop of \<open>GetQueuesPerPartition\<close>: top-level queues and the children map.\<close>

primrec partition_rows :: "QueueRow list \<Rightarrow> QueueRow list \<Rightarrow> children_map \<Rightarrow> QueueRow list \<times> children_map" where
  "partition_rows [] queues cm = (queues, cm)"
| "partition_rows (q # rows) queues cm =
     (case qr_parent_id q of
        Some p \<Rightarrow> partition_rows rows queues (add_child cm p q)
      | None \<Rightarrow> partition_rows rows (queues @ [q]) cm)"

definition build_forest :: "QueueRow list \<Rightarrow> StoredQueue list option" where
  "build_forest rows =
     (case partition_rows rows [] Map.empty of (queues, cm) \<Rightarrow>
        those (map (\<lambda>q. map_option (StoredQueue q)
          (getChildrenFromMap (Suc (length rows)) cm (qr_id q))) queues))"

definition GetQueuesPerPartition :: "pgenv \<Rightarrow> string \<Rightarrow> db \<Rightarrow> StoredQueue list option result \<times> db" where
  "GetQueuesPerPartition env pname d =
     (case pg_rows env ''could not get queues from DB: '' ''could not scan queue from DB: ''
         (\<lambda>d. filter (\<lambda>r. queue_Partition (qr_info r) = pname) (queues_t d)) d of
        (Inl e, d') \<Rightarrow> (Inl e, d')
      | (Inr rows, d') \<Rightarrow> (Inr (build_forest rows), d'))"

text \<open>
  The recursive query of \<open>GetQueue\<close>: generation \<open>g + 1\<close> joins the table with generation
  \<open>g\<close> (\<open>UNION ALL\<close>, until a generation is empty), ordered by generation number.
\<close>

fun generations :: "nat \<Rightarrow> QueueRow list \<Rightarrow> nat \<Rightarrow> QueueRow list \<Rightarrow> (QueueRow \<times> nat) list option" where
  "generations fuel rows g [] = Some []"
| "generations 0 rows g (p # ps) = None"
| "generations (Suc n) rows g (p # ps) =
     map_option (\<lambda>rest. map (\<lambda>r. (r, g)) (p # ps) @ rest)
       (generations n rows (Suc g)
          (concat (map (\<lambda>a. filter (\<lambda>c. qr_parent_id c = Some (qr_id a)) rows) (p # ps))))"

fun generation_rows ::
    "(QueueRow \<times> nat) list \<Rightarrow> QueueRow option \<Rightarrow> children_map \<Rightarrow> QueueRow option \<times> children_map" where
  "generation_rows [] root cm = (root, cm)"
| "generation_rows ((q, g) # rows) root cm =
     (if root = None \<and> g = 0 then generation_rows rows (Some q) cm
      else (case qr_parent_id q of
          Some p \<Rightarrow> generation_rows rows root (add_child cm p q)
        | None \<Rightarrow> generation_rows rows root cm))"

definition queue_generations :: "string \<Rightarrow> string \<Rightarrow> QueueRow list \<Rightarrow> (QueueRow \<times> nat) list option" where
  "queue_generations pname queueName rows =
     generations (Suc (length rows)) rows 0 (filter (alive_queue queueName pname) rows)"

definition GetQueue :: "pgenv \<Rightarrow> string \<Rightarrow> string \<Rightarrow> db \<Rightarrow> StoredQueue option result \<times> db" where
  "GetQueue env pname queueName d =
     (case pg_rows env ''could not get queues from DB: '' ''could not scan queue from DB: ''
         (\<lambda>d. slice_list (queue_generations pname queueName (queues_t d))) d of
        (Inl e, d') \<Rightarrow> (Inl e, d')
      | (Inr gens, d') \<Rightarrow>
          if queue_generations pname queueName (queues_t d) = None then (Inr None, d')
          else (case generation_rows gens None Map.empty of
              (None, cm) \<Rightarrow>
                (Inl (ErrorText (sprintf ''queue not found: %s'' [AText queueName])), d')
            | (Some root, cm) \<Rightarrow>
                (Inr (map_option (StoredQueue root)
                   (getChildrenFromMap (Suc (length (queues_t d))) cm (qr_id root))), d')))"

primrec stored_count :: "StoredQueue \<Rightarrow> nat" where
  "stored_count (StoredQueue r cs) = Suc (sum_list (map stored_count cs))"

lemma stored_count_children: "stored_count q = Suc (sum_list (map stored_count (sqChildren q)))"
  by (cases q) simp

text \<open>\<open>DeleteQueues\<close>: the children first, then the queue.\<close>

function DeleteQueues :: "pgenv \<Rightarrow> StoredQueue list \<Rightarrow> db \<Rightarrow> goerror option \<times> db" where
  "DeleteQueues env [] d = (None, d)"
| "DeleteQueues env (q # qs) d =
     (case (if sqChildren q \<noteq> [] then DeleteQueues env (sqChildren q) d else (None, d)) of
        (Some e, d1) \<Rightarrow> (Some e, d1)
      | (None, d1) \<Rightarrow>
          (case pg_exec env (delete_queue_stmt (unix_now env d1) (qr_id (sqRow q))) d1 of
             (Some e, d2) \<Rightarrow> (Some (Errorf_v ''could not delete queue from DB: '' e), d2)
           | (None, d2) \<Rightarrow> DeleteQueues env qs d2))"
  by pat_completeness auto
termination
  by (relation "measure (\<lambda>(env, qs, d). sum_list (map stored_count qs))")
     (auto simp: stored_count_children)

declare DeleteQueues.simps(2) [simp del]

section \<open>The table as a keyed table\<close>

interpretation queue_tab: keyed_table queue_key qr_id queue_merge
  by unfold_locales (simp_all add: queue_key_def queue_merge_def Let_def)

section \<open>The invariant of the table\<close>

text \<open>
  Rows refer to parents that were inserted before them in the same partition
  (\<open>parents_before\<close>), and to the row of the queue named by their column \<open>parent\<close>
  (\<open>named_parents\<close>).
\<close>

fun parents_before :: "(string \<times> string) list \<Rightarrow> QueueRow list \<Rightarrow> bool" where
  "parents_before seen [] = True"
| "parents_before seen (r # rs) \<longleftrightarrow>
     (case qr_parent_id r of None \<Rightarrow> True | Some p \<Rightarrow> (p, queue_Partition (qr_info r)) \<in> set seen) \<and>
     parents_before ((qr_id r, queue_Partition (qr_info r)) # seen) rs"

definition named_parents :: "QueueRow list \<Rightarrow> bool" where
  "named_parents rs \<longleftrightarrow> (\<forall>r \<in> set rs.
     (qr_parent_id r = None \<longleftrightarrow> queue_Parent (qr_info r) = []) \<and>
     (\<forall>p. qr_parent_id r = Some p \<longrightarrow> (\<exists>r' \<in> set rs. qr_id r' = p \<and>
        queue_key r' = (queue_Partition (qr_info r), queue_Parent (qr_info r)))))"

definition queue_inv :: "pgenv \<Rightarrow> db \<Rightarrow> bool" where
  "queue_inv env d \<longleftrightarrow>
     table_wf queue_key qr_id (queues_t d) \<and> qr_id ` set (queues_t d) \<subseteq> drawn env d \<and>
     parents_before [] (queues_t d) \<and> named_parents (queues_t d)"

text \<open>Rewriting rows without touching identifiers, keys and parents keeps the invariant.\<close>

definition same_links :: "QueueRow \<Rightarrow> QueueRow \<Rightarrow> bool" where
  "same_links r r' \<longleftrightarrow> qr_id r' = qr_id r \<and> queue_key r' = queue_key r \<and>
     qr_parent_id r' = qr_parent_id r \<and> queue_Parent (qr_info r') = queue_Parent (qr_info r)"

lemma same_links_merge [simp]: "same_links r (queue_merge r new)"
  by (simp add: same_links_def queue_merge_def queue_key_def Let_def)

lemma same_links_delete [simp]: "same_links r (r\<lparr>qr_deleted_at := t\<rparr>)"
  by (simp add: same_links_def queue_key_def)

lemma same_links_refl [simp]: "same_links r r"
  by (simp add: same_links_def)

lemma same_linksD:
  assumes "same_links r r'"
  shows "qr_id r' = qr_id r" "queue_key r' = queue_key r" "qr_parent_id r' = qr_parent_id r"
    "queue_Parent (qr_info r') = queue_Parent (qr_info r)"
    "queue_Partition (qr_info r') = queue_Partition (qr_info r)"
    "queue_QueueName (qr_info r') = queue_QueueName (qr_info r)"
  using assms by (auto simp: same_links_def queue_key_def)

lemma parents_before_map:
  assumes "\<And>r. same_links r (f r)"
  shows "parents_before seen (map f rs) = parents_before seen rs"
  by (induction rs arbitrary: seen) (simp_all add: same_linksD [OF assms] split: option.split)

lemma named_parents_map:
  assumes "\<And>r. same_links r (f r)"
  shows "named_parents (map f rs) = named_parents rs"
  unfolding named_parents_def by (auto simp: same_linksD [OF assms])

lemma queue_inv_map:
  assumes "\<And>r. same_links r (f r)" and "queue_inv env d"
    and "queues_t d' = map f (queues_t d)" and "drawn env d \<subseteq> drawn env d'"
  shows "queue_inv env d'"
proof -
  have "map queue_key (queues_t d') = map queue_key (queues_t d)"
    and "map qr_id (queues_t d') = map qr_id (queues_t d)"
    using assms(3) by (simp_all add: same_linksD [OF assms(1)])
  then have "table_wf queue_key qr_id (queues_t d')"
    using assms(2) unfolding queue_inv_def table_wf_def by metis
  moreover have "qr_id ` set (queues_t d') = qr_id ` set (queues_t d)"
    using assms(3) by (simp add: image_image same_linksD [OF assms(1)])
  ultimately show ?thesis
    using assms(2-4)
    by (auto simp: queue_inv_def parents_before_map [OF assms(1)] named_parents_map [OF assms(1)])
qed

lemma parents_before_snoc:
  "parents_before seen (rs @ [r]) \<longleftrightarrow> parents_before seen rs \<and>
     (case qr_parent_id r of None \<Rightarrow> True | Some p \<Rightarrow>
        (p, queue_Partition (qr_info r)) \<in> set seen \<union> (\<lambda>r. (qr_id r, queue_Partition (qr_info r))) ` set rs)"
  by (induction rs arbitrary: seen) (auto split: option.split)

text \<open>Appending a row with a new key and a new identifier, below an existing parent.\<close>

definition parent_resolved :: "QueueRow list \<Rightarrow> QueueRow \<Rightarrow> bool" where
  "parent_resolved rs r \<longleftrightarrow>
     (qr_parent_id r = None \<and> queue_Parent (qr_info r) = []) \<or>
     (queue_Parent (qr_info r) \<noteq> [] \<and> (\<exists>r' \<in> set rs. qr_parent_id r = Some (qr_id r') \<and>
        queue_key r' = (queue_Partition (qr_info r), queue_Parent (qr_info r))))"

lemma named_parents_snoc:
  assumes "named_parents rs" and "parent_resolved rs r"
  shows "named_parents (rs @ [r])"
  unfolding named_parents_def
proof (intro ballI conjI allI impI)
  fix x p
  assume x: "x \<in> set (rs @ [r])"
  show "qr_parent_id x = None \<longleftrightarrow> queue_Parent (qr_info x) = []"
    using x assms by (auto simp: named_parents_def parent_resolved_def)
  assume p: "qr_parent_id x = Some p"
  show "\<exists>r' \<in> set (rs @ [r]). qr_id r' = p \<and>
      queue_key r' = (queue_Partition (qr_info x), queue_Parent (qr_info x))"
  proof (cases "x \<in> set rs")
    case True
    then show ?thesis using p assms(1) unfolding named_parents_def by fastforce
  next
    case False
    then show ?thesis using p x assms(2) unfolding parent_resolved_def by fastforce
  qed
qed

lemma queue_inv_snoc:
  assumes "queue_inv env d" and "parent_resolved (queues_t d) r"
    and "queue_key r \<notin> queue_key ` set (queues_t d)" and "qr_id r = freshUUID env (uuidCtr d)"
    and "inj (freshUUID env)"
    and "queues_t d' = queues_t d @ [r]" and "uuidCtr d' = Suc (uuidCtr d)"
  shows "queue_inv env d'"
proof -
  have new: "qr_id r \<notin> qr_id ` set (queues_t d)"
    using assms(1,4) fresh_not_drawn [OF assms(5)] by (auto simp: queue_inv_def)
  have wf: "table_wf queue_key qr_id (queues_t d')"
    using assms(1,3,6) new by (auto simp: queue_inv_def table_wf_def)
  have "qr_id ` set (queues_t d') \<subseteq> drawn env d'"
    using assms(1,4,6) by (auto simp: queue_inv_def drawn_Suc [OF assms(7)])
  moreover have "parents_before [] (queues_t d')"
    using assms(1,2,6)
    by (auto simp: queue_inv_def parents_before_snoc parent_resolved_def queue_key_def image_iff)
      metis
  moreover have "named_parents (queues_t d')"
    using assms(1,2,6) named_parents_snoc by (simp add: queue_inv_def)
  ultimately show ?thesis using wf by (simp add: queue_inv_def)
qed

section \<open>Upserting queues\<close>

definition dao_key :: "PartitionQueueDAOInfo \<Rightarrow> string \<times> string" where
  "dao_key q = (queue_Partition (qinfo q), queue_QueueName (qinfo q))"

lemma queue_key_new_row [simp]: "queue_key (new_queue_row i p n q) = dao_key q"
  by (simp add: queue_key_def new_queue_row_def dao_key_def)

lemma new_queue_row_simps [simp]:
  "qr_id (new_queue_row i p n q) = i" "qr_parent_id (new_queue_row i p n q) = p"
  "qr_deleted_at (new_queue_row i p n q) = None" "qr_info (new_queue_row i p n q) = qinfo q"
  by (simp_all add: new_queue_row_def)

lemma getQueueID_cases:
  assumes "getQueueID env n p d = (res, d')"
  obtains (failed) e k where "res = Inl e" "d' = d\<lparr>stmtCtr := k\<rparr>" "n \<noteq> []"
    | (top) "res = Inr None" "d' = d" "n = []"
    | (found) r k where "res = Inr (Some (qr_id r))" "d' = d\<lparr>stmtCtr := k\<rparr>" "n \<noteq> []"
        "find (alive_queue n p) (queues_t d) = Some r"
  using assms
  by (auto simp: getQueueID_def pg_query_def Let_def split: if_splits option.splits)

lemma find_alive_queueD:
  assumes "find (alive_queue n p) rs = Some r"
  shows "r \<in> set rs" "queue_key r = (p, n)" "qr_deleted_at r = None"
proof -
  obtain i where "i < length rs" "rs ! i = r" "alive_queue n p r"
    using assms by (auto simp: find_Some_iff)
  then show "r \<in> set rs" "queue_key r = (p, n)" "qr_deleted_at r = None"
    by (auto simp: alive_queue_def queue_key_def in_set_conv_nth)
qed

text \<open>One iteration of \<open>UpsertQueues\<close>, in any environment.\<close>

lemma UpsertQueue_cases:
  assumes "UpsertQueue env q d = (res, d')"
  obtains (failed) e where "res = Some e" "queues_t d' = queues_t d" "uuidCtr d \<le> uuidCtr d'"
    | (ok) pid now where "res = None" "uuidCtr d' = Suc (uuidCtr d)"
        "insert_on_conflict queue_key qr_id queue_merge
           (new_queue_row (freshUUID env (uuidCtr d)) pid now q) (queues_t d) = Inr (queues_t d')"
        "parent_resolved (queues_t d) (new_queue_row (freshUUID env (uuidCtr d)) pid now q)"
        "queue_Partition (qinfo q) \<noteq> []"
proof -
  let ?n = "queue_Parent (qinfo q)" and ?p = "queue_Partition (qinfo q)"
  obtain res1 d1 where g: "getQueueID env ?n ?p d = (res1, d1)" by fastforce
  show thesis
  proof (cases res1)
    case (Inl e)
    with g have "queues_t d1 = queues_t d" "uuidCtr d1 = uuidCtr d"
      by (auto elim: getQueueID_cases)
    then show thesis using assms g Inl by (intro failed) (auto simp: UpsertQueue_def)
  next
    case (Inr pid)
    with g have d1: "queues_t d1 = queues_t d" "uuidCtr d1 = uuidCtr d"
      and pr: "parent_resolved (queues_t d) (new_queue_row i pid k q)" for i k
      by (auto elim!: getQueueID_cases simp: parent_resolved_def dest: find_alive_queueD)
    obtain u d2 where u: "new_uuid env d1 = (u, d2)" by fastforce
    let ?new = "new_queue_row u pid (unix_now env d2) q"
    obtain res3 d3 where x: "pg_exec env (upsert_queue_stmt ?new) d2 = (res3, d3)" by fastforce
    have d2: "queues_t d2 = queues_t d" "uuidCtr d2 = Suc (uuidCtr d)" "u = freshUUID env (uuidCtr d)"
      using u d1 by (auto simp: new_uuid_def)
    from x show thesis
    proof (cases rule: pg_exec_cases)
      case (failed e)
      then show thesis using assms g Inr u x d2
        by (intro that(1)) (auto simp: UpsertQueue_def)
    next
      case ok
      then show thesis using assms g Inr u x d2 pr
        by (intro that(2) [of pid "unix_now env d2"])
          (auto simp: UpsertQueue_def upsert_queue_stmt_def put_queues_def split: if_splits sum.splits)
    qed
  qed
qed

text \<open>One upsert keeps the invariant, in any environment with distinct UUIDs.\<close>

lemma queue_inv_upsert:
  assumes "queue_inv env d" and "inj (freshUUID env)"
    and "insert_on_conflict queue_key qr_id queue_merge r (queues_t d) = Inr (queues_t d')"
    and "parent_resolved (queues_t d) r" and "qr_id r = freshUUID env (uuidCtr d)"
    and "uuidCtr d' = Suc (uuidCtr d)"
  shows "queue_inv env d'"
  using assms(3)
proof (cases rule: queue_tab.upsert_cases)
  case update
  show ?thesis
    by (rule queue_inv_map [OF _ assms(1) update(2)]) (auto simp: drawn_Suc [OF assms(6)])
next
  case insert
  then show ?thesis using assms by (intro queue_inv_snoc [of env d r d']) auto
qed

lemma UpsertQueue_inv:
  assumes "queue_inv env d" and "inj (freshUUID env)"
  shows "queue_inv env (snd (UpsertQueue env q d))"
proof -
  obtain res d' where u: "UpsertQueue env q d = (res, d')" by fastforce
  then show ?thesis
  proof (cases rule: UpsertQueue_cases)
    case (failed e)
    have "queue_inv env d'"
      by (rule queue_inv_map [of id, OF _ assms(1)]) (use failed in \<open>auto simp: drawn_def\<close>)
    with u show ?thesis by simp
  next
    case (ok pid now)
    with assms u queue_inv_upsert show ?thesis by fastforce
  qed
qed

text \<open>
  The specification of a successful \<open>UpsertQueues\<close>: every queue of the list has a live row,
  whose updated columns are those of the queue; a row that was not there before has all its
  columns from the queue.
\<close>

definition up_to_date :: "PartitionQueueDAOInfo \<Rightarrow> QueueRow \<Rightarrow> bool" where
  "up_to_date q r \<longleftrightarrow> queue_merge r (new_queue_row [] None 0 q) = r"

definition live :: "string \<times> string \<Rightarrow> QueueRow list \<Rightarrow> bool" where
  "live k rs \<longleftrightarrow> list_ex (\<lambda>r. queue_key r = k \<and> qr_deleted_at r = None) rs"

definition dead :: "string \<times> string \<Rightarrow> QueueRow list \<Rightarrow> bool" where
  "dead k rs \<longleftrightarrow> list_ex (\<lambda>r. queue_key r = k \<and> qr_deleted_at r \<noteq> None) rs"

definition stored :: "QueueRow list \<Rightarrow> PartitionQueueDAOInfo \<Rightarrow> QueueRow list \<Rightarrow> bool" where
  "stored orig q rs \<longleftrightarrow> (\<exists>r \<in> set rs. queue_key r = dao_key q \<and> qr_deleted_at r = None \<and>
     up_to_date q r \<and> (dao_key q \<notin> queue_key ` set orig \<longrightarrow> qr_info r = qinfo q))"

fun parents_first :: "(string \<times> string) list \<Rightarrow> PartitionQueueDAOInfo list \<Rightarrow> bool" where
  "parents_first seen [] = True"
| "parents_first seen (q # qs) \<longleftrightarrow>
     queue_Partition (qinfo q) \<noteq> [] \<and>
     (queue_Parent (qinfo q) = [] \<or> (queue_Partition (qinfo q), queue_Parent (qinfo q)) \<in> set seen) \<and>
     parents_first (dao_key q # seen) qs"

lemma parents_first_split:
  "parents_first seen (pre @ x # post) \<Longrightarrow> queue_Partition (qinfo x) \<noteq> [] \<and>
     (queue_Parent (qinfo x) = [] \<or>
      (queue_Partition (qinfo x), queue_Parent (qinfo x)) \<in> set seen \<union> dao_key ` set pre)"
proof (induction pre arbitrary: seen)
  case Nil
  then show ?case by auto
next
  case (Cons a pre)
  from Cons.prems have "parents_first (dao_key a # seen) (pre @ x # post)" by simp
  from Cons.IH [OF this] show ?case by auto
qed

lemma up_to_date_merge [simp]: "up_to_date q (queue_merge r (new_queue_row i p n q))"
  by (simp add: up_to_date_def queue_merge_def Let_def)

lemma up_to_date_new [simp]: "up_to_date q (new_queue_row i p n q)"
  by (simp add: up_to_date_def queue_merge_def Let_def)

lemma queue_merge_deleted [simp]: "qr_deleted_at (queue_merge r new) = qr_deleted_at r"
  by (simp add: queue_merge_def Let_def)

lemma getQueueID_live:
  assumes "healthy_env env" and "n = [] \<or> live (p, n) (queues_t d)"
  obtains pid d1 where "getQueueID env n p d = (Inr pid, d1)"
proof (cases "n = []")
  case True
  then show thesis by (intro that [of None d]) (simp add: getQueueID_def)
next
  case False
  with assms(2) obtain r0 where "r0 \<in> set (queues_t d)" "alive_queue n p r0"
    by (auto simp: live_def list_ex_iff alive_queue_def queue_key_def)
  then have "find (alive_queue n p) (queues_t d) \<noteq> None"
    by (auto simp: find_None_iff)
  then obtain r where "find (alive_queue n p) (queues_t d) = Some r" by auto
  with False assms(1) show thesis
    by (intro that [of "Some (qr_id r)"]) (auto simp: getQueueID_def)
qed

lemma UpsertQueue_succeeds:
  assumes "healthy_env env" and "queue_inv env d" and "queue_Partition (qinfo q) \<noteq> []"
    and "queue_Parent (qinfo q) = [] \<or> live (queue_Partition (qinfo q), queue_Parent (qinfo q)) (queues_t d)"
  shows "fst (UpsertQueue env q d) = None"
proof -
  let ?p = "queue_Partition (qinfo q)" and ?n = "queue_Parent (qinfo q)"
  obtain pid d1 where g: "getQueueID env ?n ?p d = (Inr pid, d1)"
    using getQueueID_live [OF assms(1,4)] by blast
  then have d1: "queues_t d1 = queues_t d" "uuidCtr d1 = uuidCtr d"
    by (auto elim: getQueueID_cases)
  let ?d2 = "d1\<lparr>uuidCtr := Suc (uuidCtr d)\<rparr>"
  let ?new = "new_queue_row (freshUUID env (uuidCtr d)) pid (unix_now env ?d2) q"
  have "qr_id ?new \<notin> qr_id ` set (queues_t d)"
    using assms(2) fresh_not_drawn [OF healthy_env_inj [OF assms(1)], of d]
    by (auto simp: queue_inv_def)
  then obtain rs' where "insert_on_conflict queue_key qr_id queue_merge ?new (queues_t d) = Inr rs'"
    by (rule queue_tab.upsert_succeeds)
  with g d1 assms(1,3) show ?thesis
    by (simp add: UpsertQueue_def new_uuid_def upsert_queue_stmt_def put_queues_def)
qed

text \<open>What one successful upsert does to the table.\<close>

lemma UpsertQueue_effect:
  assumes "UpsertQueue env q d = (None, d')"
  shows "queue_key ` set (queues_t d') = insert (dao_key q) (queue_key ` set (queues_t d))"
    and "queue_key r \<noteq> dao_key q \<Longrightarrow> r \<in> set (queues_t d') \<longleftrightarrow> r \<in> set (queues_t d)"
    and "dead (dao_key q) (queues_t d') \<longleftrightarrow> dead (dao_key q) (queues_t d)"
    and "\<not> dead (dao_key q) (queues_t d) \<Longrightarrow> stored (queues_t d) q (queues_t d')"
proof -
  obtain new where up: "insert_on_conflict queue_key qr_id queue_merge new (queues_t d) = Inr (queues_t d')"
    and new: "\<exists>i p n. new = new_queue_row i p n q"
    using assms by (cases rule: UpsertQueue_cases) auto
  then have k [simp]: "queue_key new = dao_key q" by auto
  show "queue_key ` set (queues_t d') = insert (dao_key q) (queue_key ` set (queues_t d))"
    using queue_tab.upsert_keys [OF up] by simp
  show "r \<in> set (queues_t d') \<longleftrightarrow> r \<in> set (queues_t d)" if "queue_key r \<noteq> dao_key q"
    using up that by (cases rule: queue_tab.upsert_cases) (auto split: if_splits)
  show "dead (dao_key q) (queues_t d') \<longleftrightarrow> dead (dao_key q) (queues_t d)"
    using up
  proof (cases rule: queue_tab.upsert_cases)
    case update
    have "dead k (map (\<lambda>r. if queue_key r = j then queue_merge r new else r) rs) = dead k rs" for k j rs
      by (induction rs) (auto simp: dead_def)
    with update show ?thesis by simp
  next
    case insert
    with new show ?thesis by (auto simp: dead_def)
  qed
  show "stored (queues_t d) q (queues_t d')" if alive: "\<not> dead (dao_key q) (queues_t d)"
    using up
  proof (cases rule: queue_tab.upsert_cases)
    case update
    then obtain r where "r \<in> set (queues_t d)" "queue_key r = dao_key q" by auto
    with alive update new show ?thesis
      by (intro stored_def [THEN iffD2] bexI [of _ "queue_merge r new"])
         (auto simp: dead_def list_ex_iff)
  next
    case insert
    with new show ?thesis
      by (auto simp: stored_def)
  qed
qed

lemma UpsertQueues_success:
  assumes "healthy_env env" and "queue_inv env d"
    and "parents_first [] xs" and "distinct (map dao_key xs)"
    and "\<And>q. q \<in> set xs \<Longrightarrow> \<not> dead (dao_key q) (queues_t d)"
  shows "\<exists>d'. UpsertQueues env xs d = (None, d') \<and> queue_inv env d' \<and>
    (\<forall>q \<in> set xs. stored (queues_t d) q (queues_t d'))"
proof -
  define Q where "Q pre s \<longleftrightarrow> queue_inv env s \<and> (\<forall>q \<in> set pre. stored (queues_t d) q (queues_t s)) \<and>
      (\<forall>q \<in> set xs. \<not> dead (dao_key q) (queues_t s)) \<and>
      queue_key ` set (queues_t s) = queue_key ` set (queues_t d) \<union> dao_key ` set pre"
    for pre s
  have step: "fst (UpsertQueue env x s) = None \<and> Q (pre @ [x]) (snd (UpsertQueue env x s))"
    if xs: "xs = pre @ x # rest" and q: "Q pre s" for pre x rest s
  proof -
    have pf: "queue_Partition (qinfo x) \<noteq> []" "queue_Parent (qinfo x) = [] \<or>
        (queue_Partition (qinfo x), queue_Parent (qinfo x)) \<in> dao_key ` set pre"
      using parents_first_split [of "[]" pre x rest] assms(3) xs by auto
    have "live (dao_key y) (queues_t s)" if "y \<in> set pre" for y
      using q that by (auto simp: Q_def stored_def live_def list_ex_iff)
    then have "fst (UpsertQueue env x s) = None"
      using q pf assms(1) by (intro UpsertQueue_succeeds) (auto simp: Q_def)
    then obtain s' where u: "UpsertQueue env x s = (None, s')"
      by (metis prod.collapse)
    note eff = UpsertQueue_effect [OF u]
    have new: "dao_key y \<noteq> dao_key x" if "y \<in> set pre" for y
      using assms(4) xs that by (auto simp: image_iff)
    have kx: "dao_key x \<in> queue_key ` set (queues_t s) \<Longrightarrow> dao_key x \<in> queue_key ` set (queues_t d)"
      using q new by (auto simp: Q_def)
    have inv: "queue_inv env s'"
      using UpsertQueue_inv [of env s x] q u assms(1) by (simp add: Q_def)
    have "stored (queues_t s) x (queues_t s')"
      using q xs by (intro eff(4)) (simp add: Q_def)
    then have sx: "stored (queues_t d) x (queues_t s')"
      using kx by (auto simp: stored_def)
    have sp: "stored (queues_t d) y (queues_t s')" if "y \<in> set pre" for y
    proof -
      from q that have "stored (queues_t d) y (queues_t s)" by (simp add: Q_def)
      then show ?thesis using new [OF that] eff(2) by (metis stored_def)
    qed
    have dd: "\<not> dead (dao_key y) (queues_t s')" if "y \<in> set xs" for y
    proof (cases "dao_key y = dao_key x")
      case True
      from q that have "\<not> dead (dao_key y) (queues_t s)" unfolding Q_def by blast
      with True eff(3) show ?thesis by simp
    next
      case False
      moreover have "\<not> dead (dao_key y) (queues_t s)" using q that by (simp add: Q_def)
      ultimately show ?thesis using eff(2) unfolding dead_def list_ex_iff by metis
    qed
    have "queue_key ` set (queues_t s') = queue_key ` set (queues_t d) \<union> dao_key ` set (pre @ [x])"
      using eff(1) q by (auto simp: Q_def)
    with u inv sx sp dd show ?thesis by (auto simp: Q_def)
  qed
  have init: "Q [] d" using assms(2,5) by (simp add: Q_def)
  have "fst (for_each (UpsertQueue env) xs d) = None \<and> Q xs (snd (for_each (UpsertQueue env) xs d))"
    by (rule for_each_success [where Q = Q, OF step init])
  then show ?thesis
    unfolding UpsertQueues_def Q_def by (metis prod.collapse)
qed

text \<open>The invariant survives \<open>UpsertQueues\<close>, whatever fails.\<close>

lemma UpsertQueues_keeps_inv:
  "queue_inv env d \<Longrightarrow> inj (freshUUID env) \<Longrightarrow> queue_inv env (snd (UpsertQueues env qs d))"
  unfolding UpsertQueues_def by (rule for_each_invariant) (auto intro: UpsertQueue_inv)

section \<open>Properties\<close>

text \<open>A database with one live queue and one deleted queue.\<close>

definition demo_queue_db :: db where
  "demo_queue_db = empty_db\<lparr>queues_t :=
     [\<lparr>qr_id = ''0'', qr_parent_id = None, qr_created_at = 0, qr_deleted_at = None,
       qr_info = demo_fields ''default'' ''root'' ''''\<rparr>,
      \<lparr>qr_id = ''1'', qr_parent_id = Some ''0'', qr_created_at = 0, qr_deleted_at = Some 5,
       qr_info = demo_fields ''default'' ''root.old'' ''root''\<rparr>], uuidCtr := 2\<rparr>"

lemma format_nat_small: "format_nat 0 = ''0''" "format_nat (Suc 0) = ''1''"
  by code_simp+

lemma demo_queue_db_inv: "queue_inv demo_env demo_queue_db"
  by (simp add: queue_inv_def demo_queue_db_def empty_db_def table_wf_def named_parents_def queue_key_def
      drawn_def demo_env_def numeral_2_eq_2 lessThan_Suc format_nat_small)

text \<open>
  Whatever fails, \<open>UpsertQueues\<close> leaves a table in which names and identifiers are unique,
  every parent was inserted before its children in the same partition, and a row refers to the
  row that its column \<open>parent\<close> names.
\<close>

theorem UpsertQueues_keeps_table:
  assumes "queue_inv env d" and "inj (freshUUID env)"
  shows "queue_inv env (snd (UpsertQueues env qs d))"
  using UpsertQueues_keeps_inv [OF assms] .

theorem UpsertQueues_keeps_table_witness:
  "queue_inv demo_env demo_queue_db \<and> inj (freshUUID demo_env) \<and>
   queue_inv demo_env (snd (UpsertQueues demo_env [QueueDAO (demo_fields ''default'' ''x'' ''root'') []] demo_queue_db))"
  using UpsertQueues_keeps_table [of demo_env demo_queue_db] demo_queue_db_inv by simp

text \<open>An upsert of a known queue merges its row.\<close>

lemma UpsertQueue_merges:
  assumes "UpsertQueue env q d = (None, d')" and "r \<in> set (queues_t d)" and "queue_key r = dao_key q"
  obtains r' where "r' \<in> set (queues_t d')" "queue_key r' = dao_key q" "qr_id r' = qr_id r"
    "qr_deleted_at r' = qr_deleted_at r" "queue_Status (qr_info r') = queue_Status (qinfo q)"
proof -
  obtain new where up: "insert_on_conflict queue_key qr_id queue_merge new (queues_t d) = Inr (queues_t d')"
    and new: "\<exists>i p n. new = new_queue_row i p n q"
    using assms(1) by (cases rule: UpsertQueue_cases) auto
  then have k: "queue_key new = dao_key q" by auto
  have "dao_key q \<in> queue_key ` set (queues_t d)" using assms(2,3) by (metis imageI)
  with up have "queue_merge r new \<in> set (queues_t d')"
    by (cases rule: queue_tab.upsert_cases) (use assms(2,3) k in auto)
  with new assms(3) show thesis
    by (intro that [of "queue_merge r new"]) (auto simp: queue_merge_def Let_def queue_key_def new_queue_row_def)
qed

lemma filter_key_unique: "distinct (map key xs) \<Longrightarrow> x \<in> set xs \<Longrightarrow> filter (\<lambda>y. key y = key x) xs = [x]"
  by (induction xs) (auto simp: filter_empty_conv image_iff)

lemma dead_unique:
  assumes "table_wf queue_key qr_id rs" and "dead k rs"
  shows "\<not> live k rs"
proof
  assume "live k rs"
  then obtain r where r: "r \<in> set rs" "queue_key r = k" "qr_deleted_at r = None" by (auto simp: live_def list_ex_iff)
  from assms(2) obtain r' where r': "r' \<in> set rs" "queue_key r' = k" "qr_deleted_at r' \<noteq> None"
    by (auto simp: dead_def list_ex_iff)
  have "inj_on queue_key (set rs)" using assms(1) by (simp add: table_wf_def distinct_map)
  then have "r = r'" using r(1,2) r'(1,2) by (simp add: inj_on_def)
  with r(3) r'(3) show False by simp
qed

text \<open>
  C29. On a healthy connection an upsert of a queue whose row is marked deleted (below no parent or a live one) reports
  success, gives the row its new values and leaves it marked: the same row, with the same deletion time, is
  still the one of the queue, and the queue stays unknown to \<open>getQueueID\<close>.
\<close>

theorem UpsertQueues_does_not_revive:
  assumes "healthy_env env" and "queue_inv env d"
    and "r \<in> set (queues_t d)" and "queue_key r = dao_key q" and "qr_deleted_at r = Some t"
    and "queue_QueueName (qinfo q) \<noteq> []" and "queue_Partition (qinfo q) \<noteq> []"
    and "queue_Parent (qinfo q) = [] \<or> live (queue_Partition (qinfo q), queue_Parent (qinfo q)) (queues_t d)"
  shows "\<exists>d' r'. UpsertQueues env [q] d = (None, d') \<and>
    filter (\<lambda>x. queue_key x = dao_key q) (queues_t d') = [r'] \<and> qr_id r' = qr_id r \<and> qr_deleted_at r' = Some t \<and>
    queue_Status (qr_info r') = queue_Status (qinfo q) \<and>
    fst (getQueueID env (queue_QueueName (qinfo q)) (queue_Partition (qinfo q)) d') =
      Inl (Errorf_v ''could not get queueName queue from DB: '' ErrNoRows)"
proof -
  obtain d' where u: "UpsertQueue env q d = (None, d')"
    using UpsertQueue_succeeds [OF assms(1,2,7,8)] by (cases "UpsertQueue env q d") simp
  obtain r' where r': "r' \<in> set (queues_t d')" "queue_key r' = dao_key q" "qr_id r' = qr_id r" "qr_deleted_at r' = Some t"
      "queue_Status (qr_info r') = queue_Status (qinfo q)"
    using UpsertQueue_merges [OF u assms(3,4)] assms(5) by auto
  have inv: "queue_inv env d'" using UpsertQueue_inv [of env d q] assms(1,2) u by simp
  have one: "filter (\<lambda>x. queue_key x = dao_key q) (queues_t d') = [r']"
    using filter_key_unique [of queue_key "queues_t d'" r'] inv r'(1,2) by (simp add: queue_inv_def table_wf_def)
  have "dead (dao_key q) (queues_t d')" using r' by (auto simp: dead_def list_ex_iff)
  then have "\<not> live (dao_key q) (queues_t d')" using dead_unique inv by (auto simp: queue_inv_def)
  then have "find (alive_queue (queue_QueueName (qinfo q)) (queue_Partition (qinfo q))) (queues_t d') = None"
    by (auto simp: find_None_iff live_def list_ex_iff alive_queue_def queue_key_def dao_key_def)
  then have "fst (getQueueID env (queue_QueueName (qinfo q)) (queue_Partition (qinfo q)) d') =
      Inl (Errorf_v ''could not get queueName queue from DB: '' ErrNoRows)"
    using assms(1,6) by (simp add: getQueueID_def)
  with u one r' show ?thesis by (auto simp: UpsertQueues_def)
qed

definition demo_old :: PartitionQueueDAOInfo where
  "demo_old = QueueDAO (demo_fields ''default'' ''root.old'' ''root'') []"

theorem UpsertQueues_does_not_revive_witness:
  "\<exists>d' r'. UpsertQueues demo_env [demo_old] demo_queue_db = (None, d') \<and> r' \<in> set (queues_t d') \<and>
     qr_id r' = ''1'' \<and> qr_deleted_at r' = Some 5 \<and>
     fst (getQueueID demo_env ''root.old'' ''default'' d') =
       Inl (Errorf_v ''could not get queueName queue from DB: '' ErrNoRows)"
proof -
  let ?r = "queues_t demo_queue_db ! 1"
  have r: "?r \<in> set (queues_t demo_queue_db)" "queue_key ?r = dao_key demo_old" "qr_deleted_at ?r = Some 5" "qr_id ?r = ''1''"
    by (simp_all add: demo_queue_db_def demo_old_def dao_key_def queue_key_def)
  have "live (''default'', ''root'') (queues_t demo_queue_db)"
    by (simp add: live_def demo_queue_db_def queue_key_def)
  then have q: "queue_QueueName (qinfo demo_old) \<noteq> []" "queue_Partition (qinfo demo_old) \<noteq> []"
      "queue_Parent (qinfo demo_old) = [] \<or> live (queue_Partition (qinfo demo_old), queue_Parent (qinfo demo_old)) (queues_t demo_queue_db)"
    by (simp_all add: demo_old_def)
  obtain d' r' where d': "UpsertQueues demo_env [demo_old] demo_queue_db = (None, d')"
      "filter (\<lambda>x. queue_key x = dao_key demo_old) (queues_t d') = [r']" "qr_id r' = ''1''" "qr_deleted_at r' = Some 5"
      "fst (getQueueID demo_env ''root.old'' ''default'' d') = Inl (Errorf_v ''could not get queueName queue from DB: '' ErrNoRows)"
    using UpsertQueues_does_not_revive [OF healthy_demo_env demo_queue_db_inv r(1-3) q] r(4) by (auto simp: demo_old_def)
  have "r' \<in> set (filter (\<lambda>x. queue_key x = dao_key demo_old) (queues_t d'))" unfolding d'(2) by simp
  then have "r' \<in> set (queues_t d')" by simp
  with d' show ?thesis by blast
qed

end
