(* ===== verification/Queue_Forest.thy ===== *)
theory Queue_Forest
  imports Repo_Queues
begin

text \<open>
  The readers of table \<open>queues\<close>: \<open>build_forest\<close>, the loop of \<open>GetQueuesPerPartition\<close>
  with \<open>getChildrenFromMap\<close>, ends on every table that satisfies the invariant and puts
  every row into the forest exactly once; on the rows of a tree written by \<open>AddQueues\<close>
  it gives the tree back.
\<close>

declare getChildrenFromMap.simps(2) [simp del]

section \<open>Rows of a forest\<close>

primrec sq_rows :: "StoredQueue \<Rightarrow> QueueRow list" where
  "sq_rows (StoredQueue r cs) = r # concat (map sq_rows cs)"

definition forest_rows :: "StoredQueue list \<Rightarrow> QueueRow list" where
  "forest_rows ts = concat (map sq_rows ts)"

definition kids :: "QueueRow list \<Rightarrow> string \<Rightarrow> QueueRow list" where
  "kids rows i = filter (\<lambda>r. qr_parent_id r = Some i) rows"

definition roots :: "QueueRow list \<Rightarrow> QueueRow list" where
  "roots rows = filter (\<lambda>r. qr_parent_id r = None) rows"

text \<open>A children map that holds, for every identifier, the rows with that parent.\<close>

definition maps_kids :: "QueueRow list \<Rightarrow> children_map \<Rightarrow> bool" where
  "maps_kids rows cm \<longleftrightarrow> (\<forall>i. slice_list (cm i) = kids rows i)"

lemma partition_rows_spec:
  "partition_rows rows qs cm = (qs', cm') \<Longrightarrow>
     qs' = qs @ roots rows \<and> (\<forall>i. slice_list (cm' i) = slice_list (cm i) @ kids rows i)"
proof (induction rows arbitrary: qs cm)
  case Nil
  then show ?case by (simp add: roots_def kids_def)
next
  case (Cons r rows)
  then show ?case
    by (cases "qr_parent_id r") (fastforce simp: roots_def kids_def add_child_def)+
qed

lemma partition_rows_maps_kids:
  assumes "partition_rows rows [] Map.empty = (qs, cm)"
  shows "qs = roots rows" and "maps_kids rows cm"
  using partition_rows_spec [OF assms] by (simp_all add: maps_kids_def)

text \<open>One level of \<open>getChildrenFromMap\<close>.\<close>

definition child_tree :: "nat \<Rightarrow> children_map \<Rightarrow> QueueRow \<Rightarrow> StoredQueue \<Rightarrow> bool" where
  "child_tree n cm = (\<lambda>c t. map_option (StoredQueue c) (getChildrenFromMap n cm (qr_id c)) = Some t)"

lemma child_treeE:
  assumes "child_tree n cm c t"
  obtains sub where "getChildrenFromMap n cm (qr_id c) = Some sub" "t = StoredQueue c sub"
  using assms by (auto simp: child_tree_def)

lemma getChildren_Some_iff:
  assumes "maps_kids rows cm"
  shows "getChildrenFromMap (Suc n) cm i = Some ts \<longleftrightarrow> list_all2 (child_tree n cm) (kids rows i) ts"
  using assms unfolding getChildrenFromMap.simps those_map_Some child_tree_def maps_kids_def by simp

section \<open>The recursion ends\<close>

lemma parents_before_nth:
  assumes "parents_before seen rs" and "i < length rs" and "qr_parent_id (rs ! i) = Some p"
    and "p \<notin> fst ` set seen"
  shows "\<exists>j < i. qr_id (rs ! j) = p"
  using assms
proof (induction rs arbitrary: seen i)
  case Nil
  then show ?case by simp
next
  case (Cons r rs)
  show ?case
  proof (cases i)
    case 0
    with Cons.prems show ?thesis by (auto simp: image_iff)
  next
    case (Suc k)
    show ?thesis
    proof (cases "qr_id r = p")
      case True
      then show ?thesis using Suc by (intro exI [of _ 0]) simp
    next
      case False
      with Suc Cons.prems Cons.IH [of "(qr_id r, queue_Partition (qr_info r)) # seen" k]
      obtain j where "j < k" "qr_id (rs ! j) = p" by auto
      with Suc show ?thesis by (intro exI [of _ "Suc j"]) simp
    qed
  qed
qed

lemma parents_before_filter:
  assumes "parents_before seen rs" and "\<And>i. (i, P) \<in> set seen \<Longrightarrow> (i, P) \<in> set seen'"
  shows "parents_before seen' (filter (\<lambda>r. queue_Partition (qr_info r) = P) rs)"
  using assms
proof (induction rs arbitrary: seen seen')
  case Nil
  then show ?case by simp
next
  case (Cons r rs)
  have "parents_before ((qr_id r, P) # seen') (filter (\<lambda>r. queue_Partition (qr_info r) = P) rs)"
    if "queue_Partition (qr_info r) = P"
    using Cons.prems that by (intro Cons.IH [of "(qr_id r, P) # seen"]) auto
  moreover have "parents_before seen' (filter (\<lambda>r. queue_Partition (qr_info r) = P) rs)"
    if "queue_Partition (qr_info r) \<noteq> P"
    using Cons.prems that by (intro Cons.IH [of "(qr_id r, queue_Partition (qr_info r)) # seen"]) auto
  ultimately show ?case using Cons.prems by (auto split: option.splits)
qed

lemma getChildren_terminates:
  assumes "maps_kids rows cm" and "parents_before [] rows" and "distinct (map qr_id rows)"
    and "k < length rows" and "length rows - k \<le> n"
  shows "getChildrenFromMap n cm (qr_id (rows ! k)) \<noteq> None"
  using assms(4,5)
proof (induction n arbitrary: k)
  case 0
  then show ?case by simp
next
  case (Suc n)
  have "getChildrenFromMap n cm (qr_id c) \<noteq> None" if "c \<in> set (kids rows (qr_id (rows ! k)))" for c
  proof -
    from that obtain i where i: "i < length rows" "c = rows ! i" "qr_parent_id c = Some (qr_id (rows ! k))"
      by (auto simp: kids_def in_set_conv_nth)
    then obtain j where j: "j < i" "qr_id (rows ! j) = qr_id (rows ! k)"
      using parents_before_nth [OF assms(2), of i] by auto
    then have "j = k"
      using assms(3) i(1) Suc.prems(1) nth_eq_iff_index_eq [OF assms(3), of j k] by simp
    then show ?thesis using i j Suc.prems Suc.IH [of i] by simp
  qed
  then have "those (map (\<lambda>c. map_option (StoredQueue c) (getChildrenFromMap n cm (qr_id c)))
      (kids rows (qr_id (rows ! k)))) \<noteq> None"
    unfolding those_map_not_None by simp
  then show ?case using assms(1) by (simp add: maps_kids_def getChildrenFromMap.simps(2))
qed

lemma build_forest_Some_iff:
  assumes "partition_rows rows [] Map.empty = (roots rows, cm)"
  shows "build_forest rows = Some ts \<longleftrightarrow>
    list_all2 (child_tree (Suc (length rows)) cm) (roots rows) ts"
  unfolding build_forest_def assms prod.case those_map_Some child_tree_def ..

lemma build_forest_terminates:
  assumes "parents_before [] rows" and "distinct (map qr_id rows)"
  shows "\<exists>ts. build_forest rows = Some ts"
proof -
  obtain qs cm where p: "partition_rows rows [] Map.empty = (qs, cm)" by fastforce
  note pk = partition_rows_maps_kids [OF p]
  have "getChildrenFromMap (Suc (length rows)) cm (qr_id r) \<noteq> None" if r: "r \<in> set (roots rows)" for r
  proof -
    from r obtain k where k: "k < length rows" "r = rows ! k"
      by (auto simp: roots_def in_set_conv_nth)
    then show ?thesis
      using getChildren_terminates [OF pk(2) assms k(1), of "Suc (length rows)"]
      by simp
  qed
  then have "build_forest rows \<noteq> None"
    unfolding build_forest_def p prod.case pk(1) those_map_not_None
    by simp
  then show ?thesis by auto
qed

section \<open>Every row occurs exactly once\<close>

definition occ :: "QueueRow \<Rightarrow> StoredQueue list \<Rightarrow> nat" where
  "occ x ts = count_list (forest_rows ts) x"

lemma occ_sum: "occ x ts = sum_list (map (\<lambda>t. count_list (sq_rows t) x) ts)"
  by (simp add: occ_def forest_rows_def count_list_concat_map)

lemma count_child_tree:
  "count_list (sq_rows (StoredQueue c sub)) x = (if c = x then 1 else 0) + occ x sub"
  by (simp add: occ_def forest_rows_def)

lemma sum_list_indicator: "sum_list (map (\<lambda>c. if c = x then 1 else 0) cs) = count_list cs x"
  by (induction cs) simp_all

text \<open>
  The rows below an identifier: a row \<open>x\<close> with parent \<open>P\<close> occurs there as often as \<open>P\<close>
  does, and once more directly below \<open>P\<close>; a top-level row does not occur.
\<close>

lemma occ_level:
  assumes "list_all2 (child_tree n cm) cs ts"
    and "\<And>c sub. c \<in> set cs \<Longrightarrow> getChildrenFromMap n cm (qr_id c) = Some sub \<Longrightarrow>
      occ x sub = occ P sub + (if c = P then 1 else 0)"
  shows "occ x ts = count_list cs x + occ P ts"
proof -
  have "list_all2 (\<lambda>c t. c \<in> set cs \<and> child_tree n cm c t) cs ts"
    using assms(1) by (auto simp: list_all2_conv_all_nth)
  then have "sum_list (map (\<lambda>t. count_list (sq_rows t) x) ts)
      = sum_list (map (\<lambda>c. if c = x then 1 else 0) cs) + sum_list (map (\<lambda>t. count_list (sq_rows t) P) ts)"
  proof (rule sum_list_all2)
    fix c t
    assume ct: "c \<in> set cs \<and> child_tree n cm c t"
    then obtain sub where "getChildrenFromMap n cm (qr_id c) = Some sub" "t = StoredQueue c sub"
      by (auto elim: child_treeE)
    with ct assms(2) [of c sub] show "count_list (sq_rows t) x
        = (if c = x then 1 else 0) + count_list (sq_rows t) P"
      by (simp add: count_child_tree del: sq_rows.simps)
  qed
  then show ?thesis by (simp add: occ_sum sum_list_indicator)
qed

lemma occ_level_zero:
  assumes "list_all2 (child_tree n cm) cs ts"
    and "\<And>c sub. c \<in> set cs \<Longrightarrow> getChildrenFromMap n cm (qr_id c) = Some sub \<Longrightarrow> occ x sub = 0"
  shows "occ x ts = count_list cs x"
proof -
  have "list_all2 (\<lambda>c t. c \<in> set cs \<and> child_tree n cm c t) cs ts"
    using assms(1) by (auto simp: list_all2_conv_all_nth)
  then have "sum_list (map (\<lambda>t. count_list (sq_rows t) x) ts)
      = sum_list (map (\<lambda>c. if c = x then 1 else 0) cs) + sum_list (map (\<lambda>t. 0) ts)"
  proof (rule sum_list_all2)
    fix c t
    assume ct: "c \<in> set cs \<and> child_tree n cm c t"
    then obtain sub where "getChildrenFromMap n cm (qr_id c) = Some sub" "t = StoredQueue c sub"
      by (auto elim: child_treeE)
    with ct assms(2) [of c sub] show "count_list (sq_rows t) x = (if c = x then 1 else 0) + 0"
      by (simp add: count_child_tree del: sq_rows.simps)
  qed
  then show ?thesis by (simp add: occ_sum sum_list_indicator)
qed

lemma occ_getChildren_zero:
  assumes "maps_kids rows cm" and "qr_parent_id x = None \<or> x \<notin> set rows"
  shows "getChildrenFromMap n cm i = Some ts \<Longrightarrow> occ x ts = 0"
proof (induction n arbitrary: i ts)
  case 0
  then show ?case by simp
next
  case (Suc n)
  then have "occ x ts = count_list (kids rows i) x"
    using getChildren_Some_iff [OF assms(1)] by (intro occ_level_zero) auto
  moreover have "x \<notin> set (kids rows i)" using assms(2) by (auto simp: kids_def)
  ultimately show ?case by (simp add: count_list_0_iff)
qed

lemma count_kids:
  "distinct rows \<Longrightarrow> x \<in> set rows \<Longrightarrow>
     count_list (kids rows i) x = (if qr_parent_id x = Some i then 1 else 0)"
  by (induction rows) (auto simp: kids_def count_list_0_iff)

lemma occ_getChildren:
  assumes "maps_kids rows cm" and "distinct (map qr_id rows)"
    and "x \<in> set rows" and "P \<in> set rows" and "qr_parent_id x = Some (qr_id P)"
  shows "getChildrenFromMap n cm i = Some ts \<Longrightarrow> occ x ts = occ P ts + (if i = qr_id P then 1 else 0)"
proof (induction n arbitrary: i ts)
  case 0
  then show ?case by simp
next
  case (Suc n)
  have eq: "qr_id c = qr_id P \<longleftrightarrow> c = P" if "c \<in> set (kids rows i)" for c
    using assms(2,4) that by (auto simp: kids_def distinct_map inj_on_def)
  have "occ x ts = count_list (kids rows i) x + occ P ts"
    using Suc.prems getChildren_Some_iff [OF assms(1)] Suc.IH eq by (intro occ_level) auto
  moreover have "distinct rows" using assms(2) by (simp add: distinct_map)
  ultimately show ?case using assms(3,5) by (auto simp: count_kids)
qed

lemma build_forest_occ:
  assumes "parents_before [] rows" and "distinct (map qr_id rows)" and "build_forest rows = Some ts"
    and "k < length rows"
  shows "occ (rows ! k) ts = 1"
  using assms(4)
proof (induction k rule: less_induct)
  case (less k)
  obtain qs cm where p: "partition_rows rows [] Map.empty = (qs, cm)" by fastforce
  note pk = partition_rows_maps_kids [OF p]
  let ?x = "rows ! k"
  have x: "?x \<in> set rows" using less.prems by simp
  have d: "distinct rows" using assms(2) by (simp add: distinct_map)
  have lvl: "list_all2 (child_tree (Suc (length rows)) cm) (roots rows) ts"
    using build_forest_Some_iff p pk(1) assms(3) by blast
  show ?case
  proof (cases "qr_parent_id ?x")
    case None
    have "occ ?x ts = count_list (roots rows) ?x"
      using lvl occ_getChildren_zero [OF pk(2)] None by (intro occ_level_zero) auto
    moreover have "count_list (roots rows) ?x = 1"
      using x d None by (simp add: roots_def distinct_count_list)
    ultimately show ?thesis by simp
  next
    case (Some i)
    then obtain j where j: "j < k" "qr_id (rows ! j) = i"
      using parents_before_nth [OF assms(1) less.prems] by auto
    let ?P = "rows ! j"
    have P: "?P \<in> set rows" using j less.prems by simp
    have eq: "c = ?P \<longleftrightarrow> qr_id c = qr_id ?P" if "c \<in> set (roots rows)" for c
      using assms(2) that P by (auto simp: roots_def distinct_map inj_on_def)
    have "occ ?x ts = count_list (roots rows) ?x + occ ?P ts"
      using lvl occ_getChildren [OF pk(2) assms(2) x P] Some j eq by (intro occ_level) auto
    moreover have "count_list (roots rows) ?x = 0"
      using Some by (auto simp: roots_def count_list_0_iff)
    ultimately show ?thesis using less.IH [of j] j less.prems by simp
  qed
qed

lemma build_forest_rows:
  assumes "parents_before [] rows" and "distinct (map qr_id rows)" and "build_forest rows = Some ts"
  shows "mset (forest_rows ts) = mset rows"
proof (rule multiset_eqI)
  fix x
  obtain qs cm where p: "partition_rows rows [] Map.empty = (qs, cm)" by fastforce
  note pk = partition_rows_maps_kids [OF p]
  have d: "distinct rows" using assms(2) by (simp add: distinct_map)
  show "count (mset (forest_rows ts)) x = count (mset rows) x"
  proof (cases "x \<in> set rows")
    case True
    then show ?thesis
      using build_forest_occ [OF assms] d
      by (auto simp: in_set_conv_nth occ_def count_mset distinct_count_list)
  next
    case False
    have "occ x ts = count_list (roots rows) x"
      using build_forest_Some_iff p pk(1) assms(3) occ_getChildren_zero [OF pk(2)] False
      by (intro occ_level_zero) auto
    with False show ?thesis by (auto simp: occ_def count_mset roots_def count_list_0_iff)
  qed
qed

section \<open>Reading back a linked forest\<close>

primrec linked_tree :: "string option \<Rightarrow> StoredQueue \<Rightarrow> bool" where
  "linked_tree pid (StoredQueue r cs) \<longleftrightarrow>
     qr_parent_id r = pid \<and> list_all (linked_tree (Some (qr_id r))) cs"

primrec subtrees :: "StoredQueue \<Rightarrow> StoredQueue list" where
  "subtrees (StoredQueue r cs) = StoredQueue r cs # concat (map subtrees cs)"

definition tree_ids :: "StoredQueue \<Rightarrow> string list" where
  "tree_ids t = map qr_id (sq_rows t)"

lemma sq_rows_root: "sq_rows t = sqRow t # forest_rows (sqChildren t)"
  by (cases t) (simp add: forest_rows_def)

lemma tree_ids_simps [simp]: "tree_ids (StoredQueue r cs) = qr_id r # concat (map tree_ids cs)"
  by (simp add: tree_ids_def [abs_def] map_concat comp_def)

lemma tree_ids_root: "tree_ids t = qr_id (sqRow t) # concat (map tree_ids (sqChildren t))"
  by (cases t) simp

lemma kids_append: "kids (xs @ ys) i = kids xs i @ kids ys i"
  by (simp add: kids_def)

lemma kids_concat: "kids (concat (map f ts)) i = concat (map (\<lambda>t. kids (f t) i) ts)"
  by (induction ts) (simp_all add: kids_append, simp add: kids_def)

lemma kids_foreign:
  "linked_tree pid t \<Longrightarrow> i \<notin> set (tree_ids t) \<Longrightarrow> pid \<noteq> Some i \<Longrightarrow> kids (sq_rows t) i = []"
proof (induction t arbitrary: pid)
  case (StoredQueue r cs)
  have "kids (sq_rows c) i = []" if "c \<in> set cs" for c
    using StoredQueue.IH [OF that, of "Some (qr_id r)"] StoredQueue.prems that
    by (auto simp: list_all_iff)
  then have "kids (concat (map sq_rows cs)) i = []" by (simp add: kids_concat)
  with StoredQueue.prems show ?case by (simp add: kids_def)
qed

lemma kids_of_root:
  assumes "linked_tree pid t" and "distinct (tree_ids t)" and "pid \<noteq> Some (qr_id (sqRow t))"
  shows "kids (sq_rows t) (qr_id (sqRow t)) = map sqRow (sqChildren t)"
proof -
  let ?i = "qr_id (sqRow t)"
  have child: "kids (sq_rows c) ?i = [sqRow c]" if c: "c \<in> set (sqChildren t)" for c
  proof -
    have l: "linked_tree (Some ?i) c"
      using assms(1) c by (cases t) (auto simp: list_all_iff)
    have n: "?i \<notin> set (tree_ids c)"
      using assms(2) c by (auto simp: tree_ids_root [of t])
    have "kids (sq_rows c') ?i = []" if "c' \<in> set (sqChildren c)" for c'
    proof (rule kids_foreign)
      show "linked_tree (Some (qr_id (sqRow c))) c'"
        using l that by (cases c) (auto simp: list_all_iff)
      show "?i \<notin> set (tree_ids c')" and "Some (qr_id (sqRow c)) \<noteq> Some ?i"
        using n that by (auto simp: tree_ids_root [of c])
    qed
    then have "kids (forest_rows (sqChildren c)) ?i = []"
      by (simp add: forest_rows_def kids_concat)
    moreover have "qr_parent_id (sqRow c) = Some ?i" using l by (cases c) simp
    ultimately show ?thesis by (simp add: sq_rows_root [of c] kids_def)
  qed
  have "kids (forest_rows (sqChildren t)) ?i = concat (map (\<lambda>c. [sqRow c]) (sqChildren t))"
    using child by (simp add: forest_rows_def kids_concat cong: map_cong)
  moreover have "qr_parent_id (sqRow t) \<noteq> Some ?i" using assms(1,3) by (cases t) simp
  ultimately show ?thesis by (simp add: sq_rows_root [of t] kids_def)
qed

lemma subtrees_ids: "s \<in> set (subtrees t) \<Longrightarrow> qr_id (sqRow s) \<in> set (tree_ids t)"
  by (induction t) fastforce

lemma concat_map_single:
  assumes "\<And>x. x \<in> set l \<union> set r \<Longrightarrow> f x = []"
  shows "concat (map f (l @ c # r)) = f c"
proof -
  have l: "concat (map f l) = []" and r: "concat (map f r) = []" using assms by simp_all
  show ?thesis unfolding map_append list.map concat_append concat.simps l r by simp
qed

lemma kids_of_subtree:
  "linked_tree pid t \<Longrightarrow> distinct (tree_ids t) \<Longrightarrow> s \<in> set (subtrees t) \<Longrightarrow>
     (\<And>i. pid = Some i \<Longrightarrow> i \<notin> set (tree_ids t)) \<Longrightarrow>
     kids (sq_rows t) (qr_id (sqRow s)) = map sqRow (sqChildren s)"
proof (induction t arbitrary: pid)
  case (StoredQueue r cs)
  let ?t = "StoredQueue r cs" and ?i = "qr_id (sqRow s)"
  show ?case
  proof (cases "s = ?t")
    case True
    then show ?thesis
      using kids_of_root [OF StoredQueue.prems(1,2)] StoredQueue.prems(4) by fastforce
  next
    case False
    then obtain c where c: "c \<in> set cs" "s \<in> set (subtrees c)"
      using StoredQueue.prems(3) by auto
    have i: "?i \<in> set (tree_ids c)" by (rule subtrees_ids [OF c(2)])
    have dist: "distinct (concat (map tree_ids cs))" "qr_id r \<notin> set (concat (map tree_ids cs))"
      using StoredQueue.prems(2) by simp_all
    obtain l rr where cs: "cs = l @ c # rr" using c(1) by (meson split_list)
    have other: "kids (sq_rows c') ?i = []" if "c' \<in> set l \<union> set rr" for c'
    proof (rule kids_foreign)
      show "linked_tree (Some (qr_id r)) c'"
        using StoredQueue.prems(1) that cs by (auto simp: list_all_iff)
      show "?i \<notin> set (tree_ids c')" using dist(1) i that cs by auto
      show "Some (qr_id r) \<noteq> Some ?i" using dist(2) i cs by auto
    qed
    have "kids (concat (map sq_rows cs)) ?i = kids (sq_rows c) ?i"
      unfolding kids_concat cs by (rule concat_map_single) (rule other)
    also have "\<dots> = map sqRow (sqChildren s)"
    proof (rule StoredQueue.IH [OF c(1) _ _ c(2)])
      show "linked_tree (Some (qr_id r)) c"
        using StoredQueue.prems(1) c(1) by (auto simp: list_all_iff)
      show "distinct (tree_ids c)" using dist(1) cs by auto
      show "i \<notin> set (tree_ids c)" if "Some (qr_id r) = Some i" for i
        using dist(2) that cs by auto
    qed
    finally have "kids (concat (map sq_rows cs)) ?i = map sqRow (sqChildren s)" .
    moreover have "qr_parent_id r \<noteq> Some ?i"
      using StoredQueue.prems(1,4) i c(1) by fastforce
    ultimately show ?thesis by (simp add: kids_def)
  qed
qed

lemma kids_of_forest:
  assumes "list_all (linked_tree None) ts" and "distinct (concat (map tree_ids ts))"
    and "t \<in> set ts" and "s \<in> set (subtrees t)"
  shows "kids (forest_rows ts) (qr_id (sqRow s)) = map sqRow (sqChildren s)"
proof -
  obtain l rr where ts: "ts = l @ t # rr" using assms(3) by (meson split_list)
  have i: "qr_id (sqRow s) \<in> set (tree_ids t)" by (rule subtrees_ids [OF assms(4)])
  have other: "kids (sq_rows c') (qr_id (sqRow s)) = []" if "c' \<in> set l \<union> set rr" for c'
  proof (rule kids_foreign)
    show "linked_tree None c'" using assms(1) ts that by (auto simp: list_all_iff)
    show "qr_id (sqRow s) \<notin> set (tree_ids c')" using assms(2) i that ts by auto
    show "None \<noteq> Some (qr_id (sqRow s))" by simp
  qed
  have "kids (forest_rows ts) (qr_id (sqRow s)) = kids (sq_rows t) (qr_id (sqRow s))"
    unfolding forest_rows_def kids_concat ts by (rule concat_map_single) (rule other)
  also have "\<dots> = map sqRow (sqChildren s)"
    using assms ts by (intro kids_of_subtree [of None]) (auto simp: list_all_iff)
  finally show ?thesis .
qed

lemma subtrees_child: "s \<in> set (subtrees t) \<Longrightarrow> c \<in> set (sqChildren s) \<Longrightarrow> c \<in> set (subtrees t)"
proof (induction t)
  case (StoredQueue r cs)
  have self: "x \<in> set (subtrees x)" for x by (cases x) simp
  show ?case
  proof (cases "s = StoredQueue r cs")
    case True
    with StoredQueue.prems self show ?thesis by auto
  next
    case False
    with StoredQueue show ?thesis by auto
  qed
qed

lemma getChildren_of_forest:
  assumes "list_all (linked_tree None) ts" and "distinct (concat (map tree_ids ts))"
    and "maps_kids (forest_rows ts) cm" and "t \<in> set ts"
  shows "s \<in> set (subtrees t) \<Longrightarrow> stored_count s \<le> n \<Longrightarrow>
    getChildrenFromMap n cm (qr_id (sqRow s)) = Some (sqChildren s)"
proof (induction n arbitrary: s)
  case 0
  then show ?case by (simp add: stored_count_children [of s])
next
  case (Suc n)
  have "child_tree n cm (sqRow c) c" if c: "c \<in> set (sqChildren s)" for c
  proof -
    have "stored_count c \<le> sum_list (map stored_count (sqChildren s))"
      using c member_le_sum_list [of "stored_count c" "map stored_count (sqChildren s)"] by simp
    also have "\<dots> \<le> n" using Suc.prems(2) by (simp add: stored_count_children [of s])
    finally have "getChildrenFromMap n cm (qr_id (sqRow c)) = Some (sqChildren c)"
      by (rule Suc.IH [OF subtrees_child [OF Suc.prems(1) c]])
    then show ?thesis by (simp add: child_tree_def)
  qed
  then have "list_all2 (child_tree n cm) (map sqRow (sqChildren s)) (sqChildren s)"
    by (simp add: list_all2_conv_all_nth)
  with kids_of_forest [OF assms(1,2,4) Suc.prems(1)] show ?case
    by (simp add: getChildren_Some_iff [OF assms(3)])
qed

lemma roots_concat: "roots (concat (map f ts)) = concat (map (\<lambda>t. roots (f t)) ts)"
  by (induction ts) (simp_all add: roots_def)

lemma roots_below: "linked_tree (Some i) t \<Longrightarrow> roots (sq_rows t) = []"
proof (induction t arbitrary: i)
  case (StoredQueue r cs)
  then have "roots (sq_rows c) = []" if "c \<in> set cs" for c
    using that by (auto simp: list_all_iff)
  then have "roots (concat (map sq_rows cs)) = []" by (simp add: roots_concat)
  with StoredQueue.prems show ?case by (simp add: roots_def)
qed

lemma roots_of_tree: "linked_tree None t \<Longrightarrow> roots (sq_rows t) = [sqRow t]"
proof (cases t)
  case (StoredQueue r cs)
  assume "linked_tree None t"
  with StoredQueue have "qr_parent_id r = None" "\<And>c. c \<in> set cs \<Longrightarrow> roots (sq_rows c) = []"
    by (auto simp: list_all_iff roots_below)
  moreover then have "roots (concat (map sq_rows cs)) = []" by (simp add: roots_concat)
  ultimately show ?thesis using StoredQueue by (simp add: roots_def)
qed

lemma length_sq_rows: "length (sq_rows t) = stored_count t"
  by (induction t) (simp add: length_concat comp_def cong: map_cong)

lemma build_forest_linked:
  assumes "list_all (linked_tree None) ts" and "distinct (concat (map tree_ids ts))"
  shows "build_forest (forest_rows ts) = Some ts"
proof -
  obtain qs cm where p: "partition_rows (forest_rows ts) [] Map.empty = (qs, cm)" by fastforce
  note pk = partition_rows_maps_kids [OF p]
  have r: "roots (forest_rows ts) = map sqRow ts"
    using assms(1) by (simp add: forest_rows_def roots_concat roots_of_tree list_all_iff cong: map_cong)
  have "child_tree (Suc (length (forest_rows ts))) cm (sqRow t) t" if t: "t \<in> set ts" for t
  proof -
    have "stored_count t \<le> length (forest_rows ts)"
      using t by (simp add: forest_rows_def length_concat comp_def length_sq_rows member_le_sum_list)
    moreover have "t \<in> set (subtrees t)" by (cases t) simp
    ultimately have "getChildrenFromMap (Suc (length (forest_rows ts))) cm (qr_id (sqRow t)) = Some (sqChildren t)"
      by (intro getChildren_of_forest [OF assms pk(2) t]) auto
    then show ?thesis by (simp add: child_tree_def)
  qed
  then have "list_all2 (child_tree (Suc (length (forest_rows ts))) cm) (map sqRow ts) ts"
    by (simp add: list_all2_conv_all_nth)
  then show ?thesis using build_forest_Some_iff p pk(1) r by metis
qed

section \<open>Writing a forest with AddQueues\<close>

text \<open>A stored tree as the REST API gave it, and a tree whose queues all have partition \<open>p\<close>.\<close>

primrec erase :: "StoredQueue \<Rightarrow> PartitionQueueDAOInfo" where
  "erase (StoredQueue r cs) = QueueDAO (qr_info r) (map erase cs)"

primrec propagate :: "string \<Rightarrow> PartitionQueueDAOInfo \<Rightarrow> PartitionQueueDAOInfo" where
  "propagate p (QueueDAO i cs) = QueueDAO (i\<lparr>queue_Partition := p\<rparr>) (map (propagate p) cs)"

primrec queue_names :: "PartitionQueueDAOInfo \<Rightarrow> string list" where
  "queue_names (QueueDAO i cs) = queue_QueueName i # concat (map queue_names cs)"

lemma queue_names_root: "queue_names q = queue_QueueName (qinfo q) # concat (map queue_names (qChildren q))"
  by (cases q) simp

lemma queue_names_set_partition [simp]: "queue_names (set_partition p q) = queue_names q"
  by (cases q) (simp add: set_partition_def)

lemma propagate_set_partition [simp]: "propagate p (set_partition p' q) = propagate p q"
  by (cases q) (simp add: set_partition_def)

lemma propagate_root:
  "queue_Partition (qinfo q) = p \<Longrightarrow> propagate p q = QueueDAO (qinfo q) (map (propagate p) (qChildren q))"
  by (cases q) simp

lemma keys_of_erase:
  "erase t = propagate p q \<Longrightarrow> map queue_key (sq_rows t) = map (Pair p) (queue_names q)"
proof (induction t arbitrary: q)
  case (StoredQueue r ts)
  obtain i cs where q: "q = QueueDAO i cs" by (cases q)
  have eq: "map erase ts = map (propagate p) cs" and r: "qr_info r = i\<lparr>queue_Partition := p\<rparr>"
    using StoredQueue.prems q by auto
  have len: "length ts = length cs" using eq by (metis length_map)
  have "map (\<lambda>t. map queue_key (sq_rows t)) ts = map (\<lambda>c. map (Pair p) (queue_names c)) cs"
  proof (rule nth_equalityI)
    show "length (map (\<lambda>t. map queue_key (sq_rows t)) ts) = length (map (\<lambda>c. map (Pair p) (queue_names c)) cs)"
      using len by simp
    fix k assume "k < length (map (\<lambda>t. map queue_key (sq_rows t)) ts)"
    then have k: "k < length ts" by simp
    have "erase (ts ! k) = propagate p (cs ! k)"
      using eq k len by (metis nth_map)
    with StoredQueue.IH [of "ts ! k" "cs ! k"] k len
    show "map (\<lambda>t. map queue_key (sq_rows t)) ts ! k = map (\<lambda>c. map (Pair p) (queue_names c)) cs ! k"
      by simp
  qed
  moreover have "queue_key r = (p, queue_QueueName i)" using r by (simp add: queue_key_def)
  ultimately show ?case using q by (simp add: map_concat comp_def)
qed

lemma keys_of_erase_forest:
  "map erase ts = map (propagate p) cs \<Longrightarrow>
     map queue_key (forest_rows ts) = map (Pair p) (concat (map queue_names cs))"
proof (induction ts arbitrary: cs)
  case Nil
  then show ?case by (simp add: forest_rows_def)
next
  case (Cons t ts)
  then obtain c cs' where "cs = c # cs'" by (cases cs) auto
  with Cons show ?case using keys_of_erase [of t p c] by (simp add: forest_rows_def)
qed

lemma forest_ids: "concat (map tree_ids ts) = map qr_id (forest_rows ts)"
  by (simp add: forest_rows_def tree_ids_def [abs_def] map_concat comp_def)

text \<open>The rows that \<open>AddQueues\<close> appends: a forest with fresh identifiers.\<close>

definition appends :: "pgenv \<Rightarrow> string option \<Rightarrow> db \<Rightarrow> db \<Rightarrow> StoredQueue list \<Rightarrow> bool" where
  "appends env pid d d' ts \<longleftrightarrow>
     queues_t d' = queues_t d @ forest_rows ts \<and> list_all (linked_tree pid) ts \<and>
     drawn env d \<subseteq> drawn env d' \<and> distinct (concat (map tree_ids ts)) \<and>
     set (concat (map tree_ids ts)) \<subseteq> drawn env d' - drawn env d"

lemma appends_Nil: "appends env pid d d []"
  by (simp add: appends_def forest_rows_def)

lemma appends_Cons:
  assumes "queues_t d1 = queues_t d @ [r]" and "uuidCtr d1 = Suc (uuidCtr d)"
    and "qr_id r = freshUUID env (uuidCtr d)" and "qr_parent_id r = pid" and "inj (freshUUID env)"
    and "appends env (Some (qr_id r)) d1 d2 cs" and "appends env pid d2 d3 ts"
  shows "appends env pid d d3 (StoredQueue r cs # ts)"
proof -
  note d1 = drawn_Suc [OF assms(2), of env]
  have new: "qr_id r \<notin> drawn env d" "qr_id r \<in> drawn env d1" "drawn env d \<subseteq> drawn env d1"
    using fresh_not_drawn [OF assms(5), of d] assms(3) d1 by auto
  let ?cids = "concat (map tree_ids cs)" and ?tids = "concat (map tree_ids ts)"
  have c: "queues_t d2 = queues_t d1 @ forest_rows cs" "list_all (linked_tree (Some (qr_id r))) cs"
    "drawn env d1 \<subseteq> drawn env d2" "distinct ?cids" "set ?cids \<subseteq> drawn env d2 - drawn env d1"
    using assms(6) by (simp_all add: appends_def)
  have t: "queues_t d3 = queues_t d2 @ forest_rows ts" "list_all (linked_tree pid) ts"
    "drawn env d2 \<subseteq> drawn env d3" "distinct ?tids" "set ?tids \<subseteq> drawn env d3 - drawn env d2"
    using assms(7) by (simp_all add: appends_def)
  have ids: "concat (map tree_ids (StoredQueue r cs # ts)) = qr_id r # ?cids @ ?tids" by simp
  have "queues_t d3 = queues_t d @ forest_rows (StoredQueue r cs # ts)"
    using c(1) t(1) assms(1) by (simp add: forest_rows_def)
  moreover have "list_all (linked_tree pid) (StoredQueue r cs # ts)"
    using c(2) t(2) assms(4) by simp
  moreover have "distinct (qr_id r # ?cids @ ?tids)"
    using c(3-5) t(3-5) new unfolding distinct.simps distinct_append set_append by blast
  moreover have "set (qr_id r # ?cids @ ?tids) \<subseteq> drawn env d3 - drawn env d"
    using c(3-5) t(3-5) new unfolding list.set set_append by blast
  ultimately show ?thesis
    using new(3) c(3) t(3) unfolding appends_def ids by blast
qed

lemma AddQueues_appends:
  assumes "healthy_env env" and "P \<noteq> []"
  shows "qr_id ` set (queues_t d) \<subseteq> drawn env d \<Longrightarrow>
    list_all (\<lambda>q. queue_Partition (qinfo q) = P) qs \<Longrightarrow>
    pid \<noteq> None \<or> list_all (\<lambda>q. queue_Parent (qinfo q) = []) qs \<Longrightarrow>
    distinct (concat (map queue_names qs)) \<Longrightarrow>
    (Pair P ` set (concat (map queue_names qs))) \<inter> queue_key ` set (queues_t d) = {} \<Longrightarrow>
    \<exists>d' ts. AddQueues env pid qs d = (None, d') \<and> appends env pid d d' ts \<and>
      map erase ts = map (propagate P) qs"
proof (induction "sum_list (map queue_count qs)" arbitrary: pid qs d rule: less_induct)
  case less
  note prems = less.prems
  show ?case
  proof (cases qs)
    case Nil
    then show ?thesis using appends_Nil by fastforce
  next
    case (Cons q rest)
    have P: "queue_Partition (qinfo q) = P" using prems(2) Cons by simp
    have pid: "(case pid of None \<Rightarrow> getQueueID env (queue_Parent (qinfo q)) (queue_Partition (qinfo q)) d
        | Some p \<Rightarrow> (Inr (Some p), d)) = (Inr pid, d)"
      using prems(3) Cons by (cases pid) (auto simp: getQueueID_def)
    let ?u = "freshUUID env (uuidCtr d)"
    let ?d1 = "d\<lparr>uuidCtr := Suc (uuidCtr d)\<rparr>"
    let ?r = "new_queue_row ?u pid (unix_now env ?d1) q"
    let ?d2 = "?d1\<lparr>stmtCtr := Suc (stmtCtr d), queues_t := queues_t d @ [?r]\<rparr>"
    let ?cs = "map (set_partition P) (qChildren q)"
    have "?u \<notin> qr_id ` set (queues_t d)"
      using prems(1) fresh_not_drawn [OF healthy_env_inj [OF assms(1)], of d] by auto
    moreover have "(P, queue_QueueName (qinfo q)) \<notin> queue_key ` set (queues_t d)"
      using prems(5) Cons by (auto simp: queue_names_root [of q])
    ultimately have row: "AddQueue_row env pid q d = (Inr ?u, ?d2)"
      using assms P by (simp add: AddQueue_row_def new_uuid_def insert_queue_stmt_def put_queues_def
          insert_row_def list_ex_key dao_key_def)
    have ids2: "qr_id ` set (queues_t ?d2) \<subseteq> drawn env ?d2"
      using prems(1) drawn_Suc [of ?d2 d env] by auto
    have k2: "queue_key ` set (queues_t ?d2) = insert (P, queue_QueueName (qinfo q)) (queue_key ` set (queues_t d))"
      using P by (simp add: dao_key_def)
    have nq: "set (queue_names q) = insert (queue_QueueName (qinfo q)) (set (concat (map queue_names (qChildren q))))"
      by (simp add: queue_names_root [of q])
    have dist: "distinct (concat (map queue_names (qChildren q)))"
      "queue_QueueName (qinfo q) \<notin> set (concat (map queue_names (qChildren q)))"
      "distinct (concat (map queue_names rest))"
      "set (queue_names q) \<inter> set (concat (map queue_names rest)) = {}"
      using prems(4) Cons by (auto simp: queue_names_root [of q])
    let ?N = "set (concat (map queue_names (qChildren q)))" and ?R = "set (concat (map queue_names rest))"
    let ?K = "queue_key ` set (queues_t d)"
    have cn: "set (concat (map queue_names ?cs)) = ?N" by (simp add: comp_def)
    have "set (concat (map queue_names qs)) = insert (queue_QueueName (qinfo q)) ?N \<union> ?R"
      using Cons nq by simp
    then have keys: "Pair P ` (insert (queue_QueueName (qinfo q)) ?N \<union> ?R) \<inter> ?K = {}"
      using prems(5) by metis
    have "\<exists>d3 ts. AddQueues env (Some ?u) ?cs ?d2 = (None, d3) \<and> appends env (Some ?u) ?d2 d3 ts \<and>
        map erase ts = map (propagate P) ?cs"
    proof (rule less.hyps)
      show "sum_list (map queue_count ?cs) < sum_list (map queue_count qs)"
        using Cons by (simp add: queue_count_children [of q])
      show "(Pair P ` set (concat (map queue_names ?cs))) \<inter> queue_key ` set (queues_t ?d2) = {}"
        unfolding k2 cn using keys dist(2) by blast
    qed (use ids2 dist(1) in \<open>simp_all add: comp_def list_all_iff\<close>)
    then obtain d3 ts where c: "AddQueues env (Some ?u) ?cs ?d2 = (None, d3)"
        "appends env (Some ?u) ?d2 d3 ts" "map erase ts = map (propagate P) (qChildren q)"
      by (auto simp: comp_def)
    have d3: "queues_t d3 = queues_t ?d2 @ forest_rows ts" "drawn env ?d2 \<subseteq> drawn env d3"
      "qr_id ` set (forest_rows ts) \<subseteq> drawn env d3"
      using c(2) forest_ids [of ts] by (auto simp: appends_def)
    have "queue_key ` set (forest_rows ts) = Pair P ` ?N"
      using keys_of_erase_forest [OF c(3)] by (metis set_map)
    then have k3: "queue_key ` set (queues_t d3) = insert (P, queue_QueueName (qinfo q)) ?K \<union> Pair P ` ?N"
      unfolding d3(1) set_append image_Un k2 by blast
    have ids3: "qr_id ` set (queues_t d3) \<subseteq> drawn env d3"
      unfolding d3(1) set_append image_Un using ids2 d3(2,3) by blast
    have "\<exists>d4 us. AddQueues env pid rest d3 = (None, d4) \<and> appends env pid d3 d4 us \<and>
        map erase us = map (propagate P) rest"
    proof (rule less.hyps)
      show "sum_list (map queue_count rest) < sum_list (map queue_count qs)"
        using Cons by simp
      show "Pair P ` ?R \<inter> queue_key ` set (queues_t d3) = {}"
        unfolding k3 using keys dist(4) nq by blast
    qed (use prems(2,3) Cons ids3 dist(3) in \<open>auto\<close>)
    then obtain d4 us where rest: "AddQueues env pid rest d3 = (None, d4)" "appends env pid d3 d4 us"
        "map erase us = map (propagate P) rest"
      by blast
    have "AddQueues env pid qs d = (None, d4)"
    proof (cases "qChildren q = []")
      case True
      with c(1) have "d3 = ?d2" by simp
      with True show ?thesis
        using Cons P pid row rest(1) assms(2) by (simp add: AddQueues.simps(2))
    next
      case False
      then show ?thesis
        using Cons P pid row c(1) rest(1) assms(2) by (simp add: AddQueues.simps(2))
    qed
    moreover have "appends env pid d d4 (StoredQueue ?r ts # us)"
      by (rule appends_Cons [of ?d2 d ?r env pid d3 ts])
         (use c(2) rest(2) healthy_env_inj [OF assms(1)] in simp_all)
    moreover have "map erase (StoredQueue ?r ts # us) = map (propagate P) qs"
      using c(3) rest(3) P Cons by (simp add: propagate_root)
    ultimately show ?thesis by blast
  qed
qed

lemma AddQueues_roundtrip:
  assumes "healthy_env env" and "P \<noteq> []" and "qr_id ` set (queues_t d) \<subseteq> drawn env d"
    and "list_all (\<lambda>q. queue_Partition (qinfo q) = P \<and> queue_Parent (qinfo q) = []) qs"
    and "distinct (concat (map queue_names qs))"
    and "list_all (\<lambda>r. queue_Partition (qr_info r) \<noteq> P) (queues_t d)"
  shows "\<exists>d' ts. AddQueues env None qs d = (None, d') \<and>
    fst (GetQueuesPerPartition env P d') = Inr (Some ts) \<and> map erase ts = map (propagate P) qs"
proof -
  have "(Pair P ` set (concat (map queue_names qs))) \<inter> queue_key ` set (queues_t d) = {}"
    using assms(6) by (auto simp: list_all_iff queue_key_def)
  then obtain d' ts where a: "AddQueues env None qs d = (None, d')" "appends env None d d' ts"
      "map erase ts = map (propagate P) qs"
    using AddQueues_appends [OF assms(1,2,3), of qs None] assms(4,5) by (auto simp: list_all_iff)
  have "queue_Partition (qr_info r) = P" if "r \<in> set (forest_rows ts)" for r
  proof -
    have "queue_key r \<in> set (map queue_key (forest_rows ts))" using that by simp
    then show ?thesis unfolding keys_of_erase_forest [OF a(3)] by (auto simp: queue_key_def)
  qed
  then have "filter (\<lambda>r. queue_Partition (qr_info r) = P) (queues_t d') = forest_rows ts"
    using a(2) assms(6) by (simp add: appends_def list_all_iff)
  moreover have "build_forest (forest_rows ts) = Some ts"
    using a(2) by (intro build_forest_linked) (simp_all add: appends_def)
  ultimately show ?thesis
    using a assms(1) by (intro exI [of _ d'] exI [of _ ts]) (simp add: GetQueuesPerPartition_def)
qed

section \<open>Deleting a forest\<close>

definition mark_deleted :: "(string \<Rightarrow> int) \<Rightarrow> string set \<Rightarrow> QueueRow \<Rightarrow> QueueRow" where
  "mark_deleted tm ids r = (if qr_id r \<in> ids then r\<lparr>qr_deleted_at := Some (tm (qr_id r))\<rparr> else r)"

lemma mark_deleted_comp:
  "mark_deleted t2 B (mark_deleted t1 A r) = mark_deleted (\<lambda>i. if i \<in> B then t2 i else t1 i) (A \<union> B) r"
  by (simp add: mark_deleted_def)

lemma mark_deleted_none [simp]: "mark_deleted tm {} = (\<lambda>r. r)"
  by (simp add: mark_deleted_def fun_eq_iff)

definition marks :: "string set \<Rightarrow> db \<Rightarrow> db \<Rightarrow> bool" where
  "marks ids d d' \<longleftrightarrow> (\<exists>tm. d' = d\<lparr>queues_t := map (mark_deleted tm ids) (queues_t d), stmtCtr := stmtCtr d'\<rparr>)"

lemma marks_refl: "marks {} d d"
  by (simp add: marks_def)

lemma marks_trans:
  assumes "marks A d d1" and "marks B d1 d2"
  shows "marks (A \<union> B) d d2"
proof -
  obtain t1 t2 where t: "d1 = d\<lparr>queues_t := map (mark_deleted t1 A) (queues_t d), stmtCtr := stmtCtr d1\<rparr>"
      "d2 = d1\<lparr>queues_t := map (mark_deleted t2 B) (queues_t d1), stmtCtr := stmtCtr d2\<rparr>"
    using assms unfolding marks_def by blast
  have "queues_t d1 = map (mark_deleted t1 A) (queues_t d)" by (subst t(1)) simp
  then have q: "map (mark_deleted t2 B) (queues_t d1) =
      map (mark_deleted (\<lambda>i. if i \<in> B then t2 i else t1 i) (A \<union> B)) (queues_t d)"
    by (simp only: map_map comp_def mark_deleted_comp)
  have "d2 = d\<lparr>queues_t := map (mark_deleted t2 B) (queues_t d1), stmtCtr := stmtCtr d2\<rparr>"
    by (subst t(2), subst t(1)) simp
  then show ?thesis unfolding marks_def q by blast
qed

lemma delete_stmt_marks:
  assumes "delete_queue_stmt now i (d\<lparr>stmtCtr := n\<rparr>) = Inr d'"
  shows "marks {i} d d'"
proof -
  have "d' = d\<lparr>queues_t := map (mark_deleted (\<lambda>_. now) {i}) (queues_t d), stmtCtr := stmtCtr d'\<rparr>"
    using assms by (auto simp: delete_queue_stmt_def mark_deleted_def)
  then show ?thesis unfolding marks_def by blast
qed

text \<open>
  \<open>DeleteQueues\<close> on a healthy connection sets \<open>deleted_at\<close> in the rows of the forest and
  leaves every other row as it is.
\<close>

lemma DeleteQueues_marks:
  assumes "healthy_env env"
  shows "\<exists>d'. DeleteQueues env qs d = (None, d') \<and> marks (qr_id ` set (forest_rows qs)) d d'"
  using assms
proof (induction env qs d rule: DeleteQueues.induct)
  case (1 env d)
  then show ?case by (auto simp: forest_rows_def intro: marks_refl)
next
  case (2 env q qs d)
  have "\<exists>d1. (if sqChildren q \<noteq> [] then DeleteQueues env (sqChildren q) d else (None, d)) = (None, d1) \<and>
      marks (qr_id ` set (forest_rows (sqChildren q))) d d1"
    using "2.IH"(1) "2.prems" by (auto simp: forest_rows_def intro: marks_refl)
  then obtain d1 where c: "(if sqChildren q \<noteq> [] then DeleteQueues env (sqChildren q) d else (None, d)) = (None, d1)"
      "marks (qr_id ` set (forest_rows (sqChildren q))) d d1"
    by blast
  let ?stmt = "delete_queue_stmt (unix_now env d1) (qr_id (sqRow q))"
  obtain d2 where s: "?stmt (d1\<lparr>stmtCtr := Suc (stmtCtr d1)\<rparr>) = Inr d2"
    by (simp add: delete_queue_stmt_def)
  then have e: "pg_exec env ?stmt d1 = (None, d2)" using "2.prems" by simp
  obtain d3 where r: "DeleteQueues env qs d2 = (None, d3)" "marks (qr_id ` set (forest_rows qs)) d2 d3"
    using "2.IH"(2) [OF c(1) [symmetric] _ e [symmetric]] "2.prems" by auto
  have "marks {qr_id (sqRow q)} d1 d2" by (rule delete_stmt_marks [OF s])
  then have "marks (qr_id ` set (forest_rows (sqChildren q)) \<union> {qr_id (sqRow q)} \<union> qr_id ` set (forest_rows qs)) d d3"
    using c(2) r(2) by (blast intro: marks_trans)
  moreover have "qr_id ` set (forest_rows (q # qs)) =
      qr_id ` set (forest_rows (sqChildren q)) \<union> {qr_id (sqRow q)} \<union> qr_id ` set (forest_rows qs)"
    by (cases q) (auto simp: forest_rows_def)
  moreover have "DeleteQueues env (q # qs) d = (None, d3)"
    using c(1) e r(1) by (simp add: DeleteQueues.simps(2) del: pg_exec_healthy)
  ultimately show ?case by auto
qed

section \<open>Properties\<close>

lemma parents_before_take: "parents_before seen rs \<Longrightarrow> parents_before seen (take n rs)"
proof (induction rs arbitrary: seen n)
  case (Cons r rs)
  then show ?case by (cases n) auto
qed simp

lemma GetQueuesPerPartition_result:
  assumes "queue_inv env d"
  shows "case fst (GetQueuesPerPartition env p d) of
      Inl e \<Rightarrow> \<not> healthy_env env
    | Inr None \<Rightarrow> False
    | Inr (Some ts) \<Rightarrow> \<exists>n.
        mset (forest_rows ts) = mset (take n (filter (\<lambda>r. queue_Partition (qr_info r) = p) (queues_t d))) \<and>
        (healthy_env env \<longrightarrow> mset (forest_rows ts) = mset (filter (\<lambda>r. queue_Partition (qr_info r) = p) (queues_t d)))"
proof -
  let ?sel = "\<lambda>d. filter (\<lambda>r. queue_Partition (qr_info r) = p) (queues_t d)"
  have pb: "parents_before [] (?sel d)"
    using assms parents_before_filter [of "[]" "queues_t d" p "[]"] by (simp add: queue_inv_def)
  have di: "distinct (map qr_id (take n (?sel d)))" for n
    using assms distinct_map_filter [of qr_id "queues_t d"] distinct_take
    by (simp add: queue_inv_def table_wf_def flip: take_map)
  obtain res d' where q: "pg_rows env ''could not get queues from DB: '' ''could not scan queue from DB: '' ?sel d = (res, d')"
    by fastforce
  then show ?thesis
  proof (cases rule: pg_rows_cases)
    case (failed e)
    then have "\<not> healthy_env env" using q by auto
    with failed q show ?thesis by (simp add: GetQueuesPerPartition_def del: pg_rows_healthy)
  next
    case (ok n)
    have rows: "res = Inr (take n (?sel d))" using ok by simp
    obtain ts where ts: "build_forest (take n (?sel d)) = Some ts"
      using build_forest_terminates [OF parents_before_take [OF pb] di] by blast
    have m: "mset (forest_rows ts) = mset (take n (?sel d))"
      by (rule build_forest_rows [OF parents_before_take [OF pb] di ts])
    have h: "take n (?sel d) = ?sel d" if "healthy_env env" using that q rows by simp
    have "fst (GetQueuesPerPartition env p d) = Inr (Some ts)"
      using q rows ts by (simp add: GetQueuesPerPartition_def del: pg_rows_healthy)
    then show ?thesis using m h by auto
  qed
qed

text \<open>
  C13. On a table that satisfies the invariant, \<open>GetQueuesPerPartition\<close> returns, whatever the
  connection does: its recursion ends, the trees hold each row that was delivered exactly once,
  and on a healthy connection these are all rows of the partition.
\<close>

theorem GetQueuesPerPartition_total:
  assumes "queue_inv env d"
  shows "case fst (GetQueuesPerPartition env p d) of
      Inl e \<Rightarrow> \<not> healthy_env env
    | Inr None \<Rightarrow> False
    | Inr (Some ts) \<Rightarrow> \<exists>n.
        mset (forest_rows ts) = mset (take n (filter (\<lambda>r. queue_Partition (qr_info r) = p) (queues_t d))) \<and>
        (healthy_env env \<longrightarrow> mset (forest_rows ts) = mset (filter (\<lambda>r. queue_Partition (qr_info r) = p) (queues_t d)))"
  using GetQueuesPerPartition_result [OF assms] .

theorem GetQueuesPerPartition_total_witness:
  "queue_inv demo_env demo_queue_db \<and>
   (\<exists>ts. fst (GetQueuesPerPartition demo_env ''default'' demo_queue_db) = Inr (Some ts) \<and>
      mset (forest_rows ts) = mset (queues_t demo_queue_db))"
proof -
  have "filter (\<lambda>r. queue_Partition (qr_info r) = ''default'') (queues_t demo_queue_db) = queues_t demo_queue_db"
    by (simp add: demo_queue_db_def)
  with GetQueuesPerPartition_total [OF demo_queue_db_inv, of "''default''"] demo_queue_db_inv show ?thesis
    by (auto split: sum.splits option.splits)
qed

text \<open>
  C14. A forest written with \<open>AddQueues\<close> into an empty partition is what \<open>GetQueuesPerPartition\<close>
  reads back, with the partition of the top queues in all queues.
\<close>

theorem AddQueues_GetQueuesPerPartition:
  assumes "healthy_env env" and "P \<noteq> []" and "qr_id ` set (queues_t d) \<subseteq> drawn env d"
    and "list_all (\<lambda>q. queue_Partition (qinfo q) = P \<and> queue_Parent (qinfo q) = []) qs"
    and "distinct (concat (map queue_names qs))"
    and "list_all (\<lambda>r. queue_Partition (qr_info r) \<noteq> P) (queues_t d)"
  shows "\<exists>d' ts. AddQueues env None qs d = (None, d') \<and>
    fst (GetQueuesPerPartition env P d') = Inr (Some ts) \<and> map erase ts = map (propagate P) qs"
  using AddQueues_roundtrip [OF assms] .

theorem AddQueues_GetQueuesPerPartition_witness:
  "\<exists>d' ts. AddQueues demo_env None [demo_tree] empty_db = (None, d') \<and>
    fst (GetQueuesPerPartition demo_env ''default'' d') = Inr (Some ts) \<and>
    map erase ts = map (propagate ''default'') [demo_tree]"
  by (rule AddQueues_GetQueuesPerPartition) (simp_all add: demo_tree_def empty_db_def)

text \<open>
  C26. \<open>DeleteQueues\<close> succeeds on a healthy connection, sets a deletion time in exactly the rows of the forest it is
  given, and changes nothing else: no other row of the table and no other table.
\<close>

theorem DeleteQueues_marks_forest:
  assumes "healthy_env env"
  shows "\<exists>d' tm. DeleteQueues env qs d = (None, d') \<and>
    d' = d\<lparr>queues_t := map (\<lambda>r. if qr_id r \<in> qr_id ` set (forest_rows qs)
      then r\<lparr>qr_deleted_at := Some (tm (qr_id r))\<rparr> else r) (queues_t d), stmtCtr := stmtCtr d'\<rparr>"
proof -
  obtain d' tm where "DeleteQueues env qs d = (None, d')"
      "d' = d\<lparr>queues_t := map (mark_deleted tm (qr_id ` set (forest_rows qs))) (queues_t d), stmtCtr := stmtCtr d'\<rparr>"
    using DeleteQueues_marks [OF assms, of qs d] unfolding marks_def by blast
  then show ?thesis unfolding mark_deleted_def by blast
qed

theorem DeleteQueues_marks_forest_witness:
  "healthy_env demo_env \<and> (\<exists>d' tm. DeleteQueues demo_env [StoredQueue (hd (queues_t demo_queue_db)) []] demo_queue_db = (None, d') \<and>
    d' = demo_queue_db\<lparr>queues_t := map (\<lambda>r. if qr_id r = ''0'' then r\<lparr>qr_deleted_at := Some (tm (qr_id r))\<rparr> else r)
      (queues_t demo_queue_db), stmtCtr := stmtCtr d'\<rparr>)"
proof -
  have "qr_id ` set (forest_rows [StoredQueue (hd (queues_t demo_queue_db)) []]) = {''0''}"
    by (simp add: forest_rows_def demo_queue_db_def)
  with DeleteQueues_marks_forest [OF healthy_demo_env,
      of "[StoredQueue (hd (queues_t demo_queue_db)) []]" demo_queue_db]
  show ?thesis by simp
qed

text \<open>
  \<open>AddQueues\<close> keeps the parent it found for one queue for the queues after it: a top queue
  (with no parent) that follows a queue below \<open>root\<close> is stored below \<open>root\<close> too.
\<close>

theorem AddQueues_carries_parent:
  "\<exists>d' r. AddQueues demo_env None
      [QueueDAO (demo_fields ''default'' ''root.a'' ''root'') [], QueueDAO (demo_fields ''default'' ''top'' '''') []]
      demo_queue_db = (None, d') \<and>
    lookup_row queue_key (''default'', ''top'') (queues_t d') = Some r \<and>
    queue_Parent (qr_info r) = [] \<and> qr_parent_id r = Some ''0''"
proof -
  have f: "format_nat 2 = ''2''" "format_nat 3 = ''3''" by code_simp+
  show ?thesis
    by (simp add: AddQueues.simps(2) getQueueID_def AddQueue_row_def new_uuid_def insert_queue_stmt_def
        put_queues_def insert_row_def demo_queue_db_def empty_db_def alive_queue_def queue_key_def
        new_queue_row_def lookup_row_def numeral_2_eq_2 numeral_3_eq_3 f [unfolded numeral_2_eq_2 numeral_3_eq_3]
        demo_env_def [THEN arg_cong, of freshUUID, simplified])
qed

end
