(* ===== verification/Repo_Partitions.thy ===== *)
theory Repo_Partitions
  imports Pg_Schema
begin

text \<open>
  \<open>internal/database/repository/partitions.go\<close>: \<open>UpsertPartitions\<close> and
  \<open>GetAllPartitions\<close>. The table is an interpretation of the locale \<open>upsert_loop\<close>, which
  gives that the loop keeps the uniqueness of names and identifiers whatever fails, and what
  is stored after a loop that succeeds.
\<close>

section \<open>Operations\<close>

definition partition_row :: "string \<Rightarrow> PartitionInfo \<Rightarrow> PartitionRow" where
  "partition_row u p = \<lparr>pr_id = u, pr_info = p\<rparr>"

definition partition_key :: "PartitionRow \<Rightarrow> string" where
  "partition_key r = part_Name (pr_info r)"

text \<open>The \<open>DO UPDATE SET\<close> list: every column but the identifier, the cluster and the name.\<close>

definition partition_merge :: "PartitionRow \<Rightarrow> PartitionRow \<Rightarrow> PartitionRow" where
  "partition_merge old new =
     (let e = pr_info new in
      old\<lparr>pr_info := (pr_info old)\<lparr>
        part_Capacity := part_Capacity e,
        part_UsedCapacity := part_UsedCapacity e,
        part_Utilization := part_Utilization e,
        part_TotalNodes := part_TotalNodes e,
        part_Applications := part_Applications e,
        part_TotalContainers := part_TotalContainers e,
        part_State := part_State e,
        part_LastStateTransitionTime := part_LastStateTransitionTime e\<rparr>\<rparr>)"

definition put_partitions :: "PartitionRow list \<Rightarrow> db \<Rightarrow> db" where
  "put_partitions t d = d\<lparr>partitions_t := t\<rparr>"

definition UpsertPartition :: "pgenv \<Rightarrow> PartitionInfo \<Rightarrow> db \<Rightarrow> goerror option \<times> db" where
  "UpsertPartition env p d =
     (case new_uuid env d of (u, d1) \<Rightarrow>
        (case pg_exec env (upsert_stmt partition_key pr_id partition_merge partitions_t put_partitions
                (partition_row u p)) d1 of
           (Some e, d2) \<Rightarrow> (Some (Errorf_v ''could not insert/update partition into DB: '' e), d2)
         | (None, d2) \<Rightarrow> (None, d2)))"

definition UpsertPartitions :: "pgenv \<Rightarrow> PartitionInfo list \<Rightarrow> db \<Rightarrow> goerror option \<times> db" where
  "UpsertPartitions env partitions d = for_each (UpsertPartition env) partitions d"

definition GetAllPartitions :: "pgenv \<Rightarrow> db \<Rightarrow> PartitionInfo list result \<times> db" where
  "GetAllPartitions env d =
     (case pg_rows env ''could not get partitions from DB: '' ''could not scan partition from DB: ''
         partitions_t d of
        (Inl e, d') \<Rightarrow> (Inl e, d')
      | (Inr rows, d') \<Rightarrow> (Inr (map pr_info rows), d'))"

section \<open>The table\<close>

interpretation partition_tab: upsert_loop partition_key pr_id partition_merge partitions_t put_partitions
    partition_row part_Name "Errorf_v ''could not insert/update partition into DB: ''" UpsertPartition
  by unfold_locales
     (simp_all add: partition_key_def partition_merge_def Let_def put_partitions_def partition_row_def
        UpsertPartition_def)

definition partitions_inv :: "pgenv \<Rightarrow> db \<Rightarrow> bool" where
  "partitions_inv env d \<longleftrightarrow>
     table_wf partition_key pr_id (partitions_t d) \<and> pr_id ` set (partitions_t d) \<subseteq> drawn env d"

lemma UpsertPartitions_inv:
  assumes "UpsertPartitions env ps d = (res, d')" and "inj (freshUUID env)" and "partitions_inv env d"
  shows "partitions_inv env d'"
  using partition_tab.loop_keeps [of env ps d res d'] assms
  by (simp add: UpsertPartitions_def partitions_inv_def partition_tab.ids_drawn_def)

text \<open>The stored partition of a name.\<close>

definition stored_partition :: "string \<Rightarrow> db \<Rightarrow> PartitionInfo option" where
  "stored_partition nm d = map_option pr_info (lookup_row partition_key nm (partitions_t d))"

lemma stored_partition_find:
  "stored_partition nm d = find (\<lambda>p. part_Name p = nm) (map pr_info (partitions_t d))"
proof -
  have "map_option pr_info (find (\<lambda>r. part_Name (pr_info r) = nm) rs) =
      find (\<lambda>p. part_Name p = nm) (map pr_info rs)" for rs
    by (induction rs) auto
  then show ?thesis by (simp add: stored_partition_def lookup_row_def partition_key_def)
qed

lemma partition_merge_info:
  assumes "partition_key r = part_Name p"
  shows "pr_info (partition_merge r (partition_row u p)) = p\<lparr>part_ClusterID := part_ClusterID (pr_info r)\<rparr>"
  using assms by (simp add: partition_merge_def partition_row_def Let_def partition_key_def)

lemma UpsertPartitions_stores:
  assumes "healthy_env env" and "partitions_inv env d" and "distinct (map part_Name ps)"
  shows "\<exists>d'. UpsertPartitions env ps d = (None, d') \<and>
    (\<forall>p \<in> set ps. stored_partition (part_Name p) d' =
       Some (case stored_partition (part_Name p) d of
               None \<Rightarrow> p | Some old \<Rightarrow> p\<lparr>part_ClusterID := part_ClusterID old\<rparr>)) \<and>
    (\<forall>nm. nm \<notin> part_Name ` set ps \<longrightarrow> stored_partition nm d' = stored_partition nm d)"
proof -
  obtain d' where d': "for_each (UpsertPartition env) ps d = (None, d')"
      "\<forall>p \<in> set ps. partition_tab.merged partition_row p (lookup_row partition_key (part_Name p) (partitions_t d))
         (lookup_row partition_key (part_Name p) (partitions_t d'))"
      "\<forall>k. k \<notin> part_Name ` set ps \<longrightarrow>
         lookup_row partition_key k (partitions_t d') = lookup_row partition_key k (partitions_t d)"
    using partition_tab.loop_succeeds [OF assms(1) _ assms(3), of d] assms(2)
    unfolding partitions_inv_def partition_tab.ids_drawn_def by blast
  have "stored_partition (part_Name p) d' =
       Some (case stored_partition (part_Name p) d of
               None \<Rightarrow> p | Some old \<Rightarrow> p\<lparr>part_ClusterID := part_ClusterID old\<rparr>)" if mem: "p \<in> set ps" for p
  proof -
    let ?old = "lookup_row partition_key (part_Name p) (partitions_t d)"
    obtain u where u: "lookup_row partition_key (part_Name p) (partitions_t d') =
        Some (case ?old of None \<Rightarrow> partition_row u p | Some r \<Rightarrow> partition_merge r (partition_row u p))"
      using d'(2) mem unfolding partition_tab.merged_def by blast
    have "partition_key r = part_Name p" if "?old = Some r" for r
      using that by (auto simp: lookup_row_def find_Some_iff)
    with u show ?thesis
      by (cases ?old) (simp_all add: stored_partition_def partition_merge_info, simp add: partition_row_def)
  qed
  moreover have "stored_partition nm d' = stored_partition nm d" if "nm \<notin> part_Name ` set ps" for nm
    using d'(3) that by (simp add: stored_partition_def)
  ultimately show ?thesis using d'(1) unfolding UpsertPartitions_def by blast
qed

section \<open>Properties\<close>

text \<open>
  \<open>UpsertPartitions\<close> on partitions with different names succeeds on a healthy connection;
  each is stored, with the cluster of the stored row if there was one, and all others are
  untouched.
\<close>

theorem UpsertPartitions_correct:
  assumes "healthy_env env" and "partitions_inv env d" and "distinct (map part_Name ps)"
  shows "\<exists>d'. UpsertPartitions env ps d = (None, d') \<and>
    (\<forall>p \<in> set ps. stored_partition (part_Name p) d' =
       Some (case stored_partition (part_Name p) d of
               None \<Rightarrow> p | Some old \<Rightarrow> p\<lparr>part_ClusterID := part_ClusterID old\<rparr>)) \<and>
    (\<forall>nm. nm \<notin> part_Name ` set ps \<longrightarrow> stored_partition nm d' = stored_partition nm d)"
  using UpsertPartitions_stores [OF assms] .

definition demo_partition :: PartitionInfo where
  "demo_partition = \<lparr>part_ClusterID = ''c'', part_Name = ''default'', part_Capacity = None,
     part_UsedCapacity = None, part_Utilization = None, part_TotalNodes = 1, part_Applications = None,
     part_TotalContainers = 0, part_State = ''Active'', part_LastStateTransitionTime = 0\<rparr>"

lemma partitions_inv_empty: "partitions_inv env empty_db"
  by (simp add: partitions_inv_def table_wf_def empty_db_def)

theorem UpsertPartitions_correct_witness:
  "\<exists>d'. UpsertPartitions demo_env [demo_partition] empty_db = (None, d') \<and>
     stored_partition ''default'' d' = Some demo_partition"
proof -
  have "stored_partition ''default'' empty_db = None"
    by (simp add: stored_partition_def lookup_row_def empty_db_def)
  with UpsertPartitions_correct [OF healthy_demo_env partitions_inv_empty, of "[demo_partition]"] show ?thesis
    by (auto simp: demo_partition_def)
qed

text \<open>
  \<open>GetAllPartitions\<close> never consults \<open>rows.Err\<close>: when the connection breaks after \<open>n\<close> rows it
  returns the first \<open>n\<close> partitions as if they were all.
\<close>

theorem GetAllPartitions_truncates:
  assumes "pgFault env (stmtCtr d) = None" and "rowsEnd env (stmtCtr d) = Some (StreamCut n)"
  shows "fst (GetAllPartitions env d) = Inr (take n (map pr_info (partitions_t d)))"
  using assms by (simp add: GetAllPartitions_def pg_rows_def pg_select_def pg_query_def take_map)

theorem GetAllPartitions_truncates_witness:
  "fst (GetAllPartitions (demo_env\<lparr>rowsEnd := (\<lambda>n. Some (StreamCut 0))\<rparr>)
     (empty_db\<lparr>partitions_t := [\<lparr>pr_id = ''0'', pr_info = demo_partition\<rparr>]\<rparr>)) = Inr []"
  using GetAllPartitions_truncates [of "demo_env\<lparr>rowsEnd := (\<lambda>n. Some (StreamCut 0))\<rparr>"
      "empty_db\<lparr>partitions_t := [\<lparr>pr_id = ''0'', pr_info = demo_partition\<rparr>]\<rparr>" 0]
  by (simp add: demo_env_def)

end
