(* ===== verification/Repo_Nodes.thy ===== *)
theory Repo_Nodes
  imports Pg_Schema
begin

text \<open>
  \<open>internal/database/repository/node.go\<close>: \<open>UpsertNodes\<close>, \<open>InsertNodeUtilizations\<close>,
  \<open>GetNodeUtilizations\<close> and \<open>GetNodesPerPartition\<close>. All rows of one
  \<open>InsertNodeUtilizations\<close> get the identifier of the call, which is the primary key of the
  table; the last section shows what that means for two rows or more.
\<close>

section \<open>Nodes\<close>

definition node_row :: "string \<Rightarrow> NodeDAOInfo \<times> string \<Rightarrow> NodeRow" where
  "node_row u x = \<lparr>nr_id = u, nr_partition = snd x, nr_info = fst x\<rparr>"

definition node_key :: "NodeRow \<Rightarrow> string" where
  "node_key r = node_NodeID (nr_info r)"

text \<open>The \<open>DO UPDATE SET\<close> list: neither the partition nor the names and attributes of the node.\<close>

definition node_merge :: "NodeRow \<Rightarrow> NodeRow \<Rightarrow> NodeRow" where
  "node_merge old new =
     (let e = nr_info new in
      old\<lparr>nr_info := (nr_info old)\<lparr>
        node_Capacity := node_Capacity e,
        node_Allocated := node_Allocated e,
        node_Occupied := node_Occupied e,
        node_Available := node_Available e,
        node_Utilized := node_Utilized e,
        node_Allocations := node_Allocations e,
        node_Schedulable := node_Schedulable e,
        node_IsReserved := node_IsReserved e,
        node_Reservations := node_Reservations e\<rparr>\<rparr>)"

definition put_nodes :: "NodeRow list \<Rightarrow> db \<Rightarrow> db" where
  "put_nodes t d = d\<lparr>nodes_t := t\<rparr>"

definition UpsertNode :: "pgenv \<Rightarrow> NodeDAOInfo \<times> string \<Rightarrow> db \<Rightarrow> goerror option \<times> db" where
  "UpsertNode env x d =
     (case new_uuid env d of (u, d1) \<Rightarrow>
        (case pg_exec env (upsert_stmt node_key nr_id node_merge nodes_t put_nodes (node_row u x)) d1 of
           (Some e, d2) \<Rightarrow> (Some (Errorf_v ''could not insert application into DB: '' e), d2)
         | (None, d2) \<Rightarrow> (None, d2)))"

definition UpsertNodes :: "pgenv \<Rightarrow> NodeDAOInfo list \<Rightarrow> string \<Rightarrow> db \<Rightarrow> goerror option \<times> db" where
  "UpsertNodes env nodes pname d = for_each (UpsertNode env) (map (\<lambda>n. (n, pname)) nodes) d"

definition GetNodesPerPartition :: "pgenv \<Rightarrow> string \<Rightarrow> db \<Rightarrow> NodeDAOInfo list result \<times> db" where
  "GetNodesPerPartition env pname d =
     (case pg_rows env ''could not get nodes from DB: '' ''could not scan node: ''
         (\<lambda>d. filter (\<lambda>r. nr_partition r = pname) (nodes_t d)) d of
        (Inl e, d') \<Rightarrow> (Inl e, d')
      | (Inr rows, d') \<Rightarrow> (Inr (map nr_info rows), d'))"

interpretation node_tab: upsert_loop node_key nr_id node_merge nodes_t put_nodes
    node_row "\<lambda>x. node_NodeID (fst x)" "Errorf_v ''could not insert application into DB: ''" UpsertNode
  by unfold_locales
     (simp_all add: node_key_def node_merge_def Let_def put_nodes_def node_row_def UpsertNode_def)

definition nodes_inv :: "pgenv \<Rightarrow> db \<Rightarrow> bool" where
  "nodes_inv env d \<longleftrightarrow>
     table_wf node_key nr_id (nodes_t d) \<and> nr_id ` set (nodes_t d) \<subseteq> drawn env d"

lemma UpsertNodes_inv:
  assumes "UpsertNodes env ns p d = (res, d')" and "inj (freshUUID env)" and "nodes_inv env d"
  shows "nodes_inv env d'"
  using node_tab.loop_keeps [of env "map (\<lambda>n. (n, p)) ns" d res d'] assms
  by (simp add: UpsertNodes_def nodes_inv_def node_tab.ids_drawn_def)

definition stored_node :: "string \<Rightarrow> db \<Rightarrow> (string \<times> NodeDAOInfo) option" where
  "stored_node i d = map_option (\<lambda>r. (nr_partition r, nr_info r)) (lookup_row node_key i (nodes_t d))"

text \<open>What a node that is known already keeps: its partition, names and attributes.\<close>

definition node_kept :: "NodeDAOInfo \<Rightarrow> NodeDAOInfo \<Rightarrow> NodeDAOInfo" where
  "node_kept old n = n\<lparr>node_HostName := node_HostName old, node_RackName := node_RackName old,
     node_Attributes := node_Attributes old\<rparr>"

lemma node_merge_row:
  assumes "node_key r = node_NodeID n"
  shows "nr_info (node_merge r (node_row u (n, p))) = node_kept (nr_info r) n"
    and "nr_partition (node_merge r (node_row u (n, p))) = nr_partition r"
  using assms by (simp_all add: node_merge_def node_row_def Let_def node_key_def node_kept_def)

lemma UpsertNodes_stores:
  assumes "healthy_env env" and "nodes_inv env d" and "distinct (map node_NodeID ns)"
  shows "\<exists>d'. UpsertNodes env ns p d = (None, d') \<and>
    (\<forall>n \<in> set ns. stored_node (node_NodeID n) d' =
       Some (case stored_node (node_NodeID n) d of
               None \<Rightarrow> (p, n) | Some (q, old) \<Rightarrow> (q, node_kept old n))) \<and>
    (\<forall>i. i \<notin> node_NodeID ` set ns \<longrightarrow> stored_node i d' = stored_node i d)"
proof -
  let ?xs = "map (\<lambda>n. (n, p)) ns"
  obtain d' where d': "for_each (UpsertNode env) ?xs d = (None, d')"
      "\<forall>x \<in> set ?xs. node_tab.merged node_row x (lookup_row node_key (node_NodeID (fst x)) (nodes_t d))
         (lookup_row node_key (node_NodeID (fst x)) (nodes_t d'))"
      "\<forall>k. k \<notin> (\<lambda>x. node_NodeID (fst x)) ` set ?xs \<longrightarrow>
         lookup_row node_key k (nodes_t d') = lookup_row node_key k (nodes_t d)"
    using node_tab.loop_succeeds [OF assms(1), of d ?xs] assms(2,3)
    unfolding nodes_inv_def node_tab.ids_drawn_def map_map comp_def fst_conv by blast
  have "stored_node (node_NodeID n) d' =
       Some (case stored_node (node_NodeID n) d of
               None \<Rightarrow> (p, n) | Some (q, old) \<Rightarrow> (q, node_kept old n))" if mem: "n \<in> set ns" for n
  proof -
    let ?old = "lookup_row node_key (node_NodeID n) (nodes_t d)"
    obtain u where u: "lookup_row node_key (node_NodeID n) (nodes_t d') =
        Some (case ?old of None \<Rightarrow> node_row u (n, p) | Some r \<Rightarrow> node_merge r (node_row u (n, p)))"
      using bspec [OF d'(2), of "(n, p)"] mem
      unfolding node_tab.merged_def set_map fst_conv by (blast intro: imageI)
    have "node_key r = node_NodeID n" if "?old = Some r" for r
      using that by (auto simp: lookup_row_def find_Some_iff)
    with u show ?thesis
      by (cases ?old) (simp_all add: stored_node_def node_merge_row, simp add: node_row_def)
  qed
  moreover have "stored_node i d' = stored_node i d" if "i \<notin> node_NodeID ` set ns" for i
    using d'(3) that by (simp add: stored_node_def image_image)
  ultimately show ?thesis using d'(1) unfolding UpsertNodes_def by blast
qed

section \<open>Node utilizations\<close>

definition insert_util_stmt :: "UtilRow \<Rightarrow> db \<Rightarrow> db result" where
  "insert_util_stmt new d =
     (case insert_row ur_id new (nodes_util_t d) of
        Inl e \<Rightarrow> Inl e | Inr t \<Rightarrow> Inr (d\<lparr>nodes_util_t := t\<rparr>))"

definition InsertNodeUtilization ::
    "pgenv \<Rightarrow> string \<Rightarrow> PartitionNodesUtilDAOInfo \<Rightarrow> db \<Rightarrow> goerror option \<times> db" where
  "InsertNodeUtilization env u nu d =
     (case pg_exec env (insert_util_stmt \<lparr>ur_id = u, ur_info = nu\<rparr>) d of
        (Some e, d') \<Rightarrow> (Some (Errorf_v ''could not insert node utilizations into DB: '' e), d')
      | (None, d') \<Rightarrow> (None, d'))"

definition InsertNodeUtilizations ::
    "pgenv \<Rightarrow> string \<Rightarrow> PartitionNodesUtilDAOInfo list \<Rightarrow> db \<Rightarrow> goerror option \<times> db" where
  "InsertNodeUtilizations env u nus d = for_each (InsertNodeUtilization env u) nus d"

definition GetNodeUtilizations :: "pgenv \<Rightarrow> db \<Rightarrow> PartitionNodesUtilDAOInfo list result \<times> db" where
  "GetNodeUtilizations env d =
     (case pg_rows env ''could not get node utilizations from DB: ''
         ''could not scan node utilizations from DB: '' nodes_util_t d of
        (Inl e, d') \<Rightarrow> (Inl e, d')
      | (Inr rows, d') \<Rightarrow> (Inr (map ur_info rows), d'))"

lemma InsertNodeUtilization_new:
  assumes "healthy_env env" and "u \<notin> ur_id ` set (nodes_util_t d)"
  shows "InsertNodeUtilization env u nu d =
    (None, d\<lparr>stmtCtr := Suc (stmtCtr d), nodes_util_t := nodes_util_t d @ [\<lparr>ur_id = u, ur_info = nu\<rparr>]\<rparr>)"
  using assms by (simp add: InsertNodeUtilization_def insert_util_stmt_def insert_row_def list_ex_key)

lemma InsertNodeUtilization_again:
  assumes "healthy_env env" and "u \<in> ur_id ` set (nodes_util_t d)"
  shows "InsertNodeUtilization env u nu d =
    (Some (Errorf_v ''could not insert node utilizations into DB: '' unique_violation),
     d\<lparr>stmtCtr := Suc (stmtCtr d)\<rparr>)"
  using assms by (simp add: InsertNodeUtilization_def insert_util_stmt_def insert_row_def list_ex_key)

section \<open>Properties\<close>

text \<open>
  \<open>UpsertNodes\<close> on nodes with different identifiers succeeds on a healthy connection; a new
  node is stored with the partition, a known node keeps its partition, host, rack and
  attributes, and all others are untouched.
\<close>

theorem UpsertNodes_correct:
  assumes "healthy_env env" and "nodes_inv env d" and "distinct (map node_NodeID ns)"
  shows "\<exists>d'. UpsertNodes env ns p d = (None, d') \<and>
    (\<forall>n \<in> set ns. stored_node (node_NodeID n) d' =
       Some (case stored_node (node_NodeID n) d of
               None \<Rightarrow> (p, n) | Some (q, old) \<Rightarrow> (q, node_kept old n))) \<and>
    (\<forall>i. i \<notin> node_NodeID ` set ns \<longrightarrow> stored_node i d' = stored_node i d)"
  using UpsertNodes_stores [OF assms] .

definition demo_node :: NodeDAOInfo where
  "demo_node = \<lparr>node_NodeID = ''n1'', node_HostName = ''h'', node_RackName = ''r'', node_Attributes = None,
     node_Capacity = None, node_Allocated = None, node_Occupied = None, node_Available = None,
     node_Utilized = None, node_Allocations = None, node_Schedulable = True, node_IsReserved = False,
     node_Reservations = None\<rparr>"

lemma nodes_inv_empty: "nodes_inv env empty_db"
  by (simp add: nodes_inv_def table_wf_def empty_db_def)

theorem UpsertNodes_correct_witness:
  "\<exists>d'. UpsertNodes demo_env [demo_node] ''default'' empty_db = (None, d') \<and>
     stored_node ''n1'' d' = Some (''default'', demo_node)"
proof -
  have "stored_node ''n1'' empty_db = None"
    by (simp add: stored_node_def lookup_row_def empty_db_def)
  with UpsertNodes_correct [OF healthy_demo_env nodes_inv_empty, of "[demo_node]" "''default''"] show ?thesis
    by (auto simp: demo_node_def)
qed

text \<open>
  C30. All rows of one \<open>InsertNodeUtilizations\<close> get the same primary key: the call succeeds for
  one partition, and for two partitions or more it stores the first and fails on the second,
  with every identifier.
\<close>

theorem InsertNodeUtilizations_one_key:
  assumes "healthy_env env" and "u \<notin> ur_id ` set (nodes_util_t d)"
  shows "fst (InsertNodeUtilizations env u [nu] d) = None \<and>
    fst (InsertNodeUtilizations env u (nu # nu' # nus) d) =
      Some (Errorf_v ''could not insert node utilizations into DB: '' unique_violation) \<and>
    nodes_util_t (snd (InsertNodeUtilizations env u (nu # nu' # nus) d)) =
      nodes_util_t d @ [\<lparr>ur_id = u, ur_info = nu\<rparr>]"
  using assms by (simp_all add: InsertNodeUtilizations_def InsertNodeUtilization_new InsertNodeUtilization_again)

theorem InsertNodeUtilizations_one_key_witness:
  "fst (InsertNodeUtilizations demo_env ''0''
     [\<lparr>util_ClusterID = ''c'', util_Partition = ''p'', util_NodesUtilList = None\<rparr>,
      \<lparr>util_ClusterID = ''c'', util_Partition = ''q'', util_NodesUtilList = None\<rparr>] empty_db) =
     Some (Errorf_v ''could not insert node utilizations into DB: '' unique_violation)"
  using InsertNodeUtilizations_one_key [of demo_env "''0''" empty_db] by (simp add: empty_db_def)

end
