(* ===== verification/Repo_History.thy ===== *)
theory Repo_History
  imports Pg_Schema
begin

text \<open>
  \<open>internal/database/repository/history.go\<close>: \<open>UpdateHistory\<close>, \<open>GetApplicationsHistory\<close>
  and \<open>GetContainersHistory\<close>. The totals are strings in the scheduler's API and a
  \<open>BIGINT\<close> column in the table; how the database reads and writes the decimal text is not
  part of the program, so it is a parameter \<open>int8\<close> of the definitions.
\<close>

record int8_codec =
  int8_in :: "string \<Rightarrow> int result"
  int8_out :: "int \<Rightarrow> string"

definition insert_history_stmt ::
    "int8_codec \<Rightarrow> history_type \<Rightarrow> string \<Rightarrow> string \<Rightarrow> int \<Rightarrow> db \<Rightarrow> db result" where
  "insert_history_stmt int8 ty u num ts d =
     (case int8_in int8 num of
        Inl e \<Rightarrow> Inl e
      | Inr n \<Rightarrow>
          (case insert_row hr_id \<lparr>hr_id = u, hr_type = ty, hr_total_number = n, hr_timestamp = ts\<rparr>
              (history_t d) of
             Inl e \<Rightarrow> Inl e | Inr t \<Rightarrow> Inr (d\<lparr>history_t := t\<rparr>)))"

definition insert_history ::
    "int8_codec \<Rightarrow> pgenv \<Rightarrow> history_type \<Rightarrow> string \<Rightarrow> string \<times> int \<Rightarrow> db \<Rightarrow> goerror option \<times> db" where
  "insert_history int8 env ty msg x d =
     (case new_uuid env d of (u, d1) \<Rightarrow>
        (case pg_exec env (insert_history_stmt int8 ty u (fst x) (snd x)) d1 of
           (Some e, d2) \<Rightarrow> (Some (Errorf_v msg e), d2)
         | (None, d2) \<Rightarrow> (None, d2)))"

definition UpdateHistory ::
    "int8_codec \<Rightarrow> pgenv \<Rightarrow> ApplicationHistoryDAOInfo list \<Rightarrow> ContainerHistoryDAOInfo list \<Rightarrow> db \<Rightarrow>
     goerror option \<times> db" where
  "UpdateHistory int8 env apps containers d =
     (case for_each (insert_history int8 env Hist_application ''could not update applications history into DB: '')
         (map (\<lambda>a. (hist_TotalApplications a, hist_Timestamp a)) apps) d of
        (Some e, d1) \<Rightarrow> (Some e, d1)
      | (None, d1) \<Rightarrow>
          for_each (insert_history int8 env Hist_container ''could not update containers history into DB: '')
            (map (\<lambda>c. (chist_TotalContainers c, chist_Timestamp c)) containers) d1)"

definition GetApplicationsHistory ::
    "int8_codec \<Rightarrow> pgenv \<Rightarrow> db \<Rightarrow> ApplicationHistoryDAOInfo list result \<times> db" where
  "GetApplicationsHistory int8 env d =
     (case pg_rows env ''could not get applications history from DB: ''
         ''could not scan applications history from DB: ''
         (\<lambda>d. filter (\<lambda>r. hr_type r = Hist_application) (history_t d)) d of
        (Inl e, d') \<Rightarrow> (Inl e, d')
      | (Inr rows, d') \<Rightarrow>
          (Inr (map (\<lambda>r. \<lparr>hist_Timestamp = hr_timestamp r,
             hist_TotalApplications = int8_out int8 (hr_total_number r)\<rparr>) rows), d'))"

definition GetContainersHistory ::
    "int8_codec \<Rightarrow> pgenv \<Rightarrow> db \<Rightarrow> ContainerHistoryDAOInfo list result \<times> db" where
  "GetContainersHistory int8 env d =
     (case pg_rows env ''could not get containers history from DB: ''
         ''could not scan contaienrs history from DB: ''
         (\<lambda>d. filter (\<lambda>r. hr_type r = Hist_container) (history_t d)) d of
        (Inl e, d') \<Rightarrow> (Inl e, d')
      | (Inr rows, d') \<Rightarrow>
          (Inr (map (\<lambda>r. \<lparr>chist_Timestamp = hr_timestamp r,
             chist_TotalContainers = int8_out int8 (hr_total_number r)\<rparr>) rows), d'))"

section \<open>What is written is read back\<close>

text \<open>A text that the database stores and prints back unchanged.\<close>

definition canonical :: "int8_codec \<Rightarrow> string \<Rightarrow> bool" where
  "canonical int8 s \<longleftrightarrow> (case int8_in int8 s of Inl e \<Rightarrow> False | Inr n \<Rightarrow> int8_out int8 n = s)"

definition history_rows :: "int8_codec \<Rightarrow> history_type \<Rightarrow> db \<Rightarrow> (string \<times> int) list" where
  "history_rows int8 ty d =
     map (\<lambda>r. (int8_out int8 (hr_total_number r), hr_timestamp r)) (filter (\<lambda>r. hr_type r = ty) (history_t d))"

definition history_inv :: "pgenv \<Rightarrow> db \<Rightarrow> bool" where
  "history_inv env d \<longleftrightarrow> distinct (map hr_id (history_t d)) \<and> hr_id ` set (history_t d) \<subseteq> drawn env d"

lemma insert_history_ok:
  assumes "healthy_env env" and "history_inv env d" and "canonical int8 (fst x)"
  shows "\<exists>d'. insert_history int8 env ty msg x d = (None, d') \<and> history_inv env d' \<and>
    (\<forall>ty'. history_rows int8 ty' d' = history_rows int8 ty' d @ (if ty' = ty then [x] else []))"
proof -
  let ?u = "freshUUID env (uuidCtr d)"
  obtain n where n: "int8_in int8 (fst x) = Inr n" "int8_out int8 n = fst x"
    using assms(3) by (auto simp: canonical_def split: sum.splits)
  have u: "?u \<notin> hr_id ` set (history_t d)"
    using assms(2) fresh_not_drawn [OF healthy_env_inj [OF assms(1)], of d] by (auto simp: history_inv_def)
  let ?d' = "d\<lparr>uuidCtr := Suc (uuidCtr d), stmtCtr := Suc (stmtCtr d), history_t := history_t d @
      [\<lparr>hr_id = ?u, hr_type = ty, hr_total_number = n, hr_timestamp = snd x\<rparr>]\<rparr>"
  have "insert_history int8 env ty msg x d = (None, ?d')"
    using u n(1) assms(1)
    by (simp add: insert_history_def new_uuid_def insert_history_stmt_def insert_row_def list_ex_key)
  moreover have "history_inv env ?d'"
    using u assms(2) drawn_Suc [of ?d' d env] by (auto simp: history_inv_def)
  moreover have "history_rows int8 ty' ?d' = history_rows int8 ty' d @ (if ty' = ty then [x] else [])" for ty'
    using n(2) by (simp add: history_rows_def)
  ultimately show ?thesis by blast
qed

lemma insert_histories_ok:
  assumes "healthy_env env"
  shows "history_inv env d \<Longrightarrow> list_all (\<lambda>x. canonical int8 (fst x)) xs \<Longrightarrow>
    \<exists>d'. for_each (insert_history int8 env ty msg) xs d = (None, d') \<and> history_inv env d' \<and>
      (\<forall>ty'. history_rows int8 ty' d' = history_rows int8 ty' d @ (if ty' = ty then xs else []))"
proof (induction xs arbitrary: d)
  case Nil
  then show ?case by simp
next
  case (Cons x xs)
  obtain d1 where d1: "insert_history int8 env ty msg x d = (None, d1)" "history_inv env d1"
      "\<forall>ty'. history_rows int8 ty' d1 = history_rows int8 ty' d @ (if ty' = ty then [x] else [])"
    using insert_history_ok [OF assms Cons.prems(1)] Cons.prems(2) by fastforce
  obtain d' where d': "for_each (insert_history int8 env ty msg) xs d1 = (None, d')" "history_inv env d'"
      "\<forall>ty'. history_rows int8 ty' d' = history_rows int8 ty' d1 @ (if ty' = ty then xs else [])"
    using Cons.IH [OF d1(2)] Cons.prems(2) by auto
  show ?case using d1(1,3) d' by auto
qed

lemma UpdateHistory_rows:
  assumes "healthy_env env" and "history_inv env d"
    and "list_all (\<lambda>a. canonical int8 (hist_TotalApplications a)) apps"
    and "list_all (\<lambda>c. canonical int8 (chist_TotalContainers c)) cs"
  shows "\<exists>d'. UpdateHistory int8 env apps cs d = (None, d') \<and> history_inv env d' \<and>
    history_rows int8 Hist_application d' = history_rows int8 Hist_application d @
      map (\<lambda>a. (hist_TotalApplications a, hist_Timestamp a)) apps \<and>
    history_rows int8 Hist_container d' = history_rows int8 Hist_container d @
      map (\<lambda>c. (chist_TotalContainers c, chist_Timestamp c)) cs"
proof -
  let ?xs = "map (\<lambda>a. (hist_TotalApplications a, hist_Timestamp a)) apps"
  let ?ys = "map (\<lambda>c. (chist_TotalContainers c, chist_Timestamp c)) cs"
  have can: "list_all (\<lambda>x. canonical int8 (fst x)) ?xs" "list_all (\<lambda>x. canonical int8 (fst x)) ?ys"
    using assms(3,4) by (simp_all add: list.pred_map comp_def)
  obtain d1 where d1: "for_each (insert_history int8 env Hist_application
        ''could not update applications history into DB: '') ?xs d = (None, d1)" "history_inv env d1"
      "\<forall>ty'. history_rows int8 ty' d1 = history_rows int8 ty' d @ (if ty' = Hist_application then ?xs else [])"
    using insert_histories_ok [OF assms(1,2) can(1)] by blast
  obtain d2 where d2: "for_each (insert_history int8 env Hist_container
        ''could not update containers history into DB: '') ?ys d1 = (None, d2)" "history_inv env d2"
      "\<forall>ty'. history_rows int8 ty' d2 = history_rows int8 ty' d1 @ (if ty' = Hist_container then ?ys else [])"
    using insert_histories_ok [OF assms(1) d1(2) can(2)] by blast
  show ?thesis using d1 d2 by (intro exI [of _ d2]) (simp add: UpdateHistory_def)
qed

lemma GetApplicationsHistory_rows:
  assumes "healthy_env env"
  shows "fst (GetApplicationsHistory int8 env d) =
    Inr (map (\<lambda>(n, t). \<lparr>hist_Timestamp = t, hist_TotalApplications = n\<rparr>) (history_rows int8 Hist_application d))"
  using assms by (simp add: GetApplicationsHistory_def history_rows_def)

lemma GetContainersHistory_rows:
  assumes "healthy_env env"
  shows "fst (GetContainersHistory int8 env d) =
    Inr (map (\<lambda>(n, t). \<lparr>chist_Timestamp = t, chist_TotalContainers = n\<rparr>) (history_rows int8 Hist_container d))"
  using assms by (simp add: GetContainersHistory_def history_rows_def)

section \<open>Properties\<close>

text \<open>
  C27. What \<open>UpdateHistory\<close> writes on a healthy connection is what the two readers return
  afterwards, appended to what they returned before, for totals that the database prints back
  as they are.
\<close>

theorem UpdateHistory_roundtrip:
  assumes "healthy_env env" and "history_inv env d"
    and "list_all (\<lambda>a. canonical int8 (hist_TotalApplications a)) apps"
    and "list_all (\<lambda>c. canonical int8 (chist_TotalContainers c)) cs"
  shows "\<exists>d' old_apps old_cs. UpdateHistory int8 env apps cs d = (None, d') \<and>
    fst (GetApplicationsHistory int8 env d) = Inr old_apps \<and>
    fst (GetApplicationsHistory int8 env d') = Inr (old_apps @ apps) \<and>
    fst (GetContainersHistory int8 env d) = Inr old_cs \<and>
    fst (GetContainersHistory int8 env d') = Inr (old_cs @ cs)"
proof -
  obtain d' where "UpdateHistory int8 env apps cs d = (None, d')"
    "history_rows int8 Hist_application d' = history_rows int8 Hist_application d @
      map (\<lambda>a. (hist_TotalApplications a, hist_Timestamp a)) apps"
    "history_rows int8 Hist_container d' = history_rows int8 Hist_container d @
      map (\<lambda>c. (chist_TotalContainers c, chist_Timestamp c)) cs"
    using UpdateHistory_rows [OF assms] by blast
  moreover have "map (\<lambda>x. \<lparr>hist_Timestamp = hist_Timestamp x, hist_TotalApplications = hist_TotalApplications x\<rparr>) apps = apps"
      "map (\<lambda>x. \<lparr>chist_Timestamp = chist_Timestamp x, chist_TotalContainers = chist_TotalContainers x\<rparr>) cs = cs"
    by (simp_all add: map_idI)
  ultimately show ?thesis
    by (simp add: GetApplicationsHistory_rows [OF assms(1)] GetContainersHistory_rows [OF assms(1)] comp_def)
qed

definition demo_int8 :: int8_codec where
  "demo_int8 = \<lparr>int8_in = ParseInt ''ParseInt'' 64, int8_out = format_int\<rparr>"

lemma canonical_demo: "canonical demo_int8 ''7''"
proof -
  have "format_int 7 = ''7''" by code_simp
  moreover have "ParseInt ''ParseInt'' 64 (format_int 7) = Inr 7" by (rule ParseInt_format_int) simp_all
  ultimately show ?thesis by (simp add: canonical_def demo_int8_def)
qed

theorem UpdateHistory_roundtrip_witness:
  "\<exists>d'. UpdateHistory demo_int8 demo_env [\<lparr>hist_Timestamp = 1, hist_TotalApplications = ''7''\<rparr>] [] empty_db = (None, d') \<and>
     fst (GetApplicationsHistory demo_int8 demo_env d') = Inr [\<lparr>hist_Timestamp = 1, hist_TotalApplications = ''7''\<rparr>]"
proof -
  have "history_inv demo_env empty_db" by (simp add: history_inv_def empty_db_def)
  moreover have "fst (GetApplicationsHistory demo_int8 demo_env empty_db) = Inr []"
    by (simp add: GetApplicationsHistory_def empty_db_def)
  ultimately show ?thesis
    using UpdateHistory_roundtrip [OF healthy_demo_env, of empty_db demo_int8
        "[\<lparr>hist_Timestamp = 1, hist_TotalApplications = ''7''\<rparr>]" "[]"] canonical_demo
    by auto
qed

end
