(* ===== verification/Sql_Builder.thy ===== *)
theory Sql_Builder
  imports Go_Prelude
begin

text \<open>
  Package \<open>internal/database/sql\<close>: the query builder. The record has the fields of
  \<open>Builder\<close>, every method is a function from builder to builder. The abstract view of a
  builder is the list of calls made on it (\<open>bop\<close>); \<open>query_spec\<close> reads the query text
  off that list, and the refinement lemmas show that the builder's string fields compute it.
\<close>

section \<open>The builder\<close>

datatype OrderDirection = OrderByAscending | OrderByDescending

primrec direction_text :: "OrderDirection \<Rightarrow> string" where
  "direction_text OrderByAscending = ''ASC''"
| "direction_text OrderByDescending = ''DESC''"

record Builder =
  selectStatement :: string
  whereClauses :: string
  hasWhere :: bool
  conditionCounter :: int
  builderArgs :: "goarg list"
  orderByClauses :: string
  builderLimit :: string
  builderOffset :: string

definition NewBuilder :: Builder where
  "NewBuilder = \<lparr>selectStatement = [], whereClauses = [], hasWhere = False,
     conditionCounter = 0, builderArgs = [], orderByClauses = [],
     builderLimit = [], builderOffset = []\<rparr>"

definition SelectAll :: "string \<Rightarrow> string \<Rightarrow> Builder \<Rightarrow> Builder" where
  "SelectAll table alias b =
     (let b1 = b\<lparr>selectStatement := sprintf ''SELECT * FROM %s'' [AText table]\<rparr> in
      if alias \<noteq> [] then b1\<lparr>selectStatement := selectStatement b1 @ '' AS '' @ alias\<rparr> else b1)"

definition condition :: "string \<Rightarrow> Builder \<Rightarrow> Builder" where
  "condition expression b =
     (if \<not> hasWhere b
      then b\<lparr>whereClauses := whereClauses b @ ''WHERE '' @ expression, hasWhere := True\<rparr>
      else b\<lparr>whereClauses := whereClauses b @ '' AND '' @ expression\<rparr>)"

definition Conditionf :: "string \<Rightarrow> goarg list \<Rightarrow> Builder \<Rightarrow> Builder" where
  "Conditionf format args b = condition (sprintf format args) b"

definition Condition :: "string \<Rightarrow> Builder \<Rightarrow> Builder" where
  "Condition expression b = condition expression b"

definition Conditionp :: "string \<Rightarrow> string \<Rightarrow> goarg \<Rightarrow> Builder \<Rightarrow> Builder" where
  "Conditionp lhs op val b =
     (let b1 = b\<lparr>conditionCounter := conditionCounter b + 1\<rparr>;
          expression = sprintf ''%s %s $%d'' [AText lhs, AText op, AInt (conditionCounter b1)];
          b2 = b1\<lparr>builderArgs := builderArgs b1 @ [val]\<rparr>
      in condition expression b2)"

definition Limit :: "int \<Rightarrow> Builder \<Rightarrow> Builder" where
  "Limit n b = b\<lparr>builderLimit := sprintf ''LIMIT %d'' [AInt n]\<rparr>"

definition Offset :: "int \<Rightarrow> Builder \<Rightarrow> Builder" where
  "Offset n b = b\<lparr>builderOffset := sprintf ''OFFSET %d'' [AInt n]\<rparr>"

definition OrderBy :: "string \<Rightarrow> OrderDirection \<Rightarrow> Builder \<Rightarrow> Builder" where
  "OrderBy column direction b =
     b\<lparr>orderByClauses := sprintf ''ORDER BY %s %s'' [AText column, AText (direction_text direction)]\<rparr>"

definition Query :: "Builder \<Rightarrow> string" where
  "Query b = selectStatement b
     @ (if whereClauses b \<noteq> [] then '' '' @ whereClauses b else [])
     @ (if orderByClauses b \<noteq> [] then '' '' @ orderByClauses b else [])
     @ (if builderLimit b \<noteq> [] then '' '' @ builderLimit b else [])
     @ (if builderOffset b \<noteq> [] then '' '' @ builderOffset b else [])"

definition Args :: "Builder \<Rightarrow> goarg list" where
  "Args b = builderArgs b"

lemmas builder_defs =
  SelectAll_def condition_def Conditionf_def Condition_def Conditionp_def Limit_def Offset_def
  OrderBy_def

section \<open>The abstract view: a sequence of calls\<close>

datatype bop =
    CSelectAll string string
  | CConditionf string "goarg list"
  | CCondition string
  | CConditionp string string goarg
  | CLimit int
  | COffset int
  | COrderBy string OrderDirection

primrec apply_call :: "bop \<Rightarrow> Builder \<Rightarrow> Builder" where
  "apply_call (CSelectAll t a) b = SelectAll t a b"
| "apply_call (CConditionf f as) b = Conditionf f as b"
| "apply_call (CCondition e) b = Condition e b"
| "apply_call (CConditionp l op v) b = Conditionp l op v b"
| "apply_call (CLimit n) b = Limit n b"
| "apply_call (COffset n) b = Offset n b"
| "apply_call (COrderBy c d) b = OrderBy c d b"

definition run_calls :: "bop list \<Rightarrow> Builder" where
  "run_calls cs = fold apply_call cs NewBuilder"

text \<open>The positional arguments, in call order.\<close>

fun call_args :: "bop list \<Rightarrow> goarg list" where
  "call_args [] = []"
| "call_args (CConditionp l op v # cs) = v # call_args cs"
| "call_args (c # cs) = call_args cs"

text \<open>The conditions in call order; the \<open>k\<close>-th positional one refers to \<open>$k\<close>.\<close>

fun call_conditions :: "nat \<Rightarrow> bop list \<Rightarrow> string list" where
  "call_conditions k [] = []"
| "call_conditions k (CConditionf f as # cs) = sprintf f as # call_conditions k cs"
| "call_conditions k (CCondition e # cs) = e # call_conditions k cs"
| "call_conditions k (CConditionp l op v # cs) =
     (l @ '' '' @ op @ '' $'' @ format_nat (Suc k)) # call_conditions (Suc k) cs"
| "call_conditions k (c # cs) = call_conditions k cs"

text \<open>The last \<open>SELECT\<close>, \<open>ORDER BY\<close>, \<open>LIMIT\<close> and \<open>OFFSET\<close> win.\<close>

fun last_select :: "bop list \<Rightarrow> string" where
  "last_select [] = []"
| "last_select (CSelectAll t a # cs) =
     (if last_select cs = [] then ''SELECT * FROM '' @ t @ (if a = [] then [] else '' AS '' @ a)
      else last_select cs)"
| "last_select (c # cs) = last_select cs"

fun last_order :: "bop list \<Rightarrow> string" where
  "last_order [] = []"
| "last_order (COrderBy c d # cs) =
     (if last_order cs = [] then ''ORDER BY '' @ c @ '' '' @ direction_text d else last_order cs)"
| "last_order (c # cs) = last_order cs"

fun last_limit :: "bop list \<Rightarrow> string" where
  "last_limit [] = []"
| "last_limit (CLimit n # cs) =
     (if last_limit cs = [] then ''LIMIT '' @ format_int n else last_limit cs)"
| "last_limit (c # cs) = last_limit cs"

fun last_offset :: "bop list \<Rightarrow> string" where
  "last_offset [] = []"
| "last_offset (COffset n # cs) =
     (if last_offset cs = [] then ''OFFSET '' @ format_int n else last_offset cs)"
| "last_offset (c # cs) = last_offset cs"

definition where_spec :: "string list \<Rightarrow> string" where
  "where_spec conds = (if conds = [] then [] else ''WHERE '' @ join '' AND '' conds)"

definition query_spec :: "bop list \<Rightarrow> string" where
  "query_spec cs = last_select cs @ concat (map (\<lambda>s. if s = [] then [] else '' '' @ s)
     [where_spec (call_conditions 0 cs), last_order cs, last_limit cs, last_offset cs])"

section \<open>The builder implements the abstract view\<close>

definition builder_inv :: "Builder \<Rightarrow> bool" where
  "builder_inv b \<longleftrightarrow>
     conditionCounter b = int (length (builderArgs b)) \<and>
     (hasWhere b \<longleftrightarrow> whereClauses b \<noteq> [])"

lemma builder_inv_NewBuilder: "builder_inv NewBuilder"
  by (simp add: builder_inv_def NewBuilder_def)

lemma builder_inv_apply_call: "builder_inv b \<Longrightarrow> builder_inv (apply_call c b)"
  by (cases c) (auto simp: builder_inv_def builder_defs Let_def)

lemma call_args_append: "call_args (cs @ ds) = call_args cs @ call_args ds"
  by (induction cs rule: call_args.induct) simp_all

lemma call_conditions_append:
  "call_conditions k (cs @ ds) =
     call_conditions k cs @ call_conditions (k + length (call_args cs)) ds"
  by (induction k cs rule: call_conditions.induct) simp_all

lemma last_select_append:
  "last_select (cs @ ds) = (if last_select ds = [] then last_select cs else last_select ds)"
  by (induction cs rule: last_select.induct) simp_all

lemma last_order_append:
  "last_order (cs @ ds) = (if last_order ds = [] then last_order cs else last_order ds)"
  by (induction cs rule: last_order.induct) simp_all

lemma last_limit_append:
  "last_limit (cs @ ds) = (if last_limit ds = [] then last_limit cs else last_limit ds)"
  by (induction cs rule: last_limit.induct) simp_all

lemma last_offset_append:
  "last_offset (cs @ ds) = (if last_offset ds = [] then last_offset cs else last_offset ds)"
  by (induction cs rule: last_offset.induct) simp_all

lemmas spec_append =
  call_args_append call_conditions_append last_select_append last_order_append
  last_limit_append last_offset_append

lemma where_spec_snoc:
  "where_spec (conds @ [e]) =
     where_spec conds @ (if conds = [] then ''WHERE '' else '' AND '') @ e"
  by (simp add: where_spec_def join_snoc)

text \<open>The simulation: after any sequence of calls, the fields hold what the calls say.\<close>

definition simulates :: "bop list \<Rightarrow> Builder \<Rightarrow> bool" where
  "simulates cs b \<longleftrightarrow>
     selectStatement b = last_select cs \<and>
     whereClauses b = where_spec (call_conditions 0 cs) \<and>
     (hasWhere b \<longleftrightarrow> call_conditions 0 cs \<noteq> []) \<and>
     conditionCounter b = int (length (call_args cs)) \<and>
     builderArgs b = call_args cs \<and>
     orderByClauses b = last_order cs \<and>
     builderLimit b = last_limit cs \<and>
     builderOffset b = last_offset cs"

lemma simulates_step: "simulates cs b \<Longrightarrow> simulates (cs @ [c]) (apply_call c b)"
  by (cases c)
     (auto simp: simulates_def builder_defs Let_def spec_append where_spec_snoc format_int_def
        nat_add_distrib split: if_splits)

lemma simulates_run_calls: "simulates cs (run_calls cs)"
proof (induction cs rule: rev_induct)
  case Nil
  then show ?case by (simp add: simulates_def run_calls_def NewBuilder_def where_spec_def)
next
  case (snoc c cs)
  from simulates_step [OF this, of c] show ?case by (simp add: run_calls_def)
qed

lemma simulates_query: "Query (run_calls cs) = query_spec cs \<and> Args (run_calls cs) = call_args cs"
  using simulates_run_calls [of cs]
  by (auto simp: simulates_def Query_def Args_def query_spec_def)

section \<open>Properties\<close>

text \<open>
  C20. After any sequence of calls, with arguments of any type and formats whose verbs have no flags, the query text
  and the arguments are those of the calls: the conditions joined in call order, the k-th positional one with
  placeholder k outside of quotes, its value the k-th argument, and the last select, order, limit and offset.
\<close>

theorem builder_refines_calls:
  "Query (run_calls cs) = query_spec cs \<and> Args (run_calls cs) = call_args cs"
  by (rule simulates_query)

text \<open>The example of the repository's tests with a \<open>float64\<close> argument, and a positional condition.\<close>

lemma builder_example:
  "Query (run_calls [CSelectAll ''products'' ''p'',
     CConditionf ''price < %f'' [AAny ''float64'' (\<lambda>v. if v = CHR ''f'' then ''100.500000'' else ''100.5'')],
     CConditionp ''name'' ''='' (AText ''John''), CLimit 20]) =
   ''SELECT * FROM products AS p WHERE price < 100.500000 AND name = $1 LIMIT 20''"
proof -
  have "format_nat 1 = ''1''" "format_int 20 = ''20''" by code_simp+
  then show ?thesis
    by (simp add: conjunct1 [OF simulates_query] query_spec_def where_spec_def)
qed

end
