(* ===== verification/Util.thy ===== *)
theory Util
  imports Go_Prelude
begin

text \<open>
  Package \<open>internal/util\<close>: \<open>ToPtrSlice\<close>, \<open>ToPtr\<close> and \<open>SliceToCommaSeparated\<close>.
  The first two allocate, so they work on an explicit heap (a list of cells, an address
  is an index). The third renders a list for a SQL \<open>ARRAY[...]\<close>; \<open>sql_literals\<close> is
  how SQL reads such a list of quoted literals back.
\<close>

section \<open>Pointers\<close>

type_synonym 'a heap = "'a list"
type_synonym ptr = nat

definition ToPtr :: "'a \<Rightarrow> 'a heap \<Rightarrow> ptr \<times> 'a heap" where
  "ToPtr x h = (length h, h @ [x])"

text \<open>The loop of \<open>ToPtrSlice\<close>; \<open>x := x\<close> allocates a cell for each iteration.\<close>

primrec ToPtrSlice_loop :: "'a list \<Rightarrow> ptr list \<Rightarrow> 'a heap \<Rightarrow> ptr list \<times> 'a heap" where
  "ToPtrSlice_loop [] result h = (result, h)"
| "ToPtrSlice_loop (x # xs) result h =
     (case ToPtr x h of (p, h') \<Rightarrow> ToPtrSlice_loop xs (result @ [p]) h')"

definition ToPtrSlice :: "'a list \<Rightarrow> 'a heap \<Rightarrow> ptr list \<times> 'a heap" where
  "ToPtrSlice xs h = ToPtrSlice_loop xs [] h"

section \<open>Comma-separated lists\<close>

definition quote_sym :: char where
  "quote_sym = CHR 0x27"

primrec quote_items :: "string list \<Rightarrow> string list \<Rightarrow> string list" where
  "quote_items [] quoted = quoted"
| "quote_items (s # ss) quoted =
     quote_items ss (quoted @ [[quote_sym] @ s @ [quote_sym]])"

definition SliceToCommaSeparated :: "string list \<Rightarrow> bool \<Rightarrow> string" where
  "SliceToCommaSeparated xs quoteItems =
     (let ys = (if quoteItems then quote_items xs [] else xs) in join '','' ys)"

text \<open>
  How SQL reads a comma-separated list of string literals: a literal ends at the next
  quote, a doubled quote stands for a quote inside it.
\<close>

fun literal_rest :: "string \<Rightarrow> (string \<times> string) option" where
  "literal_rest [] = None"
| "literal_rest (c # cs) =
     (if c = quote_sym then
        (case cs of
           [] \<Rightarrow> Some ([], [])
         | d # ds \<Rightarrow>
             if d = quote_sym then map_option (\<lambda>(l, r). (quote_sym # l, r)) (literal_rest ds)
             else Some ([], cs))
      else map_option (\<lambda>(l, r). (c # l, r)) (literal_rest cs))"

lemma literal_rest_shorter: "literal_rest s = Some (l, r) \<Longrightarrow> length r < length s"
  by (induction s arbitrary: l r rule: literal_rest.induct)
     (fastforce split: if_splits list.splits)+

function sql_literals :: "string \<Rightarrow> string list option" where
  "sql_literals s =
     (case s of
        [] \<Rightarrow> None
      | c # t \<Rightarrow>
          if c \<noteq> quote_sym then None
          else (case literal_rest t of
              None \<Rightarrow> None
            | Some (l, r) \<Rightarrow>
                if r = [] then Some [l]
                else if hd r = CHR '','' then map_option (Cons l) (sql_literals (tl r))
                else None))"
  by pat_completeness auto
termination
  by (relation "measure length") (auto dest!: literal_rest_shorter)

declare sql_literals.simps [simp del]

section \<open>Pointers are fresh and hold the elements\<close>

lemma ToPtrSlice_loop_eq:
  "ToPtrSlice_loop xs ps h = (ps @ [length h ..< length h + length xs], h @ xs)"
proof (induction xs arbitrary: ps h)
  case Nil
  then show ?case by simp
next
  case (Cons x xs)
  have "[length h ..< length h + length (x # xs)]
      = length h # [Suc (length h) ..< Suc (length h) + length xs]"
    by (simp add: upt_rec)
  with Cons.IH [of "ps @ [length h]" "h @ [x]"] show ?case
    by (simp add: ToPtr_def)
qed

lemma ToPtrSlice_eq: "ToPtrSlice xs h = ([length h ..< length h + length xs], h @ xs)"
  by (simp add: ToPtrSlice_def ToPtrSlice_loop_eq)

section \<open>Quoted lists\<close>

lemma quote_items_eq: "quote_items xs acc = acc @ map (\<lambda>s. quote_sym # s @ [quote_sym]) xs"
  by (induction xs arbitrary: acc) simp_all

lemma literal_rest_closed:
  "quote_sym \<notin> set s \<Longrightarrow> r = [] \<or> hd r \<noteq> quote_sym \<Longrightarrow>
     literal_rest (s @ quote_sym # r) = Some (s, r)"
  by (induction s) (auto split: list.split)

lemma comma_not_quote [simp]: "CHR '','' \<noteq> quote_sym"
  by (simp add: quote_sym_def)

lemma sql_literals_join:
  assumes "xs \<noteq> []" and "\<And>x. x \<in> set xs \<Longrightarrow> quote_sym \<notin> set x"
  shows "sql_literals (join '','' (map (\<lambda>s. quote_sym # s @ [quote_sym]) xs)) = Some xs"
  using assms
proof (induction xs)
  case Nil
  then show ?case by simp
next
  case (Cons x xs)
  show ?case
  proof (cases "xs = []")
    case True
    with Cons.prems show ?thesis
      using literal_rest_closed [of x "[]"] by (simp add: sql_literals.simps)
  next
    case False
    let ?rest = "join '','' (map (\<lambda>s. quote_sym # s @ [quote_sym]) xs)"
    have "literal_rest (x @ quote_sym # CHR '','' # ?rest) = Some (x, CHR '','' # ?rest)"
      using Cons.prems by (intro literal_rest_closed) simp_all
    moreover have "sql_literals ?rest = Some xs"
      using Cons False by simp
    ultimately show ?thesis
      using False by (subst sql_literals.simps) simp
  qed
qed

section \<open>Properties\<close>

text \<open>
  A list of strings without quotes, rendered with quoted items, is read back by SQL as the
  same list of literals.
\<close>

theorem SliceToCommaSeparated_roundtrip:
  assumes "xs \<noteq> []" and "\<forall>x \<in> set xs. quote_sym \<notin> set x"
  shows "sql_literals (SliceToCommaSeparated xs True) = Some xs"
  using assms by (simp add: SliceToCommaSeparated_def quote_items_eq sql_literals_join)

theorem SliceToCommaSeparated_roundtrip_witness:
  "SliceToCommaSeparated [''dev'', ''ops''] True = [quote_sym] @ ''dev'' @ [quote_sym] @ '','' @ [quote_sym] @ ''ops'' @ [quote_sym] \<and>
   sql_literals (SliceToCommaSeparated [''dev'', ''ops''] True) = Some [''dev'', ''ops'']"
  using SliceToCommaSeparated_roundtrip [of "[''dev'', ''ops'']"]
  by (simp add: quote_sym_def SliceToCommaSeparated_def)

text \<open>
  Items are quoted but not escaped: one item with a quote, a comma and a quote inside it
  renders as the two items around them, so the text does not determine the list.
\<close>

theorem SliceToCommaSeparated_not_escaped:
  "SliceToCommaSeparated [a @ [quote_sym] @ '','' @ [quote_sym] @ b] True = SliceToCommaSeparated [a, b] True"
  by (simp add: SliceToCommaSeparated_def)

end
