(* ===== verification/Repo_Applications.thy ===== *)
theory Repo_Applications
  imports Repo_Queues Sql_Builder Util
begin

text \<open>
  \<open>internal/database/repository/application.go\<close> and \<open>filter.go\<close>: \<open>UpsertApplications\<close>,
  the filters and the two readers. The readers hand the text and the arguments that the
  builder makes to the database; what the database answers to a text is a parameter
  \<open>run_sql\<close>. The table is an interpretation of \<open>upsert_loop\<close>, with the write of one
  application as its operation.
\<close>

section \<open>Filters\<close>

text \<open>Times are instants, of which the filters use the Unix time in milliseconds.\<close>

record ApplicationFilters =
  SubmissionStartTime :: "int option"
  SubmissionEndTime :: "int option"
  FinishedStartTime :: "int option"
  FinishedEndTime :: "int option"
  filter_User :: "string option"
  filter_Groups :: "string slice"
  filter_Offset :: "int option"
  filter_Limit :: "int option"

definition applyLimitAndOffset :: "int option \<Rightarrow> int option \<Rightarrow> Builder \<Rightarrow> Builder" where
  "applyLimitAndOffset limit offset b =
     (let b1 = (case limit of None \<Rightarrow> b | Some n \<Rightarrow> Limit n b) in
      case offset of None \<Rightarrow> b1 | Some n \<Rightarrow> Offset n b1)"

definition when_some :: "'a option \<Rightarrow> ('a \<Rightarrow> Builder \<Rightarrow> Builder) \<Rightarrow> Builder \<Rightarrow> Builder" where
  "when_some x f b = (case x of None \<Rightarrow> b | Some v \<Rightarrow> f v b)"

definition applyApplicationFilters :: "ApplicationFilters \<Rightarrow> Builder \<Rightarrow> Builder" where
  "applyApplicationFilters filters b =
     (let b1 = when_some (SubmissionStartTime filters) (\<lambda>t. Conditionp ''submission_time'' ''>='' (AInt t)) b;
          b2 = when_some (SubmissionEndTime filters) (\<lambda>t. Conditionp ''submission_time'' ''<='' (AInt t)) b1;
          b3 = when_some (FinishedStartTime filters) (\<lambda>t. Conditionp ''finished_time'' ''>='' (AInt t)) b2;
          b4 = when_some (FinishedEndTime filters) (\<lambda>t. Conditionp ''finished_time'' ''<='' (AInt t)) b3;
          b5 = (if length (slice_list (filter_Groups filters)) > 0
                then Conditionf ''groups && ARRAY[%s]''
                  [AText (SliceToCommaSeparated (slice_list (filter_Groups filters)) True)] b4
                else b4);
          b6 = when_some (filter_User filters) (\<lambda>u. Conditionp ''\"user\"'' ''='' (AText u)) b5
      in applyLimitAndOffset (filter_Limit filters) (filter_Offset filters) b6)"

section \<open>UpsertApplications\<close>

definition coalesce :: "'a option \<Rightarrow> 'a option \<Rightarrow> 'a option" where
  "coalesce a b = (case a of None \<Rightarrow> b | Some x \<Rightarrow> Some x)"

definition app_key :: "AppRow \<Rightarrow> string \<times> string \<times> string" where
  "app_key r = (app_Partition (ar_info r), app_QueueName (ar_info r), app_ApplicationID (ar_info r))"

text \<open>The \<open>DO UPDATE SET\<close> list; a nil map, slice or pointer is a \<open>NULL\<close>.\<close>

definition app_update :: "ApplicationDAOInfo \<Rightarrow> ApplicationDAOInfo \<Rightarrow> ApplicationDAOInfo" where
  "app_update old e = old\<lparr>
     app_UsedResource := coalesce (app_UsedResource e) (app_UsedResource old),
     app_MaxUsedResource := coalesce (app_MaxUsedResource e) (app_MaxUsedResource old),
     app_PendingResource := coalesce (app_PendingResource e) (app_PendingResource old),
     app_FinishedTime := coalesce (app_FinishedTime e) (app_FinishedTime old),
     app_Requests := coalesce (app_Requests e) (app_Requests old),
     app_Allocations := coalesce (app_Allocations e) (app_Allocations old),
     app_State := app_State e,
     app_RejectedMessage := app_RejectedMessage e,
     app_StateLog := coalesce (app_StateLog e) (app_StateLog old),
     app_PlaceholderData := coalesce (app_PlaceholderData e) (app_PlaceholderData old),
     app_HasReserved := app_HasReserved e,
     app_Reservations := coalesce (app_Reservations e) (app_Reservations old),
     app_MaxRequestPriority := app_MaxRequestPriority e\<rparr>"

definition app_merge :: "AppRow \<Rightarrow> AppRow \<Rightarrow> AppRow" where
  "app_merge old new = old\<lparr>ar_info := app_update (ar_info old) (ar_info new)\<rparr>"

definition app_row :: "string \<Rightarrow> string \<times> ApplicationDAOInfo \<Rightarrow> AppRow" where
  "app_row u x = \<lparr>ar_id = u, ar_queue_id = fst x, ar_info = snd x\<rparr>"

definition put_apps :: "AppRow list \<Rightarrow> db \<Rightarrow> db" where
  "put_apps t d = d\<lparr>applications_t := t\<rparr>"

text \<open>Column \<open>queue_id\<close> is \<open>NOT NULL\<close>, which is checked before the conflict.\<close>

definition upsert_app_stmt :: "string \<Rightarrow> string option \<Rightarrow> ApplicationDAOInfo \<Rightarrow> db \<Rightarrow> db result" where
  "upsert_app_stmt u queueId a d =
     (case queueId of
        None \<Rightarrow> Inl not_null_violation
      | Some q \<Rightarrow> upsert_stmt app_key ar_id app_merge applications_t put_apps (app_row u (q, a)) d)"

definition UpsertApplication :: "pgenv \<Rightarrow> ApplicationDAOInfo \<Rightarrow> db \<Rightarrow> goerror option \<times> db" where
  "UpsertApplication env a d =
     (case getQueueID env (app_QueueName a) (app_Partition a) d of
        (Inl e, d1) \<Rightarrow> (Some (Errorf_v ''could not get queue_id from DB: '' e), d1)
      | (Inr queueId, d1) \<Rightarrow>
          (case new_uuid env d1 of (u, d2) \<Rightarrow> pg_exec env (upsert_app_stmt u queueId a) d2))"

definition UpsertApplications :: "pgenv \<Rightarrow> ApplicationDAOInfo list \<Rightarrow> db \<Rightarrow> goerror option \<times> db" where
  "UpsertApplications env apps d = for_each (UpsertApplication env) apps d"

section \<open>Readers\<close>

text \<open>
  \<open>run_sql\<close> is the database's answer to a query text with positional arguments: it refuses the query, for
  example because of its syntax, or delivers rows, up to an error if there is one while it is executed.
\<close>

type_synonym sql_answer = "string \<Rightarrow> goarg list \<Rightarrow> db \<Rightarrow> AppRow list result"

definition all_apps_builder :: "ApplicationFilters \<Rightarrow> Builder" where
  "all_apps_builder filters = applyApplicationFilters filters
     (OrderBy ''a.submission_time'' OrderByDescending (SelectAll ''applications'' ''a'' NewBuilder))"

definition GetAllApplications ::
    "sql_answer \<Rightarrow> pgenv \<Rightarrow> ApplicationFilters \<Rightarrow> db \<Rightarrow> AppRow list result \<times> db" where
  "GetAllApplications run_sql env filters d =
     (let queryBuilder = all_apps_builder filters; query = Query queryBuilder; args = Args queryBuilder in
      pg_select env ''could not get applications from DB: '' ''could not scan application from DB: ''
        (run_sql query args) d)"

definition queue_apps_builder :: "string \<Rightarrow> string \<Rightarrow> ApplicationFilters \<Rightarrow> Builder" where
  "queue_apps_builder pname queue filters = applyApplicationFilters filters
     (OrderBy ''submission_time'' OrderByDescending
       (Conditionp ''partition'' ''='' (AText pname)
         (Conditionp ''queue_name'' ''='' (AText queue)
           (SelectAll ''applications'' '''' NewBuilder))))"

definition GetAppsPerPartitionPerQueue ::
    "sql_answer \<Rightarrow> pgenv \<Rightarrow> string \<Rightarrow> string \<Rightarrow> ApplicationFilters \<Rightarrow> db \<Rightarrow> AppRow list result \<times> db" where
  "GetAppsPerPartitionPerQueue run_sql env pname queue filters d =
     (let queryBuilder = queue_apps_builder pname queue filters;
          query = Query queryBuilder; args = Args queryBuilder in
      pg_select env ''could not get applications from DB: '' ''could not scan application from DB: ''
        (run_sql query args) d)"

section \<open>The table\<close>

text \<open>The write of an application whose queue was found.\<close>

definition write_application :: "pgenv \<Rightarrow> string \<times> ApplicationDAOInfo \<Rightarrow> db \<Rightarrow> goerror option \<times> db" where
  "write_application env x d =
     (case new_uuid env d of (u, d1) \<Rightarrow>
        pg_exec env (upsert_stmt app_key ar_id app_merge applications_t put_apps (app_row u x)) d1)"

definition dao_app_key :: "ApplicationDAOInfo \<Rightarrow> string \<times> string \<times> string" where
  "dao_app_key a = (app_Partition a, app_QueueName a, app_ApplicationID a)"

interpretation app_tab: upsert_loop app_key ar_id app_merge applications_t put_apps
    app_row "\<lambda>x. dao_app_key (snd x)" "\<lambda>e. e" write_application
  by unfold_locales
     (simp_all add: app_key_def app_merge_def app_update_def put_apps_def app_row_def dao_app_key_def
        write_application_def split: prod.split option.split)

lemma UpsertApplication_found:
  assumes "getQueueID env (app_QueueName a) (app_Partition a) d = (Inr (Some q), d1)"
  shows "UpsertApplication env a d = write_application env (q, a) d1"
  using assms
  by (simp add: UpsertApplication_def write_application_def upsert_app_stmt_def [abs_def])

text \<open>
  Every application refers to a row of table \<open>queues\<close> with its partition and its queue name.
\<close>

definition app_refs :: "db \<Rightarrow> bool" where
  "app_refs d \<longleftrightarrow> (\<forall>r \<in> set (applications_t d). \<exists>q \<in> set (queues_t d).
     qr_id q = ar_queue_id r \<and> queue_key q = (app_Partition (ar_info r), app_QueueName (ar_info r)))"

definition apps_inv :: "pgenv \<Rightarrow> db \<Rightarrow> bool" where
  "apps_inv env d \<longleftrightarrow>
     table_wf app_key ar_id (applications_t d) \<and> ar_id ` set (applications_t d) \<subseteq> drawn env d \<and> app_refs d"

text \<open>One iteration, in any environment.\<close>

lemma UpsertApplication_cases:
  assumes "UpsertApplication env a d = (res, d')"
  obtains (failed) e where "res = Some e" "applications_t d' = applications_t d" "queues_t d' = queues_t d"
      "uuidCtr d \<le> uuidCtr d'"
    | (ok) r d1 where "find (alive_queue (app_QueueName a) (app_Partition a)) (queues_t d) = Some r"
        "applications_t d1 = applications_t d" "queues_t d1 = queues_t d" "uuidCtr d1 = uuidCtr d"
        "write_application env (qr_id r, a) d1 = (None, d')" "res = None" "queues_t d' = queues_t d"
proof -
  have w: "queues_t d2 = queues_t d1 \<and> uuidCtr d2 = Suc (uuidCtr d1) \<and> (r2 \<noteq> None \<longrightarrow> applications_t d2 = applications_t d1)"
    if "(case new_uuid env d1 of (u, d1) \<Rightarrow> pg_exec env (upsert_app_stmt u q a) d1) = (r2, d2)" for q d1 r2 d2
    using that unfolding new_uuid_def prod.case
    by (elim pg_exec_cases)
       (auto simp: upsert_app_stmt_def upsert_stmt_def put_apps_def split: option.splits sum.splits)
  obtain rq d1 where q: "getQueueID env (app_QueueName a) (app_Partition a) d = (rq, d1)" by fastforce
  show thesis
    using q
  proof (cases rule: getQueueID_cases)
    case (failed e k)
    with q assms show thesis by (intro that(1)) (auto simp: UpsertApplication_def)
  next
    case top
    then have c: "(case new_uuid env d of (u, d1) \<Rightarrow> pg_exec env (upsert_app_stmt u None a) d1) = (res, d')"
      using q assms by (simp add: UpsertApplication_def)
    have "\<exists>e. res = Some e"
      using c unfolding new_uuid_def prod.case by (elim pg_exec_cases) (auto simp: upsert_app_stmt_def)
    then obtain e where "res = Some e" ..
    with w [OF c] show thesis by (intro that(1) [of e]) simp_all
  next
    case (found r k)
    then have c: "(case new_uuid env d1 of (u, d1) \<Rightarrow> pg_exec env (upsert_app_stmt u (Some (qr_id r)) a) d1) = (res, d')"
      using q assms by (simp add: UpsertApplication_def)
    have wr: "write_application env (qr_id r, a) d1 = (res, d')"
      using UpsertApplication_found [of env a d "qr_id r" d1] q found assms by simp
    show thesis
    proof (cases res)
      case None
      with wr found w [OF c] show thesis by (intro that(2) [of r d1]) auto
    next
      case (Some e)
      with w [OF c] found show thesis by (intro that(1)) auto
    qed
  qed
qed

lemma app_refs_upsert:
  assumes "app_refs d" and "r \<in> set (queues_t d)" and "queue_key r = (app_Partition a, app_QueueName a)"
    and "queues_t d' = queues_t d"
    and "insert_on_conflict app_key ar_id app_merge (app_row u (qr_id r, a)) (applications_t d) = Inr (applications_t d')"
  shows "app_refs d'"
  using assms(5)
proof (cases rule: app_tab.upsert_cases)
  case update
  have k: "ar_queue_id (app_merge x y) = ar_queue_id x" "app_Partition (ar_info (app_merge x y)) = app_Partition (ar_info x)"
    "app_QueueName (ar_info (app_merge x y)) = app_QueueName (ar_info x)" for x y
    by (simp_all add: app_merge_def app_update_def)
  show ?thesis
    using assms(1,4) update(2) by (auto simp: app_refs_def k)
next
  case insert
  then show ?thesis using assms(1-4) by (auto simp: app_refs_def app_row_def)
qed

lemma UpsertApplication_inv:
  assumes "UpsertApplication env a d = (res, d')" and "inj (freshUUID env)" and "apps_inv env d"
  shows "apps_inv env d'"
  using assms(1)
proof (cases rule: UpsertApplication_cases)
  case (failed e)
  have "drawn env d \<subseteq> drawn env d'" using failed(4) by (auto simp: drawn_def)
  then show ?thesis using failed assms(3) by (auto simp: apps_inv_def app_refs_def)
next
  case (ok r d1)
  have "app_tab.ids_drawn env d1"
    using ok(2,4) assms(3) by (simp add: app_tab.ids_drawn_def apps_inv_def drawn_eq [OF ok(4)])
  then have "table_wf app_key ar_id (applications_t d')" "app_tab.ids_drawn env d'"
    using app_tab.op_keeps [OF ok(5) assms(2)] ok(2) assms(3) by (simp_all add: apps_inv_def)
  moreover have "insert_on_conflict app_key ar_id app_merge
      (app_row (freshUUID env (uuidCtr d1)) (qr_id r, a)) (applications_t d) = Inr (applications_t d')"
    using ok(5) by (cases rule: app_tab.op_cases) (simp_all add: ok(2))
  then have "app_refs d'"
    using assms(3) ok(7) find_alive_queueD [OF ok(1)] by (auto intro: app_refs_upsert [of d r a d'] simp: apps_inv_def)
  ultimately show ?thesis by (simp add: apps_inv_def app_tab.ids_drawn_def)
qed

lemma UpsertApplications_inv:
  assumes "UpsertApplications env as d = (res, d')" and "inj (freshUUID env)" and "apps_inv env d"
  shows "apps_inv env d'"
  using assms(1,3) unfolding UpsertApplications_def
proof (induction as arbitrary: d)
  case Nil
  then show ?case by simp
next
  case (Cons a as)
  obtain r1 d1 where o1: "UpsertApplication env a d = (r1, d1)" by fastforce
  have k: "apps_inv env d1" using UpsertApplication_inv [OF o1 assms(2) Cons.prems(2)] .
  show ?case using Cons.prems(1) o1 k Cons.IH [of d1] by (cases r1) auto
qed

section \<open>What is stored\<close>

definition stored_app :: "string \<times> string \<times> string \<Rightarrow> db \<Rightarrow> ApplicationDAOInfo option" where
  "stored_app k d = map_option ar_info (lookup_row app_key k (applications_t d))"

lemma UpsertApplication_ok:
  assumes "healthy_env env" and "app_tab.ids_drawn env d" and "queues_t d = Q"
    and "app_QueueName a \<noteq> []" and "find (alive_queue (app_QueueName a) (app_Partition a)) Q = Some r"
  shows "\<exists>u d'. UpsertApplication env a d = (None, d') \<and> app_tab.ids_drawn env d' \<and> queues_t d' = Q \<and>
    insert_on_conflict app_key ar_id app_merge (app_row u (qr_id r, a)) (applications_t d) = Inr (applications_t d')"
proof -
  let ?d1 = "d\<lparr>stmtCtr := Suc (stmtCtr d)\<rparr>"
  have q: "getQueueID env (app_QueueName a) (app_Partition a) d = (Inr (Some (qr_id r)), ?d1)"
    using assms by (simp add: getQueueID_def)
  have "app_tab.ids_drawn env ?d1"
    using assms(2) by (simp add: app_tab.ids_drawn_def drawn_def)
  then obtain d' where d': "write_application env (qr_id r, a) ?d1 = (None, d')" "app_tab.ids_drawn env d'"
      "insert_on_conflict app_key ar_id app_merge (app_row (freshUUID env (uuidCtr ?d1)) (qr_id r, a))
        (applications_t ?d1) = Inr (applications_t d')"
    by (rule app_tab.op_succeeds [OF assms(1)])
  have u: "UpsertApplication env a d = (None, d')"
    using UpsertApplication_found [OF q] d'(1) by simp
  then have "queues_t d' = Q"
    using assms(3) by (cases rule: UpsertApplication_cases) simp_all
  with u d' show ?thesis by auto
qed

lemma UpsertApplications_stores:
  assumes "healthy_env env" and "apps_inv env d" and "distinct (map dao_app_key as)"
    and "\<forall>a \<in> set as. app_QueueName a \<noteq> [] \<and> live (app_Partition a, app_QueueName a) (queues_t d)"
  shows "\<exists>d'. UpsertApplications env as d = (None, d') \<and>
    (\<forall>a \<in> set as. stored_app (dao_app_key a) d' =
       Some (case stored_app (dao_app_key a) d of None \<Rightarrow> a | Some old \<Rightarrow> app_update old a)) \<and>
    (\<forall>k. k \<notin> dao_app_key ` set as \<longrightarrow> stored_app k d' = stored_app k d)"
proof -
  let ?Q = "queues_t d"
  let ?qid = "\<lambda>a. case find (alive_queue (app_QueueName a) (app_Partition a)) ?Q of None \<Rightarrow> [] | Some r \<Rightarrow> qr_id r"
  let ?row = "\<lambda>u a. app_row u (?qid a, a)"
  have "\<exists>d'. for_each (UpsertApplication env) as d = (None, d') \<and>
      (app_tab.ids_drawn env d' \<and> queues_t d' = ?Q) \<and>
      (\<forall>a \<in> set as. app_tab.merged ?row a (lookup_row app_key (dao_app_key a) (applications_t d))
         (lookup_row app_key (dao_app_key a) (applications_t d'))) \<and>
      (\<forall>k. k \<notin> dao_app_key ` set as \<longrightarrow>
         lookup_row app_key k (applications_t d') = lookup_row app_key k (applications_t d))"
  proof (rule app_tab.loop_merges [where tab = applications_t and row = ?row and d = d and
        P = "\<lambda>d. app_tab.ids_drawn env d \<and> queues_t d = ?Q"])
    fix a d2 assume a: "a \<in> set as" and d2: "app_tab.ids_drawn env d2 \<and> queues_t d2 = ?Q"
    obtain r where "find (alive_queue (app_QueueName a) (app_Partition a)) ?Q = Some r"
      using assms(4) a by (cases "find (alive_queue (app_QueueName a) (app_Partition a)) ?Q")
        (fastforce simp: find_None_iff live_def alive_queue_def queue_key_def list_ex_iff)+
    with UpsertApplication_ok [OF assms(1), of d2 ?Q a r] d2 assms(4) a
    show "\<exists>u d'. UpsertApplication env a d2 = (None, d') \<and> (app_tab.ids_drawn env d' \<and> queues_t d' = ?Q) \<and>
        insert_on_conflict app_key ar_id app_merge (?row u a) (applications_t d2) = Inr (applications_t d')"
      by auto
  qed (use assms(2,3) in \<open>simp_all add: app_tab.ids_drawn_def apps_inv_def\<close>)
  then obtain d' where d': "for_each (UpsertApplication env) as d = (None, d')"
      "\<forall>a \<in> set as. app_tab.merged ?row a (lookup_row app_key (dao_app_key a) (applications_t d))
         (lookup_row app_key (dao_app_key a) (applications_t d'))"
      "\<forall>k. k \<notin> dao_app_key ` set as \<longrightarrow>
         lookup_row app_key k (applications_t d') = lookup_row app_key k (applications_t d)"
    by blast
  have "stored_app (dao_app_key a) d' =
       Some (case stored_app (dao_app_key a) d of None \<Rightarrow> a | Some old \<Rightarrow> app_update old a)"
    if mem: "a \<in> set as" for a
  proof -
    let ?old = "lookup_row app_key (dao_app_key a) (applications_t d)"
    obtain u where "lookup_row app_key (dao_app_key a) (applications_t d') =
        Some (case ?old of None \<Rightarrow> ?row u a | Some r \<Rightarrow> app_merge r (?row u a))"
      using bspec [OF d'(2) mem] unfolding app_tab.merged_def by blast
    then show ?thesis
      by (cases ?old) (simp_all add: stored_app_def app_row_def app_merge_def)
  qed
  moreover have "stored_app k d' = stored_app k d" if "k \<notin> dao_app_key ` set as" for k
    unfolding stored_app_def using d'(3) that by metis
  ultimately show ?thesis using d'(1) unfolding UpsertApplications_def by blast
qed

section \<open>The filters as calls of the builder\<close>

definition opt_call :: "'a option \<Rightarrow> ('a \<Rightarrow> bop) \<Rightarrow> bop list" where
  "opt_call x f = (case x of None \<Rightarrow> [] | Some v \<Rightarrow> [f v])"

definition filter_calls :: "ApplicationFilters \<Rightarrow> bop list" where
  "filter_calls f =
     opt_call (SubmissionStartTime f) (\<lambda>t. CConditionp ''submission_time'' ''>='' (AInt t)) @
     opt_call (SubmissionEndTime f) (\<lambda>t. CConditionp ''submission_time'' ''<='' (AInt t)) @
     opt_call (FinishedStartTime f) (\<lambda>t. CConditionp ''finished_time'' ''>='' (AInt t)) @
     opt_call (FinishedEndTime f) (\<lambda>t. CConditionp ''finished_time'' ''<='' (AInt t)) @
     (if slice_list (filter_Groups f) = [] then [] else
        [CConditionf ''groups && ARRAY[%s]'' [AText (SliceToCommaSeparated (slice_list (filter_Groups f)) True)]]) @
     opt_call (filter_User f) (\<lambda>u. CConditionp ''\"user\"'' ''='' (AText u)) @
     opt_call (filter_Limit f) CLimit @ opt_call (filter_Offset f) COffset"

lemma fold_opt_call: "fold apply_call (opt_call x f) b = when_some x (\<lambda>v. apply_call (f v)) b"
  by (cases x) (simp_all add: when_some_def opt_call_def)

lemma applyLimitAndOffset_when:
  "applyLimitAndOffset l off b = when_some off Offset (when_some l Limit b)"
  by (simp add: applyLimitAndOffset_def when_some_def Let_def)

lemma apply_call_fun:
  "apply_call (CConditionp l op v) = Conditionp l op v" "apply_call (CLimit n) = Limit n"
  "apply_call (COffset n) = Offset n" "apply_call (CConditionf f as) = Conditionf f as"
  by (simp_all add: fun_eq_iff)

lemma applyApplicationFilters_calls:
  "applyApplicationFilters f b = fold apply_call (filter_calls f) b"
  unfolding applyApplicationFilters_def Let_def applyLimitAndOffset_when filter_calls_def fold_append comp_def
    fold_opt_call apply_call_fun
  by simp

lemma all_apps_builder_calls:
  "all_apps_builder f = run_calls ([CSelectAll ''applications'' ''a'',
     COrderBy ''a.submission_time'' OrderByDescending] @ filter_calls f)"
  by (simp add: all_apps_builder_def applyApplicationFilters_calls run_calls_def)

lemma queue_apps_builder_calls:
  "queue_apps_builder p q f = run_calls ([CSelectAll ''applications'' '''',
     CConditionp ''queue_name'' ''='' (AText q), CConditionp ''partition'' ''='' (AText p),
     COrderBy ''submission_time'' OrderByDescending] @ filter_calls f)"
  by (simp add: queue_apps_builder_def applyApplicationFilters_calls run_calls_def)

section \<open>Properties\<close>

text \<open>
  What an upsert should make of a known application: \<open>r\<close> has the state, message, reservation flag and priority of
  the new one, every nullable value of the new one that is not nil, and all else of the old one.
\<close>

definition replaced :: "(ApplicationDAOInfo \<Rightarrow> 'a option) \<Rightarrow> ApplicationDAOInfo \<Rightarrow> ApplicationDAOInfo \<Rightarrow> ApplicationDAOInfo \<Rightarrow> bool" where
  "replaced field old new r \<longleftrightarrow> field r = (if field new = None then field old else field new)"

definition merged_app :: "ApplicationDAOInfo \<Rightarrow> ApplicationDAOInfo \<Rightarrow> ApplicationDAOInfo \<Rightarrow> bool" where
  "merged_app old new r \<longleftrightarrow>
     app_State r = app_State new \<and> app_RejectedMessage r = app_RejectedMessage new \<and>
     app_HasReserved r = app_HasReserved new \<and> app_MaxRequestPriority r = app_MaxRequestPriority new \<and>
     replaced app_UsedResource old new r \<and> replaced app_MaxUsedResource old new r \<and>
     replaced app_PendingResource old new r \<and> replaced app_FinishedTime old new r \<and>
     replaced app_Requests old new r \<and> replaced app_Allocations old new r \<and> replaced app_StateLog old new r \<and>
     replaced app_PlaceholderData old new r \<and> replaced app_Reservations old new r \<and>
     dao_app_key r = dao_app_key old \<and> app_SubmissionTime r = app_SubmissionTime old \<and>
     app_User r = app_User old \<and> app_Groups r = app_Groups old"

lemma app_update_merged: "merged_app old new (app_update old new)"
  by (simp add: merged_app_def app_update_def replaced_def coalesce_def dao_app_key_def split: option.split)

text \<open>
  C22. \<open>UpsertApplications\<close> on applications with different keys, each in a live queue, succeeds on
  a healthy connection: a new application is stored as it is, a known one takes the new state,
  message, reservation flag and priority, and the other values only where they are not nil; all
  other applications are untouched.
\<close>

theorem UpsertApplications_correct:
  assumes "healthy_env env" and "apps_inv env d" and "distinct (map dao_app_key as)"
    and "\<forall>a \<in> set as. app_QueueName a \<noteq> [] \<and> live (app_Partition a, app_QueueName a) (queues_t d)"
  shows "\<exists>d'. UpsertApplications env as d = (None, d') \<and>
    (\<forall>a \<in> set as. \<exists>r. stored_app (dao_app_key a) d' = Some r \<and>
       (case stored_app (dao_app_key a) d of None \<Rightarrow> r = a | Some old \<Rightarrow> merged_app old a r)) \<and>
    (\<forall>k. k \<notin> dao_app_key ` set as \<longrightarrow> stored_app k d' = stored_app k d)"
proof -
  obtain d' where "UpsertApplications env as d = (None, d')"
    and st: "\<forall>a \<in> set as. stored_app (dao_app_key a) d' =
       Some (case stored_app (dao_app_key a) d of None \<Rightarrow> a | Some old \<Rightarrow> app_update old a)"
    and "\<forall>k. k \<notin> dao_app_key ` set as \<longrightarrow> stored_app k d' = stored_app k d"
    using UpsertApplications_stores [OF assms] by blast
  moreover have "\<exists>r. stored_app (dao_app_key a) d' = Some r \<and>
      (case stored_app (dao_app_key a) d of None \<Rightarrow> r = a | Some old \<Rightarrow> merged_app old a r)" if "a \<in> set as" for a
    using st that by (auto simp: app_update_merged split: option.split)
  ultimately show ?thesis by blast
qed

definition demo_app :: ApplicationDAOInfo where
  "demo_app = \<lparr>app_ApplicationID = ''app-1'', app_UsedResource = None, app_MaxUsedResource = None,
     app_PendingResource = None, app_Partition = ''default'', app_QueueName = ''root'', app_SubmissionTime = 1,
     app_FinishedTime = None, app_Requests = None, app_Allocations = None, app_State = ''Running'',
     app_User = ''u'', app_Groups = None, app_RejectedMessage = '''', app_StateLog = None,
     app_PlaceholderData = None, app_HasReserved = False, app_Reservations = None, app_MaxRequestPriority = 0\<rparr>"

text \<open>A stored application that is finished; the new values have another state and no finished time.\<close>

definition demo_finished_db :: db where
  "demo_finished_db = demo_queue_db\<lparr>applications_t :=
     [\<lparr>ar_id = ''1'', ar_queue_id = ''0'', ar_info = demo_app\<lparr>app_FinishedTime := Some 9\<rparr>\<rparr>]\<rparr>"

lemma demo_finished_db_inv: "apps_inv demo_env demo_finished_db"
  by (simp add: apps_inv_def table_wf_def app_refs_def demo_finished_db_def demo_queue_db_def demo_app_def queue_key_def drawn_def
      demo_env_def numeral_2_eq_2 lessThan_Suc format_nat_small)

theorem UpsertApplications_correct_witness:
  "\<exists>d' r. UpsertApplications demo_env [demo_app\<lparr>app_State := ''Failed''\<rparr>] demo_finished_db = (None, d') \<and>
     stored_app (''default'', ''root'', ''app-1'') d' = Some r \<and> app_State r = ''Failed'' \<and> app_FinishedTime r = Some 9"
proof -
  let ?new = "demo_app\<lparr>app_State := ''Failed''\<rparr>"
  have old: "stored_app (''default'', ''root'', ''app-1'') demo_finished_db = Some (demo_app\<lparr>app_FinishedTime := Some 9\<rparr>)"
    by (simp add: stored_app_def lookup_row_def demo_finished_db_def app_key_def demo_app_def)
  have key: "dao_app_key ?new = (''default'', ''root'', ''app-1'')"
    and queue: "app_QueueName ?new = ''root''" "app_Partition ?new = ''default''"
    by (simp_all add: dao_app_key_def demo_app_def)
  have "live (''default'', ''root'') (queues_t demo_finished_db)"
    by (simp add: live_def demo_finished_db_def demo_queue_db_def queue_key_def)
  then obtain d' r where d': "UpsertApplications demo_env [?new] demo_finished_db = (None, d')"
    "stored_app (''default'', ''root'', ''app-1'') d' = Some r" "merged_app (demo_app\<lparr>app_FinishedTime := Some 9\<rparr>) ?new r"
    using UpsertApplications_correct [OF healthy_demo_env demo_finished_db_inv, of "[?new]"] old key queue by auto
  have "app_State r = ''Failed''" "app_FinishedTime r = Some 9"
    using d'(3) by (simp_all add: merged_app_def replaced_def demo_app_def)
  with d'(1,2) show ?thesis by blast
qed

text \<open>
  C28. An application whose queue is not a live row of the table is refused and nothing is
  written, on every connection.
\<close>

theorem UpsertApplications_unknown_queue:
  assumes "\<not> live (app_Partition a, app_QueueName a) (queues_t d)"
  shows "fst (UpsertApplications env (a # as) d) \<noteq> None \<and>
    applications_t (snd (UpsertApplications env (a # as) d)) = applications_t d"
proof -
  obtain res d' where u: "UpsertApplication env a d = (res, d')" by fastforce
  then have "\<exists>e. res = Some e \<and> applications_t d' = applications_t d"
  proof (cases rule: UpsertApplication_cases)
    case (ok r d1)
    then show ?thesis
      using assms find_alive_queueD [OF ok(1)] by (auto simp: live_def list_ex_iff)
  qed blast
  with u show ?thesis by (auto simp: UpsertApplications_def)
qed

theorem UpsertApplications_unknown_queue_witness:
  "fst (UpsertApplications demo_env [demo_app] empty_db) \<noteq> None"
  using UpsertApplications_unknown_queue [of demo_app empty_db] by (simp add: live_def empty_db_def)

end
