(* ===== verification/Repository.thy ===== *)
theory Repository
  imports Repo_Partitions Repo_Nodes Repo_History Repo_Queues Repo_Applications
begin

text \<open>
  \<open>internal/database/repository/repository.go\<close> and \<open>postgres.go\<close>: the interface \<open>Repository\<close> as a record
  of its eighteen methods over a state, and \<open>PostgresRepository\<close>, whose methods are the definitions of the
  \<open>Repo_\<close> theories. The data sync, the event handlers and the web service hold a \<open>Repository\<close> and call its
  methods. The locale \<open>repository\<close> has the laws that they rely on, over the calls as data.
\<close>

section \<open>The interface\<close>

record 's Repository =
  m_UpsertApplications :: "ApplicationDAOInfo list \<Rightarrow> 's \<Rightarrow> goerror option \<times> 's"
  m_GetAllApplications :: "ApplicationFilters \<Rightarrow> 's \<Rightarrow> AppRow list result \<times> 's"
  m_GetAppsPerPartitionPerQueue :: "string \<Rightarrow> string \<Rightarrow> ApplicationFilters \<Rightarrow> 's \<Rightarrow> AppRow list result \<times> 's"
  m_UpdateHistory :: "ApplicationHistoryDAOInfo list \<Rightarrow> ContainerHistoryDAOInfo list \<Rightarrow> 's \<Rightarrow> goerror option \<times> 's"
  m_GetApplicationsHistory :: "'s \<Rightarrow> ApplicationHistoryDAOInfo list result \<times> 's"
  m_GetContainersHistory :: "'s \<Rightarrow> ContainerHistoryDAOInfo list result \<times> 's"
  m_UpsertNodes :: "NodeDAOInfo list \<Rightarrow> string \<Rightarrow> 's \<Rightarrow> goerror option \<times> 's"
  m_InsertNodeUtilizations :: "string \<Rightarrow> PartitionNodesUtilDAOInfo list \<Rightarrow> 's \<Rightarrow> goerror option \<times> 's"
  m_GetNodeUtilizations :: "'s \<Rightarrow> PartitionNodesUtilDAOInfo list result \<times> 's"
  m_GetNodesPerPartition :: "string \<Rightarrow> 's \<Rightarrow> NodeDAOInfo list result \<times> 's"
  m_UpsertPartitions :: "PartitionInfo list \<Rightarrow> 's \<Rightarrow> goerror option \<times> 's"
  m_GetAllPartitions :: "'s \<Rightarrow> PartitionInfo list result \<times> 's"
  m_AddQueues :: "string option \<Rightarrow> PartitionQueueDAOInfo list \<Rightarrow> 's \<Rightarrow> goerror option \<times> 's"
  m_UpsertQueues :: "PartitionQueueDAOInfo list \<Rightarrow> 's \<Rightarrow> goerror option \<times> 's"
  m_GetAllQueues :: "'s \<Rightarrow> StoredQueue list result \<times> 's"
  m_GetQueuesPerPartition :: "string \<Rightarrow> 's \<Rightarrow> StoredQueue list option result \<times> 's"
  m_GetQueue :: "string \<Rightarrow> string \<Rightarrow> 's \<Rightarrow> StoredQueue option result \<times> 's"
  m_DeleteQueues :: "StoredQueue list \<Rightarrow> 's \<Rightarrow> goerror option \<times> 's"

section \<open>The implementation on Postgres\<close>

text \<open>
  A connection pool as the methods see it: what the statements meet (\<open>pgenv\<close>), how the rows of a query text
  are found, and how pgx converts 64-bit values.
\<close>

record pgpool =
  pool_sql :: sql_answer
  pool_int8 :: int8_codec
  pool_env :: pgenv

record PostgresRepository =
  dbpool :: pgpool

definition NewPostgresRepository :: "pgpool \<Rightarrow> PostgresRepository result" where
  "NewPostgresRepository pool = Inr \<lparr>dbpool = pool\<rparr>"

text \<open>\<open>var _ Repository = &PostgresRepository{}\<close>: its methods implement the interface.\<close>

definition as_Repository :: "PostgresRepository \<Rightarrow> db Repository" where
  "as_Repository s =
     (let env = pool_env (dbpool s); sql = pool_sql (dbpool s); int8 = pool_int8 (dbpool s) in
      \<lparr>m_UpsertApplications = UpsertApplications env,
       m_GetAllApplications = GetAllApplications sql env,
       m_GetAppsPerPartitionPerQueue = GetAppsPerPartitionPerQueue sql env,
       m_UpdateHistory = UpdateHistory int8 env,
       m_GetApplicationsHistory = GetApplicationsHistory int8 env,
       m_GetContainersHistory = GetContainersHistory int8 env,
       m_UpsertNodes = UpsertNodes env,
       m_InsertNodeUtilizations = InsertNodeUtilizations env,
       m_GetNodeUtilizations = GetNodeUtilizations env,
       m_GetNodesPerPartition = GetNodesPerPartition env,
       m_UpsertPartitions = UpsertPartitions env,
       m_GetAllPartitions = GetAllPartitions env,
       m_AddQueues = AddQueues env,
       m_UpsertQueues = UpsertQueues env,
       m_GetAllQueues = GetAllQueues env,
       m_GetQueuesPerPartition = GetQueuesPerPartition env,
       m_GetQueue = GetQueue env,
       m_DeleteQueues = DeleteQueues env\<rparr>)"

definition pg_repository :: "sql_answer \<Rightarrow> int8_codec \<Rightarrow> pgenv \<Rightarrow> db Repository" where
  "pg_repository sql int8 env =
     as_Repository \<lparr>dbpool = \<lparr>pool_sql = sql, pool_int8 = int8, pool_env = env\<rparr>\<rparr>"

lemma pg_repository_simps [simp]:
  "m_UpsertApplications (pg_repository sql int8 env) = UpsertApplications env"
  "m_GetAllApplications (pg_repository sql int8 env) = GetAllApplications sql env"
  "m_GetAppsPerPartitionPerQueue (pg_repository sql int8 env) = GetAppsPerPartitionPerQueue sql env"
  "m_UpdateHistory (pg_repository sql int8 env) = UpdateHistory int8 env"
  "m_GetApplicationsHistory (pg_repository sql int8 env) = GetApplicationsHistory int8 env"
  "m_GetContainersHistory (pg_repository sql int8 env) = GetContainersHistory int8 env"
  "m_UpsertNodes (pg_repository sql int8 env) = UpsertNodes env"
  "m_InsertNodeUtilizations (pg_repository sql int8 env) = InsertNodeUtilizations env"
  "m_GetNodeUtilizations (pg_repository sql int8 env) = GetNodeUtilizations env"
  "m_GetNodesPerPartition (pg_repository sql int8 env) = GetNodesPerPartition env"
  "m_UpsertPartitions (pg_repository sql int8 env) = UpsertPartitions env"
  "m_GetAllPartitions (pg_repository sql int8 env) = GetAllPartitions env"
  "m_AddQueues (pg_repository sql int8 env) = AddQueues env"
  "m_UpsertQueues (pg_repository sql int8 env) = UpsertQueues env"
  "m_GetAllQueues (pg_repository sql int8 env) = GetAllQueues env"
  "m_GetQueuesPerPartition (pg_repository sql int8 env) = GetQueuesPerPartition env"
  "m_GetQueue (pg_repository sql int8 env) = GetQueue env"
  "m_DeleteQueues (pg_repository sql int8 env) = DeleteQueues env"
  by (simp_all add: pg_repository_def as_Repository_def Let_def)

section \<open>Calls\<close>

text \<open>A call of a method with its arguments.\<close>

datatype repo_call =
    CUpsertApplications "ApplicationDAOInfo list"
  | CGetAllApplications ApplicationFilters
  | CGetAppsPerPartitionPerQueue string string ApplicationFilters
  | CUpdateHistory "ApplicationHistoryDAOInfo list" "ContainerHistoryDAOInfo list"
  | CGetApplicationsHistory
  | CGetContainersHistory
  | CUpsertNodes "NodeDAOInfo list" string
  | CInsertNodeUtilizations string "PartitionNodesUtilDAOInfo list"
  | CGetNodeUtilizations
  | CGetNodesPerPartition string
  | CUpsertPartitions "PartitionInfo list"
  | CGetAllPartitions
  | CAddQueues "string option" "PartitionQueueDAOInfo list"
  | CUpsertQueues "PartitionQueueDAOInfo list"
  | CGetAllQueues
  | CGetQueuesPerPartition string
  | CGetQueue string string
  | CDeleteQueues "StoredQueue list"

primrec call :: "'s Repository \<Rightarrow> repo_call \<Rightarrow> 's \<Rightarrow> 's" where
  "call R (CUpsertApplications apps) s = snd (m_UpsertApplications R apps s)"
| "call R (CGetAllApplications f) s = snd (m_GetAllApplications R f s)"
| "call R (CGetAppsPerPartitionPerQueue p q f) s = snd (m_GetAppsPerPartitionPerQueue R p q f s)"
| "call R (CUpdateHistory apps containers) s = snd (m_UpdateHistory R apps containers s)"
| "call R CGetApplicationsHistory s = snd (m_GetApplicationsHistory R s)"
| "call R CGetContainersHistory s = snd (m_GetContainersHistory R s)"
| "call R (CUpsertNodes ns p) s = snd (m_UpsertNodes R ns p s)"
| "call R (CInsertNodeUtilizations u nus) s = snd (m_InsertNodeUtilizations R u nus s)"
| "call R CGetNodeUtilizations s = snd (m_GetNodeUtilizations R s)"
| "call R (CGetNodesPerPartition p) s = snd (m_GetNodesPerPartition R p s)"
| "call R (CUpsertPartitions ps) s = snd (m_UpsertPartitions R ps s)"
| "call R CGetAllPartitions s = snd (m_GetAllPartitions R s)"
| "call R (CAddQueues i qs) s = snd (m_AddQueues R i qs s)"
| "call R (CUpsertQueues qs) s = snd (m_UpsertQueues R qs s)"
| "call R CGetAllQueues s = snd (m_GetAllQueues R s)"
| "call R (CGetQueuesPerPartition p) s = snd (m_GetQueuesPerPartition R p s)"
| "call R (CGetQueue p q) s = snd (m_GetQueue R p q s)"
| "call R (CDeleteQueues qs) s = snd (m_DeleteQueues R qs s)"

primrec reads :: "repo_call \<Rightarrow> bool" where
  "reads (CUpsertApplications apps) = False"
| "reads (CGetAllApplications f) = True"
| "reads (CGetAppsPerPartitionPerQueue p q f) = True"
| "reads (CUpdateHistory apps containers) = False"
| "reads CGetApplicationsHistory = True"
| "reads CGetContainersHistory = True"
| "reads (CUpsertNodes ns p) = False"
| "reads (CInsertNodeUtilizations u nus) = False"
| "reads CGetNodeUtilizations = True"
| "reads (CGetNodesPerPartition p) = True"
| "reads (CUpsertPartitions ps) = False"
| "reads CGetAllPartitions = True"
| "reads (CAddQueues i qs) = False"
| "reads (CUpsertQueues qs) = False"
| "reads CGetAllQueues = True"
| "reads (CGetQueuesPerPartition p) = True"
| "reads (CGetQueue p q) = True"
| "reads (CDeleteQueues qs) = False"

section \<open>Laws\<close>

text \<open>
  What the users of a repository rely on: a method that reads changes no table, and a call that writes keeps
  the invariant, whether it succeeds or not, when its arguments are \<open>legal\<close>.
\<close>

locale repository =
  fixes R :: "'s Repository" and tables :: "'s \<Rightarrow> 't" and inv :: "'s \<Rightarrow> bool" and legal :: "repo_call \<Rightarrow> 's \<Rightarrow> bool"
  assumes reads_change_nothing: "reads c \<Longrightarrow> tables (call R c s) = tables s"
    and inv_of_tables: "tables s = tables s' \<Longrightarrow> inv s \<longleftrightarrow> inv s'"
    and writes_keep_inv: "inv s \<Longrightarrow> legal c s \<Longrightarrow> \<not> reads c \<Longrightarrow> inv (call R c s)"
begin

lemma call_inv: "inv s \<Longrightarrow> reads c \<or> legal c s \<Longrightarrow> inv (call R c s)"
  using reads_change_nothing [of c s] inv_of_tables [of "call R c s" s] writes_keep_inv [of s c] by blast

lemma reads_run: "list_all reads cs \<Longrightarrow> tables (fold (call R) cs s) = tables s"
  by (induction cs arbitrary: s) (simp_all add: reads_change_nothing)

end

end
