(* ===== verification/Work_Queue.thy ===== *)
theory Work_Queue
  imports Go_Prelude
begin

text \<open>
  \<open>internal/workqueue/workqueue.go\<close>. The first part has the operations of \<open>WorkQueue\<close> as
  functions on its fields. The second part is the concurrent system as a step relation:
  callers of \<open>Add\<close> test \<open>started\<close>, append under the mutex and then send on the unbuffered
  channel \<open>signal\<close>; the loop of \<open>Run\<close> receives and pops; \<open>Shutdown\<close> closes the channel.
  The third part is \<open>executeWithRetry\<close>, on 64-bit durations; a job that never succeeds is
  retried forever, so the loop has fuel, and \<open>None\<close> is a loop that did not end.
\<close>

section \<open>Operations\<close>

definition ErrNotStarted :: goerror where
  "ErrNotStarted = Sentinel ''workqueue not started''"

definition maxBackoff :: duration where
  "maxBackoff = 5 * (60 * second)"

definition maxRetries :: nat where
  "maxRetries = 20"

definition initialDelay :: duration where
  "initialDelay = 1 * second"

record 'j item =
  item_id :: string
  item_name :: string
  item_job :: 'j

type_synonym 'j JobOption = "'j item \<Rightarrow> 'j item"

definition WithJobName :: "string \<Rightarrow> 'j JobOption" where
  "WithJobName nm i = i\<lparr>item_name := nm\<rparr>"

definition newItem :: "string \<Rightarrow> 'j \<Rightarrow> 'j JobOption list \<Rightarrow> 'j item" where
  "newItem uuid job opts = fold (\<lambda>opt i. opt i) opts \<lparr>item_id = uuid, item_name = [], item_job = job\<rparr>"

text \<open>\<open>sigClosed\<close> and \<open>cancelled\<close> are the states of the channel and of the cancel function.\<close>

record 'j WorkQueue =
  wq_name :: string
  queue :: "'j item list"
  wq_initialDelay :: duration
  started :: bool
  gracePeriod :: duration
  running :: "32 word"
  sigClosed :: bool
  cancelled :: bool

type_synonym 'j WorkQueueOption = "'j WorkQueue \<Rightarrow> 'j WorkQueue"

definition WithName :: "string \<Rightarrow> 'j WorkQueueOption" where
  "WithName nm wq = wq\<lparr>wq_name := nm\<rparr>"

definition WithInitialDelay :: "duration \<Rightarrow> 'j WorkQueueOption" where
  "WithInitialDelay delay wq = wq\<lparr>wq_initialDelay := delay\<rparr>"

definition WithGracefulShutdown :: "duration \<Rightarrow> 'j WorkQueueOption" where
  "WithGracefulShutdown grace wq = wq\<lparr>gracePeriod := grace\<rparr>"

definition NewWorkQueue :: "'j WorkQueueOption list \<Rightarrow> 'j WorkQueue" where
  "NewWorkQueue opts = fold (\<lambda>opt wq. opt wq) opts
     \<lparr>wq_name = [], queue = [], wq_initialDelay = initialDelay, started = False, gracePeriod = 0,
      running = 0, sigClosed = False, cancelled = False\<rparr>"

text \<open>\<open>Add\<close> up to its send: the test, then the append under the mutex.\<close>

definition Add_check :: "'j WorkQueue \<Rightarrow> goerror option" where
  "Add_check w = (if \<not> started w then Some ErrNotStarted else None)"

definition Add_append :: "'j item \<Rightarrow> 'j WorkQueue \<Rightarrow> 'j WorkQueue" where
  "Add_append i w = w\<lparr>queue := queue w @ [i]\<rparr>"

definition pop :: "'j WorkQueue \<Rightarrow> 'j item option \<times> 'j WorkQueue" where
  "pop w = (case queue w of [] \<Rightarrow> (None, w) | f # rest \<Rightarrow> (Some f, w\<lparr>queue := rest\<rparr>))"

definition Run_start :: "'j WorkQueue \<Rightarrow> 'j WorkQueue" where
  "Run_start w = w\<lparr>cancelled := False, started := True\<rparr>"

definition Started :: "'j WorkQueue \<Rightarrow> bool" where
  "Started w = started w"

definition Shutdown :: "'j WorkQueue \<Rightarrow> 'j WorkQueue" where
  "Shutdown w = (if started w then w\<lparr>started := False, cancelled := True, sigClosed := True\<rparr> else w)"

section \<open>The concurrent system\<close>

text \<open>
  \<open>checked\<close>: callers of \<open>Add\<close> between the test and the append, with their items;
  \<open>sending\<close>: callers blocked on the send; \<open>loop\<close>: whether \<open>Run\<close> is in its loop.
  \<open>accepted\<close> and \<open>launched\<close> are the histories of appended and of executed items, \<open>refused\<close>
  counts \<open>ErrNotStarted\<close>, \<open>idle\<close> the receives that found the queue empty, \<open>panics\<close> the sends
  on a closed channel, \<open>begun\<close> and \<open>ended\<close> the executions that have counted themselves in and out of
  \<open>running\<close>. \<open>Run\<close> is called once; its context is cancelled at any time, and waiting for the grace
  period is time that passes before \<open>loop_exit\<close>.
\<close>

record 'j wqsys =
  wq :: "'j WorkQueue"
  checked :: "'j item list"
  sending :: nat
  loop :: bool
  accepted :: "'j item list"
  launched :: "'j item list"
  refused :: nat
  idle :: nat
  panics :: nat
  begun :: nat
  ended :: nat

definition wq_init :: "'j WorkQueueOption list \<Rightarrow> 'j wqsys" where
  "wq_init opts = \<lparr>wq = NewWorkQueue opts, checked = [], sending = 0, loop = False, accepted = [],
     launched = [], refused = 0, idle = 0, panics = 0, begun = 0, ended = 0\<rparr>"

text \<open>The body of \<open>case <-w.signal\<close>.\<close>

definition on_signal :: "'j wqsys \<Rightarrow> 'j wqsys" where
  "on_signal s = (case pop (wq s) of
       (None, w) \<Rightarrow> s\<lparr>wq := w, idle := Suc (idle s)\<rparr>
     | (Some i, w) \<Rightarrow> s\<lparr>wq := w, launched := launched s @ [i]\<rparr>)"

inductive wq_step :: "'j wqsys \<Rightarrow> 'j wqsys \<Rightarrow> bool" where
  start: "\<not> loop s \<Longrightarrow> \<not> sigClosed (wq s) \<Longrightarrow> wq_step s (s\<lparr>wq := Run_start (wq s), loop := True\<rparr>)"
| refuse: "Add_check (wq s) = Some e \<Longrightarrow> wq_step s (s\<lparr>refused := Suc (refused s)\<rparr>)"
| check: "Add_check (wq s) = None \<Longrightarrow> wq_step s (s\<lparr>checked := checked s @ [i]\<rparr>)"
| enqueue: "checked s = xs @ i # ys \<Longrightarrow>
    wq_step s (s\<lparr>checked := xs @ ys, wq := Add_append i (wq s), sending := Suc (sending s),
                 accepted := accepted s @ [i]\<rparr>)"
| receive: "loop s \<Longrightarrow> sending s = Suc n \<Longrightarrow> \<not> sigClosed (wq s) \<Longrightarrow> wq_step s (on_signal (s\<lparr>sending := n\<rparr>))"
| closed_receive: "loop s \<Longrightarrow> sigClosed (wq s) \<Longrightarrow> wq_step s (on_signal s)"
| send_panic: "sigClosed (wq s) \<Longrightarrow> sending s = Suc n \<Longrightarrow>
    wq_step s (s\<lparr>sending := n, panics := Suc (panics s)\<rparr>)"
| execute: "begun s < length (launched s) \<Longrightarrow>
    wq_step s (s\<lparr>begun := Suc (begun s), wq := (wq s)\<lparr>running := running (wq s) + 1\<rparr>\<rparr>)"
| executed: "ended s < begun s \<Longrightarrow>
    wq_step s (s\<lparr>ended := Suc (ended s), wq := (wq s)\<lparr>running := running (wq s) - 1\<rparr>\<rparr>)"
| shutdown: "wq_step s (s\<lparr>wq := Shutdown (wq s)\<rparr>)"
| loop_exit: "loop s \<Longrightarrow> wq_step s (s\<lparr>wq := Shutdown (wq s), loop := False\<rparr>)"

inductive wq_reach :: "'j WorkQueueOption list \<Rightarrow> 'j wqsys \<Rightarrow> bool" for opts where
  init: "wq_reach opts (wq_init opts)"
| step: "wq_reach opts s \<Longrightarrow> wq_step s s' \<Longrightarrow> wq_reach opts s'"

lemma pop_cases:
  obtains (none) "queue w = []" "pop w = (None, w)"
    | (some) i rest where "queue w = i # rest" "pop w = (Some i, w\<lparr>queue := rest\<rparr>)"
  by (cases "queue w") (auto simp: pop_def)

lemma on_signal_cases:
  obtains (none) "queue (wq s) = []" "on_signal s = s\<lparr>idle := Suc (idle s)\<rparr>"
    | (some) i rest where "queue (wq s) = i # rest"
        "on_signal s = s\<lparr>wq := (wq s)\<lparr>queue := rest\<rparr>, launched := launched s @ [i]\<rparr>"
proof (cases "queue (wq s)")
  case Nil
  then show thesis by (intro none) (simp_all add: on_signal_def pop_def)
next
  case (Cons i rest)
  then show thesis by (intro some) (simp_all add: on_signal_def pop_def)
qed

text \<open>
  The invariant: the jobs accepted are the jobs launched followed by the jobs queued; while
  the channel is open there is one blocked sender for each queued job, no receive found the
  queue empty and no sender panicked; the channel is closed only when the queue is stopped; the
  counter of running jobs is the number of executions begun and not ended.
\<close>

definition wq_inv :: "'j wqsys \<Rightarrow> bool" where
  "wq_inv s \<longleftrightarrow> accepted s = launched s @ queue (wq s) \<and>
     (\<not> sigClosed (wq s) \<longrightarrow> sending s = length (queue (wq s)) \<and> idle s = 0 \<and> panics s = 0) \<and>
     (sigClosed (wq s) \<longrightarrow> \<not> started (wq s)) \<and>
     ended s \<le> begun s \<and> begun s \<le> length (launched s) \<and> running (wq s) = of_nat (begun s) - of_nat (ended s)"

text \<open>The options that the package exports leave the queue empty and the channel open.\<close>

definition plain_option :: "'j WorkQueueOption \<Rightarrow> bool" where
  "plain_option opt \<longleftrightarrow> (\<exists>nm. opt = WithName nm) \<or> (\<exists>d. opt = WithInitialDelay d) \<or>
     (\<exists>d. opt = WithGracefulShutdown d)"

lemma plain_option_keeps:
  assumes "plain_option opt"
  shows "queue (opt w) = queue w" "started (opt w) = started w" "sigClosed (opt w) = sigClosed w"
    "running (opt w) = running w"
  using assms unfolding plain_option_def WithName_def WithInitialDelay_def WithGracefulShutdown_def
  by fastforce+

lemma plain_options_keep:
  "list_all plain_option os \<Longrightarrow> queue (fold (\<lambda>opt wq. opt wq) os w) = queue w \<and>
     started (fold (\<lambda>opt wq. opt wq) os w) = started w \<and>
     sigClosed (fold (\<lambda>opt wq. opt wq) os w) = sigClosed w \<and>
     running (fold (\<lambda>opt wq. opt wq) os w) = running w"
  by (induction os arbitrary: w) (simp_all add: plain_option_keeps)

lemma NewWorkQueue_fields:
  assumes "list_all plain_option opts"
  shows "queue (NewWorkQueue opts) = [] \<and> \<not> started (NewWorkQueue opts) \<and> \<not> sigClosed (NewWorkQueue opts) \<and>
    running (NewWorkQueue opts) = 0"
  unfolding NewWorkQueue_def using plain_options_keep [OF assms] by simp

lemma wq_inv_init: "list_all plain_option opts \<Longrightarrow> wq_inv (wq_init opts)"
  using NewWorkQueue_fields [of opts] by (simp add: wq_inv_def wq_init_def)

lemma wq_inv_on_signal:
  assumes "accepted s = launched s @ queue (wq s)"
    and "\<not> sigClosed (wq s) \<longrightarrow> Suc (sending s) = length (queue (wq s)) \<and> idle s = 0 \<and> panics s = 0"
    and "sigClosed (wq s) \<longrightarrow> \<not> started (wq s)"
    and "ended s \<le> begun s" and "begun s \<le> length (launched s)" and "running (wq s) = of_nat (begun s) - of_nat (ended s)"
  shows "wq_inv (on_signal s)"
proof (cases s rule: on_signal_cases)
  case none
  then have "sigClosed (wq s)" using assms(2) by auto
  with none assms show ?thesis by (simp add: wq_inv_def)
next
  case (some i rest)
  with assms show ?thesis by (simp add: wq_inv_def)
qed

lemma wq_inv_step: "wq_step s s' \<Longrightarrow> wq_inv s \<Longrightarrow> wq_inv s'"
proof (induction rule: wq_step.induct)
  case (receive s n)
  then show ?case by (intro wq_inv_on_signal) (simp_all add: wq_inv_def)
next
  case (closed_receive s)
  then show ?case by (intro wq_inv_on_signal) (simp_all add: wq_inv_def)
qed (simp_all add: wq_inv_def Run_start_def Add_append_def Shutdown_def)

lemma wq_inv_reach: "wq_reach opts s \<Longrightarrow> list_all plain_option opts \<Longrightarrow> wq_inv s"
  by (induction rule: wq_reach.induct) (auto intro: wq_inv_init wq_inv_step)

section \<open>executeWithRetry\<close>

definition next_backoff :: "duration \<Rightarrow> duration \<Rightarrow> duration" where
  "next_backoff initial backoff =
     (if backoff = 0 then initial
      else if sint backoff < sint maxBackoff then backoff * 2
      else backoff)"

text \<open>
  \<open>done n\<close> is the choice of the \<open>select\<close> before attempt \<open>n\<close>: the context is done, or the
  timer fired. The result has the delays waited, the retry counts at which the maximum was
  reported, whether the job succeeded, and the state after the attempts.
\<close>

record 's retry_result =
  waited :: "duration list"
  maxed :: "nat list"
  succeeded :: bool
  final :: 's

fun retry_loop ::
    "nat \<Rightarrow> duration \<Rightarrow> (nat \<Rightarrow> bool) \<Rightarrow> ('s \<Rightarrow> goerror option \<times> 's) \<Rightarrow> duration \<Rightarrow> nat \<Rightarrow>
     's retry_result \<Rightarrow> 's retry_result option" where
  "retry_loop 0 initial ctx_done job backoff retries r = None"
| "retry_loop (Suc fuel) initial ctx_done job backoff retries r =
     (if ctx_done retries then Some r
      else let r1 = r\<lparr>waited := waited r @ [backoff],
                      maxed := (if retries > maxRetries then maxed r @ [retries] else maxed r)\<rparr> in
        (case job (final r1) of
           (None, s') \<Rightarrow> Some (r1\<lparr>final := s', succeeded := True\<rparr>)
         | (Some e, s') \<Rightarrow>
             retry_loop fuel initial ctx_done job (next_backoff initial backoff) (Suc retries)
               (r1\<lparr>final := s'\<rparr>)))"

definition executeWithRetry ::
    "nat \<Rightarrow> duration \<Rightarrow> (nat \<Rightarrow> bool) \<Rightarrow> ('s \<Rightarrow> goerror option \<times> 's) \<Rightarrow> 's \<Rightarrow> 's retry_result option" where
  "executeWithRetry fuel initial ctx_done job s =
     retry_loop fuel initial ctx_done job 0 0
       \<lparr>waited = [], maxed = [], succeeded = False, final = s\<rparr>"

text \<open>The backoff before attempt \<open>n\<close>, and the state before it.\<close>

definition backoff_at :: "duration \<Rightarrow> nat \<Rightarrow> duration" where
  "backoff_at initial n = (next_backoff initial ^^ n) 0"

definition attempts :: "('s \<Rightarrow> goerror option \<times> 's) \<Rightarrow> nat \<Rightarrow> 's \<Rightarrow> 's" where
  "attempts job n s = ((\<lambda>s. snd (job s)) ^^ n) s"

lemma backoff_at_Suc: "backoff_at initial (Suc n) = next_backoff initial (backoff_at initial n)"
  by (simp add: backoff_at_def)

lemma attempts_Suc: "attempts job (Suc n) s = snd (job (attempts job n s))"
  by (simp add: attempts_def)

lemma retry_loop_success:
  assumes "\<forall>k < n. fst (job (attempts job k s0)) \<noteq> None" and "fst (job (attempts job n s0)) = None"
    and "\<forall>k \<le> n. \<not> ctx_done k" and "n - k < fuel" and "k \<le> n" and "final r = attempts job k s0"
  shows "\<exists>r'. retry_loop fuel initial ctx_done job (backoff_at initial k) k r = Some r' \<and>
    succeeded r' \<and> final r' = attempts job (Suc n) s0 \<and>
    waited r' = waited r @ map (backoff_at initial) [k ..< Suc n] \<and>
    maxed r' = maxed r @ filter (\<lambda>i. maxRetries < i) [k ..< Suc n]"
  using assms(4-6)
proof (induction "n - k" arbitrary: k fuel r)
  case 0
  then have k: "k = n" by simp
  obtain f where f: "fuel = Suc f" using 0 by (cases fuel) auto
  show ?case
    using 0 assms(2,3) unfolding k f
    by (cases "job (attempts job n s0)") (simp add: attempts_Suc Let_def)
next
  case (Suc m)
  then have kn: "k < n" by simp
  obtain f where f: "fuel = Suc f" "n - Suc k < f" using Suc by (cases fuel) auto
  obtain e s' where j: "job (attempts job k s0) = (Some e, s')"
    using assms(1) kn by (cases "job (attempts job k s0)") fastforce
  let ?r = "r\<lparr>waited := waited r @ [backoff_at initial k],
      maxed := (if k > maxRetries then maxed r @ [k] else maxed r), final := s'\<rparr>"
  have "retry_loop fuel initial ctx_done job (backoff_at initial k) k r =
      retry_loop f initial ctx_done job (backoff_at initial (Suc k)) (Suc k) ?r"
    using f(1) j Suc.prems kn assms(3) by (simp add: Let_def backoff_at_Suc)
  moreover have "\<exists>r'. retry_loop f initial ctx_done job (backoff_at initial (Suc k)) (Suc k) ?r = Some r' \<and>
    succeeded r' \<and> final r' = attempts job (Suc n) s0 \<and>
    waited r' = waited ?r @ map (backoff_at initial) [Suc k ..< Suc n] \<and>
    maxed r' = maxed ?r @ filter (\<lambda>i. maxRetries < i) [Suc k ..< Suc n]"
    using Suc.hyps j f(2) kn by (intro Suc.hyps(1)) (simp_all add: attempts_Suc)
  moreover have "[k ..< Suc n] = k # [Suc k ..< Suc n]" using kn by (simp add: upt_conv_Cons)
  ultimately show ?case by auto
qed

text \<open>The result of a loop that ends, without any assumption: how often the job ran.\<close>

lemma retry_loop_result:
  assumes "retry_loop fuel initial ctx_done job b k r = Some r'"
  shows "\<exists>n. final r' = attempts job n (final r)"
  using assms
proof (induction fuel initial ctx_done job b k r rule: retry_loop.induct)
  case (1 initial ctx_done job backoff retries r)
  then show ?case by simp
next
  case (2 fuel initial ctx_done job backoff retries r)
  show ?case
  proof (cases "ctx_done retries")
    case True
    with "2.prems" have "final r' = attempts job 0 (final r)" by (simp add: attempts_def)
    then show ?thesis by blast
  next
    case False
    obtain e s' where j: "job (final r) = (e, s')" by fastforce
    show ?thesis
    proof (cases e)
      case None
      with "2.prems" False j have "final r' = attempts job 1 (final r)"
        by (auto simp: Let_def attempts_def)
      then show ?thesis by blast
    next
      case (Some err)
      obtain n where "final r' = attempts job n s'"
        using "2.IH" [OF False refl, of e s' err] "2.prems" False j Some by (auto simp: Let_def)
      then have "final r' = attempts job (Suc n) (final r)"
        using j by (simp add: attempts_def funpow_Suc_right del: funpow.simps)
      then show ?thesis by blast
    qed
  qed
qed

section \<open>Bounds on the backoff\<close>

lemma sint_maxBackoff: "sint maxBackoff = 300000000000"
  by (simp add: maxBackoff_def second_def)

lemma sint_double:
  fixes b :: duration
  assumes "0 \<le> sint b" and "sint b < 2 ^ 62"
  shows "sint (b * 2) = 2 * sint b"
proof -
  have "sint (b * 2) = signed_take_bit 63 (sint b * 2)"
    by (simp add: sint_word_ariths)
  also have "\<dots> = sint b * 2"
    using assms by (intro signed_take_bit_int_eq_self) simp_all
  finally show ?thesis by simp
qed

text \<open>Nothing overflows, and the backoff stays below twice the maximum.\<close>

lemma backoff_bounds:
  assumes "0 < sint initial" and "sint initial < 2 * sint maxBackoff"
  shows "0 < sint (backoff_at initial (Suc n)) \<and> sint (backoff_at initial (Suc n)) < 2 * sint maxBackoff \<and>
    sint initial \<le> sint (backoff_at initial (Suc n))"
proof (induction n)
  case 0
  then show ?case using assms by (simp add: backoff_at_def next_backoff_def)
next
  case (Suc n)
  let ?b = "backoff_at initial (Suc n)"
  have nz: "?b \<noteq> 0" using Suc by auto
  show ?case
  proof (cases "sint ?b < sint maxBackoff")
    case True
    then have "sint (?b * 2) = 2 * sint ?b"
      using Suc by (intro sint_double) (simp_all add: sint_maxBackoff)
    with Suc True nz show ?thesis
      unfolding backoff_at_Suc [of initial "Suc n"] next_backoff_def by simp
  next
    case False
    with Suc nz show ?thesis
      unfolding backoff_at_Suc [of initial "Suc n"] next_backoff_def by simp
  qed
qed

text \<open>Until the maximum is reached, each delay is twice the one before.\<close>

lemma backoff_doubles:
  assumes "0 < sint initial" and "sint initial * 2 ^ n < 2 * sint maxBackoff"
  shows "sint (backoff_at initial (Suc n)) = sint initial * 2 ^ n"
  using assms(2)
proof (induction n)
  case 0
  then show ?case by (simp add: backoff_at_def next_backoff_def)
next
  case (Suc n)
  have lt: "sint initial * 2 ^ n < sint maxBackoff" using Suc.prems by simp
  have pos: "0 < sint initial * 2 ^ n" using assms(1) by simp
  then have ih: "sint (backoff_at initial (Suc n)) = sint initial * 2 ^ n"
    using lt by (intro Suc.IH) linarith
  have nz: "backoff_at initial (Suc n) \<noteq> 0" using ih pos by auto
  have "sint (backoff_at initial (Suc n) * 2) = 2 * sint (backoff_at initial (Suc n))"
    using ih lt pos by (intro sint_double) (simp_all add: sint_maxBackoff)
  with ih lt nz show ?case
    unfolding backoff_at_Suc [of initial "Suc n"] next_backoff_def by simp
qed

section \<open>Jobs that keep an invariant\<close>

text \<open>
  What the users of the queue rely on: a job that keeps an invariant whether it fails or not
  keeps it under retries.
\<close>

locale retriable =
  fixes job :: "'s \<Rightarrow> goerror option \<times> 's" and inv :: "'s \<Rightarrow> bool"
  assumes job_inv: "inv s \<Longrightarrow> inv (snd (job s))"
begin

lemma attempts_inv: "inv s \<Longrightarrow> inv (attempts job n s)"
  by (induction n) (simp_all add: attempts_def job_inv)

lemma retry_inv:
  assumes "executeWithRetry fuel initial ctx_done job s = Some r" and "inv s"
  shows "inv (final r)"
  using retry_loop_result [OF assms(1) [unfolded executeWithRetry_def]] attempts_inv [OF assms(2)] by auto

end

section \<open>Properties\<close>

text \<open>
  C17. In every reachable state of the work queue, under any interleaving of callers, loop and
  shutdown, the accepted jobs are the launched ones followed by the queued ones, in order; and
  while the channel is open each queued job has its blocked sender, no receive found the queue
  empty and no sender panicked. The counter of running jobs is the number of launched jobs whose
  execution has begun and not ended.
\<close>

theorem workqueue_fifo:
  assumes "wq_reach opts s" and "list_all plain_option opts"
  shows "accepted s = launched s @ queue (wq s) \<and>
    (\<not> sigClosed (wq s) \<longrightarrow> sending s = length (queue (wq s)) \<and> idle s = 0 \<and> panics s = 0) \<and>
    ended s \<le> begun s \<and> begun s \<le> length (launched s) \<and> running (wq s) = of_nat (begun s - ended s)"
  using wq_inv_reach [OF assms] by (simp add: wq_inv_def of_nat_diff)

definition demo_item :: "nat item" where
  "demo_item = \<lparr>item_id = ''0'', item_name = ''job'', item_job = 0\<rparr>"

definition demo_started :: "nat wqsys" where
  "demo_started = (wq_init [])\<lparr>wq := Run_start (NewWorkQueue []), loop := True\<rparr>"

definition demo_sending :: "nat wqsys" where
  "demo_sending = demo_started\<lparr>wq := Add_append demo_item (wq demo_started), sending := 1, accepted := [demo_item]\<rparr>"

lemma demo_started_reach: "wq_reach [] demo_started"
proof -
  have "wq_step (wq_init []) ((wq_init [] :: nat wqsys)\<lparr>wq := Run_start (wq (wq_init [])), loop := True\<rparr>)"
    by (rule wq_step.start) (simp_all add: wq_init_def NewWorkQueue_def)
  from wq_reach.step [OF wq_reach.init this] show ?thesis by (simp add: demo_started_def wq_init_def)
qed

lemma demo_sending_reach: "wq_reach [] demo_sending"
proof -
  have "wq_step demo_started (demo_started\<lparr>checked := checked demo_started @ [demo_item]\<rparr>)" (is "wq_step _ ?s")
    by (rule wq_step.check) (simp add: Add_check_def demo_started_def wq_init_def Run_start_def)
  from wq_reach.step [OF demo_started_reach this] have r: "wq_reach [] ?s" .
  have "wq_step ?s (?s\<lparr>checked := [] @ [], wq := Add_append demo_item (wq ?s), sending := Suc (sending ?s),
      accepted := accepted ?s @ [demo_item]\<rparr>)"
    by (rule wq_step.enqueue) (simp add: demo_started_def wq_init_def)
  from wq_reach.step [OF r this] show ?thesis
    by (simp add: demo_sending_def demo_started_def wq_init_def)
qed

theorem workqueue_fifo_witness:
  "wq_reach [] demo_sending \<and> accepted demo_sending = [demo_item] \<and> queue (wq demo_sending) = [demo_item] \<and>
   accepted demo_sending = launched demo_sending @ queue (wq demo_sending) \<and> sending demo_sending = 1"
  using workqueue_fifo [OF demo_sending_reach] demo_sending_reach
  by (simp add: demo_sending_def demo_started_def wq_init_def Add_append_def Run_start_def NewWorkQueue_def)

text \<open>
  C32. \<open>Shutdown\<close> closes the channel on which callers of \<open>Add\<close> may be blocked: a state is reachable in
  which an accepted job was never launched and its caller has panicked.
\<close>

theorem shutdown_panics_sender:
  "\<exists>s :: nat wqsys. wq_reach [] s \<and> panics s = 1 \<and> accepted s = [demo_item] \<and> launched s = [] \<and> \<not> loop s"
proof -
  let ?s1 = "demo_sending\<lparr>wq := Shutdown (wq demo_sending), loop := False\<rparr>"
  have "loop demo_sending" by (simp add: demo_sending_def demo_started_def)
  then have r1: "wq_reach [] ?s1"
    by (intro wq_reach.step [OF demo_sending_reach]) (rule wq_step.loop_exit)
  have c: "sigClosed (wq ?s1)" "sending ?s1 = Suc 0"
    by (simp_all add: demo_sending_def demo_started_def Shutdown_def Add_append_def Run_start_def)
  have "wq_reach [] (?s1\<lparr>sending := 0, panics := Suc (panics ?s1)\<rparr>)"
    by (rule wq_reach.step [OF r1]) (rule wq_step.send_panic [OF c])
  then show ?thesis
    by (intro exI [of _ "?s1\<lparr>sending := 0, panics := Suc (panics ?s1)\<rparr>"])
       (simp add: demo_sending_def demo_started_def wq_init_def)
qed

text \<open>
  C18. A job that fails \<open>n\<close> times and then succeeds is run exactly \<open>n + 1\<close> times (if its context is not
  done), however large \<open>n\<close> is: \<open>executeWithRetry\<close> returns, having waited the backoffs in order,
  and \<open>maxRetries\<close> is only reported.
\<close>

theorem executeWithRetry_succeeds:
  assumes "\<forall>k < n. fst (job (attempts job k s)) \<noteq> None" and "fst (job (attempts job n s)) = None"
    and "\<forall>k \<le> n. \<not> ctx_done k" and "n < fuel"
  shows "\<exists>r. executeWithRetry fuel initial ctx_done job s = Some r \<and> succeeded r \<and>
    final r = attempts job (Suc n) s \<and> waited r = map (backoff_at initial) [0 ..< Suc n] \<and>
    maxed r = filter (\<lambda>i. maxRetries < i) [0 ..< Suc n]"
  using retry_loop_success [OF assms(1-3), of 0 fuel
      "\<lparr>waited = [], maxed = [], succeeded = False, final = s\<rparr>" initial] assms(4)
  by (simp add: executeWithRetry_def attempts_def backoff_at_def)

theorem executeWithRetry_succeeds_witness:
  "\<exists>r. executeWithRetry 30 initialDelay (\<lambda>k. False)
      (\<lambda>m. (if m < 25 then Some ErrNotStarted else None, m + 1)) (0 :: nat) = Some r \<and>
     succeeded r \<and> final r = 26 \<and> length (waited r) = 26 \<and> maxed r = [21, 22, 23, 24, 25]"
proof -
  have a: "attempts (\<lambda>m. (if m < 25 then Some ErrNotStarted else None, m + 1)) k (0 :: nat) = k" for k
    by (induction k) (simp_all add: attempts_def)
  have f: "filter (\<lambda>i. maxRetries < i) [0 ..< Suc 25] = [21, 22, 23, 24, 25]"
    by (simp add: maxRetries_def upt_rec)
  from executeWithRetry_succeeds [of 25 "\<lambda>m. (if m < 25 then Some ErrNotStarted else None, m + 1)" "0 :: nat"
      "\<lambda>k. False" 30 initialDelay] f show ?thesis
    unfolding a by auto
qed

text \<open>
  C31. For an initial delay that is positive and below twice \<open>maxBackoff\<close>, no backoff overflows, every
  backoff after the first failure is at least the initial delay and below twice \<open>maxBackoff\<close>, and as
  long as this bound permits it the backoffs double.
\<close>

theorem backoff_bounded:
  assumes "0 < sint initial" and "sint initial < 2 * sint maxBackoff"
  shows "sint initial \<le> sint (backoff_at initial (Suc n)) \<and>
    sint (backoff_at initial (Suc n)) < 2 * sint maxBackoff \<and>
    (sint initial * 2 ^ n < 2 * sint maxBackoff \<longrightarrow> sint (backoff_at initial (Suc n)) = sint initial * 2 ^ n)"
  using backoff_bounds [OF assms, of n] backoff_doubles [OF assms(1), of n] by blast

lemma sint_initialDelay: "sint initialDelay = 1000000000"
  by (simp add: initialDelay_def second_def)

theorem backoff_bounded_witness:
  "sint (backoff_at initialDelay 4) = 8 * 1000000000 \<and> sint (backoff_at initialDelay 4) < 2 * sint maxBackoff"
  using backoff_bounded [of initialDelay 3] by (simp add: sint_initialDelay sint_maxBackoff)

text \<open>
  \<open>maxBackoff\<close> does not bound the backoff: with the default initial delay the tenth retry waits 512
  seconds, and so does every later one.
\<close>

theorem default_backoff_exceeds_maximum:
  "sint maxBackoff < sint (backoff_at initialDelay (10 + k)) \<and> sint (backoff_at initialDelay (10 + k)) = 512 * 1000000000"
proof (induction k)
  case 0
  have "sint (backoff_at initialDelay (Suc 9)) = sint initialDelay * 2 ^ 9"
    by (rule backoff_doubles) (simp_all add: sint_initialDelay sint_maxBackoff)
  then show ?case by (simp add: sint_initialDelay sint_maxBackoff)
next
  case (Suc k)
  let ?b = "backoff_at initialDelay (10 + k)"
  have "?b \<noteq> 0" using Suc by auto
  then have "backoff_at initialDelay (10 + Suc k) = ?b"
    using Suc backoff_at_Suc [of initialDelay "10 + k"] by (simp add: next_backoff_def)
  with Suc show ?case by simp
qed

end
