(* ===== verification/Event_Repository.thy ===== *)
theory Event_Repository
  imports Models
begin

text \<open>
  \<open>internal/database/repository/events.go\<close>: the in-memory counter of events by type and
  change type. The names of the enumeration values come from generated protobuf code and are
  a parameter. The locale \<open>event_counter\<close> is the interface \<open>EventRepository\<close>: what
  \<open>Counts\<close> returns after \<open>Record\<close>. Its lemma gives the counts after any sequence of
  events, on the 64-bit \<open>int\<close> of the code.
\<close>

section \<open>Names of the generated code\<close>

record si_names =
  Type_String :: "EventRecord_Type \<Rightarrow> string"
  ChangeType_String :: "EventRecord_ChangeType \<Rightarrow> string"
  ChangeDetail_String :: "EventRecord_ChangeDetail \<Rightarrow> string"
  ChangeDetail_name :: "EventRecord_ChangeDetail \<Rightarrow> string"
  Event_String :: "EventRecord \<Rightarrow> string"

section \<open>The repository\<close>

type_synonym EventTypeCounts = "string \<rightharpoonup> 64 word"

record InMemoryEventRepository =
  counts :: EventTypeCounts

definition NewInMemoryEventRepository :: InMemoryEventRepository where
  "NewInMemoryEventRepository = \<lparr>counts = Map.empty\<rparr>"

definition getKey :: "si_names \<Rightarrow> EventRecord \<Rightarrow> string" where
  "getKey names e = sprintf ''%s-%s''
     [AText (Type_String names (ev_Type e)), AText (ChangeType_String names (ev_EventChangeType e))]"

text \<open>\<open>Counts\<close> copies every entry into a new map.\<close>

definition Counts :: "InMemoryEventRepository \<Rightarrow> EventTypeCounts result" where
  "Counts r = Inr (Map.empty ++ counts r)"

definition Record :: "si_names \<Rightarrow> EventRecord \<Rightarrow> InMemoryEventRepository \<Rightarrow>
    goerror option \<times> InMemoryEventRepository" where
  "Record names event r =
     (let key = getKey names event in
      (None, case counts r key of
         Some n \<Rightarrow> r\<lparr>counts := (counts r)(key \<mapsto> n + 1)\<rparr>
       | None \<Rightarrow> r\<lparr>counts := (counts r)(key \<mapsto> 1)\<rparr>))"

section \<open>The interface\<close>

locale event_counter =
  fixes init :: 's and record_event :: "'e \<Rightarrow> 's \<Rightarrow> goerror option \<times> 's"
    and read :: "'s \<Rightarrow> EventTypeCounts result" and key :: "'e \<Rightarrow> string"
  assumes read_init: "read init = Inr Map.empty"
    and record_ok: "fst (record_event e s) = None"
    and read_record: "read s = Inr m \<Longrightarrow> read (snd (record_event e s)) =
      Inr (m(key e \<mapsto> (case m (key e) of None \<Rightarrow> 1 | Some n \<Rightarrow> n + 1)))"
begin

definition counted :: "'e list \<Rightarrow> EventTypeCounts" where
  "counted es k =
     (let n = length (filter (\<lambda>e. key e = k) es) in if n = 0 then None else Some (of_nat n))"

lemma counted_snoc:
  "counted (es @ [e]) = (counted es)(key e \<mapsto> (case counted es (key e) of None \<Rightarrow> 1 | Some n \<Rightarrow> n + 1))"
  by (rule ext) (auto simp: counted_def Let_def split: option.split)

lemma record_all:
  "\<exists>s. for_each record_event es init = (None, s) \<and> read s = Inr (counted es)"
proof (induction es rule: rev_induct)
  case Nil
  have "counted [] = Map.empty" by (rule ext) (simp add: counted_def)
  then show ?case by (simp add: read_init)
next
  case (snoc e es)
  then obtain s where s: "for_each record_event es init = (None, s)" "read s = Inr (counted es)" by blast
  obtain s' where s': "record_event e s = (None, s')"
    using record_ok [of e s] by (cases "record_event e s") simp
  have "read s' = Inr (counted (es @ [e]))"
    using read_record [OF s(2), of e] s' counted_snoc by simp
  then show ?case using s(1) s' by (simp add: for_each_append)
qed

end

interpretation in_memory: event_counter NewInMemoryEventRepository "Record names" Counts "getKey names"
  by unfold_locales
     (auto simp: Counts_def NewInMemoryEventRepository_def Record_def Let_def split: option.split)

section \<open>Properties\<close>

text \<open>
  C33. After any sequence of recorded events, \<open>Counts\<close> gives for each key the number of events
  with that key, modulo 2 to the 64, and has no entry for a key without events.
\<close>

theorem event_counts_exact:
  "\<exists>r. for_each (Record names) evs NewInMemoryEventRepository = (None, r) \<and>
     Counts r = Inr (\<lambda>k. let n = length (filter (\<lambda>e. getKey names e = k) evs) in
       if n = 0 then None else Some (of_nat n))"
  using in_memory.record_all [of names evs] unfolding in_memory.counted_def [abs_def] .

end
