(* ===== verification/Event_Handler.thy ===== *)
theory Event_Handler
  imports Event_Repository
begin

text \<open>
  \<open>internal/yunikorn/event_handler.go\<close>: the application cache \<open>appMap\<close> and the handlers of
  application events. The scheduler's answer to \<open>GetApplication\<close> and the repository's
  \<open>UpsertApplications\<close> are arguments of the handlers, because \<open>Service\<close> holds both as
  interfaces. An entry of the cache is a pointer; \<open>Some None\<close> is a nil pointer. The second
  half states what a handler does to one entry (\<open>classify\<close>, \<open>entry_step\<close>), in the words
  of the comment on \<open>handleAppEvent\<close>, and proves that the handlers do exactly that.
\<close>

section \<open>State\<close>

datatype log_level = LInfo | LWarn | LError

record 'r Service_state =
  appMap :: "string \<rightharpoonup> ApplicationDAOInfo option"
  svcRepo :: 'r
  svcLog :: "(log_level \<times> string) list"

type_synonym app_client = "string \<Rightarrow> string \<Rightarrow> string \<Rightarrow> ApplicationDAOInfo option result"
type_synonym 'r app_upsert = "ApplicationDAOInfo list \<Rightarrow> 'r \<Rightarrow> goerror option \<times> 'r"

definition logMsg :: "log_level \<Rightarrow> string \<Rightarrow> 'r Service_state \<Rightarrow> 'r Service_state" where
  "logMsg lvl msg s = s\<lparr>svcLog := svcLog s @ [(lvl, msg)]\<rparr>"

text \<open>\<open>app, ok := s.appMap[id]\<close> followed by the test \<open>!ok || app == nil\<close>.\<close>

definition cached :: "string \<Rightarrow> 'r Service_state \<Rightarrow> ApplicationDAOInfo option" where
  "cached i s = (case appMap s i of None \<Rightarrow> None | Some a \<Rightarrow> a)"

definition set_app :: "string \<Rightarrow> ApplicationDAOInfo \<Rightarrow> 'r Service_state \<Rightarrow> 'r Service_state" where
  "set_app i a s = s\<lparr>appMap := (appMap s)(i \<mapsto> Some a)\<rparr>"

section \<open>Handlers\<close>

text \<open>The branch for a new application, the same in the \<open>ADD\<close> and in the \<open>SET\<close> handler.\<close>

definition fetch_application ::
    "si_names \<Rightarrow> app_client \<Rightarrow> EventRecord \<Rightarrow> 'r Service_state \<Rightarrow> 'r Service_state" where
  "fetch_application names client ev s =
     (case client '''' '''' (ev_ObjectID ev) of
        Inl e \<Rightarrow> logMsg LError (sprintf ''could not get application info %s from scheduler: %v%sReceived Event: %v''
                    [AText (ev_ObjectID ev), AText (error_text e), AText [CHR 0x0A], AText (Event_String names ev)]) s
      | Inr None \<Rightarrow> logMsg LError
          (''received an new application event but the application was not found in the scheduler: '' @
           ev_ObjectID ev) s
      | Inr (Some app) \<Rightarrow> set_app (ev_ObjectID ev) app s)"

text \<open>The loop over \<open>ev.GetResource().GetResources()\<close>; the getters accept nil.\<close>

definition resource_values :: "EventRecord \<Rightarrow> (string \<rightharpoonup> int)" where
  "resource_values ev = (case ev_Resource ev of None \<Rightarrow> Map.empty | Some m \<Rightarrow> m)"

definition add_alloc :: "EventRecord \<Rightarrow> ApplicationDAOInfo \<Rightarrow> ApplicationDAOInfo" where
  "add_alloc ev app = app\<lparr>app_Allocations := append_slice (app_Allocations app)
     \<lparr>alloc_AllocationID = ev_ReferenceID ev, alloc_ResourcePerAlloc = resource_values ev,
      alloc_AllocationTime = ev_TimestampNano ev\<rparr>\<rparr>"

definition add_request :: "EventRecord \<Rightarrow> ApplicationDAOInfo \<Rightarrow> ApplicationDAOInfo" where
  "add_request ev app = app\<lparr>app_Requests := append_slice (app_Requests app)
     \<lparr>ask_AllocationKey = ev_ReferenceID ev, ask_ResourcePerAlloc = resource_values ev,
      ask_RequestTime = ev_TimestampNano ev\<rparr>\<rparr>"

definition set_state :: "si_names \<Rightarrow> EventRecord \<Rightarrow> ApplicationDAOInfo \<Rightarrow> ApplicationDAOInfo" where
  "set_state names ev app =
     (let state = ChangeDetail_name names (ev_EventChangeDetail ev) in
      app\<lparr>app_StateLog := append_slice (app_StateLog app)
            \<lparr>st_Time = ev_TimestampNano ev, st_ApplicationState = state\<rparr>,
          app_State := state\<rparr>)"

definition unknown_detail :: "si_names \<Rightarrow> EventRecord \<Rightarrow> 'r Service_state \<Rightarrow> 'r Service_state" where
  "unknown_detail names ev s = logMsg LWarn
     (''unknown event EventChangeDetail type for an Event of type APP: '' @
      ChangeDetail_String names (ev_EventChangeDetail ev)) s"

definition persist_app :: "'r app_upsert \<Rightarrow> ApplicationDAOInfo \<Rightarrow> 'r Service_state \<Rightarrow> 'r Service_state" where
  "persist_app upsert app s =
     (case upsert [app] (svcRepo s) of
        (Some e, r) \<Rightarrow> logMsg LError (''could not insert application into DB: '' @ error_text e) (s\<lparr>svcRepo := r\<rparr>)
      | (None, r) \<Rightarrow> s\<lparr>svcRepo := r\<rparr>)"

definition handleAppAddEvent ::
    "si_names \<Rightarrow> app_client \<Rightarrow> EventRecord \<Rightarrow> 'r Service_state \<Rightarrow> 'r Service_state" where
  "handleAppAddEvent names client ev s =
     (let i = ev_ObjectID ev; detail = ev_EventChangeDetail ev in
      if detail = APP_NEW \<or> detail = DETAILS_NONE then fetch_application names client ev s
      else if detail = APP_ALLOC then
        (case cached i s of
           None \<Rightarrow> logMsg LWarn
             (''an allocation event was received for an application without a previous ADD event: '' @ i) s
         | Some app \<Rightarrow> set_app i (add_alloc ev app) s)
      else if detail = APP_REQUEST then
        (case cached i s of
           None \<Rightarrow> logMsg LWarn
             (''an allocation request event was received for an application without a previous ADD event: '' @ i) s
         | Some app \<Rightarrow> set_app i (add_request ev app) s)
      else unknown_detail names ev s)"

definition state_details :: "EventRecord_ChangeDetail list" where
  "state_details = [APP_ACCEPTED, APP_STARTING, APP_RUNNING, APP_COMPLETING, APP_COMPLETED,
     APP_FAILING, APP_FAILED, APP_RESUMING, APP_EXPIRED]"

definition handleAppSetEvent ::
    "si_names \<Rightarrow> app_client \<Rightarrow> 'r app_upsert \<Rightarrow> EventRecord \<Rightarrow> 'r Service_state \<Rightarrow> 'r Service_state" where
  "handleAppSetEvent names client upsert ev s =
     (let i = ev_ObjectID ev; detail = ev_EventChangeDetail ev in
      if detail = APP_NEW then fetch_application names client ev s
      else if List.member state_details detail then
        (case cached i s of
           None \<Rightarrow> logMsg LWarn
             (sprintf ''an application state change of type %s was received for an application without a previous ADD event: %s''
                [AText (ChangeDetail_name names detail), AText i]) s
         | Some app \<Rightarrow>
             (let app' = set_state names ev app; s' = set_app i app' s in
              if detail = APP_COMPLETED \<or> detail = APP_FAILED then persist_app upsert app' s' else s'))
      else unknown_detail names ev s)"

definition ignored_details :: "EventRecord_ChangeDetail list" where
  "ignored_details = [ALLOC_CANCEL, ALLOC_TIMEOUT, ALLOC_REPLACED, ALLOC_PREEMPT, ALLOC_NODEREMOVED,
     APP_REQUEST, REQUEST_TIMEOUT, REQUEST_CANCEL]"

definition handleAppRemoveEvent ::
    "si_names \<Rightarrow> 'r app_upsert \<Rightarrow> EventRecord \<Rightarrow> 'r Service_state \<Rightarrow> 'r Service_state" where
  "handleAppRemoveEvent names upsert ev s =
     (let i = ev_ObjectID ev; detail = ev_EventChangeDetail ev in
      if detail = DETAILS_NONE then s\<lparr>appMap := (appMap s)(i := None)\<rparr>
      else if detail = APP_REJECT then
        (case cached i s of
           None \<Rightarrow> logMsg LWarn
             (''an application rejection event was received for an application without a previous ADD event: '' @ i) s
         | Some app \<Rightarrow>
             (let app' = set_state names ev app in persist_app upsert app' (set_app i app' s)))
      else if List.member ignored_details detail then s
      else unknown_detail names ev s)"

definition handleAppEvent ::
    "si_names \<Rightarrow> app_client \<Rightarrow> 'r app_upsert \<Rightarrow> EventRecord \<Rightarrow> 'r Service_state \<Rightarrow> 'r Service_state" where
  "handleAppEvent names client upsert ev s =
     (case ev_EventChangeType ev of
        ChangeType_ADD \<Rightarrow> handleAppAddEvent names client ev s
      | ChangeType_SET \<Rightarrow> handleAppSetEvent names client upsert ev s
      | ChangeType_REMOVE \<Rightarrow> handleAppRemoveEvent names upsert ev s
      | ChangeType_NONE \<Rightarrow> s
      | ChangeType_other n \<Rightarrow> logMsg LWarn
          (''unknown event EventChangeType for an Event of type APP: '' @
           ChangeType_String names (ev_EventChangeType ev)) s)"

definition handleEvent ::
    "si_names \<Rightarrow> app_client \<Rightarrow> 'r app_upsert \<Rightarrow> EventRecord \<Rightarrow> 'r Service_state \<Rightarrow>
     goerror option \<times> 'r Service_state" where
  "handleEvent names client upsert ev s =
     (None, case ev_Type ev of
        UNKNOWN_EVENTRECORD_TYPE \<Rightarrow> s
      | REQUEST \<Rightarrow> s
      | APP \<Rightarrow> handleAppEvent names client upsert ev s
      | NODE \<Rightarrow> s
      | QUEUE \<Rightarrow> s
      | USERGROUP \<Rightarrow> s
      | Type_other n \<Rightarrow> logMsg LError (''unknown event type: '' @ Type_String names (ev_Type ev)) s)"

section \<open>What an event means\<close>

datatype app_action = Ignore | Fetch | Allocate | AskFor | SetState bool | Forget

definition classify :: "EventRecord \<Rightarrow> app_action" where
  "classify ev =
     (let t = ev_EventChangeType ev; d = ev_EventChangeDetail ev in
      if ev_Type ev \<noteq> APP then Ignore
      else if (t, d) \<in> {(ChangeType_ADD, APP_NEW), (ChangeType_ADD, DETAILS_NONE), (ChangeType_SET, APP_NEW)} then Fetch
      else if (t, d) = (ChangeType_ADD, APP_ALLOC) then Allocate
      else if (t, d) = (ChangeType_ADD, APP_REQUEST) then AskFor
      else if (t, d) \<in> {(ChangeType_SET, APP_COMPLETED), (ChangeType_SET, APP_FAILED), (ChangeType_REMOVE, APP_REJECT)}
        then SetState True
      else if t = ChangeType_SET \<and> List.member state_details d then SetState False
      else if (t, d) = (ChangeType_REMOVE, DETAILS_NONE) then Forget
      else Ignore)"

text \<open>One entry of the cache: its new value and the application to persist, if any.\<close>

definition entry_step ::
    "si_names \<Rightarrow> app_client \<Rightarrow> EventRecord \<Rightarrow> ApplicationDAOInfo option \<Rightarrow>
     ApplicationDAOInfo option \<times> ApplicationDAOInfo option" where
  "entry_step names client ev entry =
     (case classify ev of
        Ignore \<Rightarrow> (entry, None)
      | Fetch \<Rightarrow> (case client '''' '''' (ev_ObjectID ev) of Inr (Some app) \<Rightarrow> Some app | _ \<Rightarrow> entry, None)
      | Allocate \<Rightarrow> (map_option (add_alloc ev) entry, None)
      | AskFor \<Rightarrow> (map_option (add_request ev) entry, None)
      | SetState keep \<Rightarrow>
          (let entry' = map_option (set_state names ev) entry in (entry', if keep then entry' else None))
      | Forget \<Rightarrow> (None, None))"

section \<open>The handlers implement it\<close>

lemma cached_simps [simp]:
  "cached i (logMsg l m s) = cached i s"
  "cached i (s\<lparr>svcRepo := r\<rparr>) = cached i s"
  "cached i (set_app j a s) = (if i = j then Some a else cached i s)"
  "cached i (s\<lparr>appMap := (appMap s)(j := None)\<rparr>) = (if i = j then None else cached i s)"
  by (simp_all add: cached_def logMsg_def set_app_def)

lemma svcRepo_simps [simp]:
  "svcRepo (logMsg l m s) = svcRepo s" "svcRepo (set_app i a s) = svcRepo s"
  by (simp_all add: logMsg_def set_app_def)

lemma persist_app_simps [simp]:
  "cached i (persist_app upsert a s) = cached i s"
  "svcRepo (persist_app upsert a s) = snd (upsert [a] (svcRepo s))"
  by (simp_all add: persist_app_def split: prod.split option.split)

lemma fetch_application_simps [simp]:
  "cached i (fetch_application names client ev s) =
     (if i = ev_ObjectID ev then (case client '''' '''' i of Inr (Some app) \<Rightarrow> Some app | _ \<Rightarrow> cached i s)
      else cached i s)"
  "svcRepo (fetch_application names client ev s) = svcRepo s"
  by (auto simp: fetch_application_def split: sum.split option.split)

lemma unknown_detail_simps [simp]:
  "cached i (unknown_detail names ev s) = cached i s" "svcRepo (unknown_detail names ev s) = svcRepo s"
  by (simp_all add: unknown_detail_def)

lemmas handler_defs = handleAppAddEvent_def handleAppSetEvent_def handleAppRemoveEvent_def Let_def

definition put_entry :: "'r app_upsert \<Rightarrow> ApplicationDAOInfo option \<Rightarrow> 'r \<Rightarrow> 'r" where
  "put_entry upsert p r = (case p of None \<Rightarrow> r | Some a \<Rightarrow> snd (upsert [a] r))"

lemma set_details:
  "List.member state_details APP_COMPLETED" "List.member state_details APP_FAILED"
  "\<not> List.member state_details APP_NEW" "\<not> List.member state_details DETAILS_NONE"
  by (simp_all add: state_details_def)

lemma add_event_step:
  assumes "ev_Type ev = APP" and "ev_EventChangeType ev = ChangeType_ADD"
  shows "cached (ev_ObjectID ev) (handleAppAddEvent names client ev s) =
      fst (entry_step names client ev (cached (ev_ObjectID ev) s))"
    and "i \<noteq> ev_ObjectID ev \<Longrightarrow> cached i (handleAppAddEvent names client ev s) = cached i s"
    and "svcRepo (handleAppAddEvent names client ev s) =
      put_entry upsert (snd (entry_step names client ev (cached (ev_ObjectID ev) s))) (svcRepo s)"
  using assms
  by (auto simp: handler_defs entry_step_def classify_def put_entry_def split: option.split)

lemma set_event_step:
  assumes "ev_Type ev = APP" and "ev_EventChangeType ev = ChangeType_SET"
  shows "cached (ev_ObjectID ev) (handleAppSetEvent names client upsert ev s) =
      fst (entry_step names client ev (cached (ev_ObjectID ev) s))"
    and "i \<noteq> ev_ObjectID ev \<Longrightarrow> cached i (handleAppSetEvent names client upsert ev s) = cached i s"
    and "svcRepo (handleAppSetEvent names client upsert ev s) =
      put_entry upsert (snd (entry_step names client ev (cached (ev_ObjectID ev) s))) (svcRepo s)"
  using assms set_details
  by (auto simp: handler_defs entry_step_def classify_def put_entry_def split: option.split)

lemma remove_event_step:
  assumes "ev_Type ev = APP" and "ev_EventChangeType ev = ChangeType_REMOVE"
  shows "cached (ev_ObjectID ev) (handleAppRemoveEvent names upsert ev s) =
      fst (entry_step names client ev (cached (ev_ObjectID ev) s))"
    and "i \<noteq> ev_ObjectID ev \<Longrightarrow> cached i (handleAppRemoveEvent names upsert ev s) = cached i s"
    and "svcRepo (handleAppRemoveEvent names upsert ev s) =
      put_entry upsert (snd (entry_step names client ev (cached (ev_ObjectID ev) s))) (svcRepo s)"
  using assms
  by (auto simp: handler_defs entry_step_def classify_def put_entry_def split: option.split)

lemma entry_step_ignored: "classify ev = Ignore \<Longrightarrow> entry_step names client ev e = (e, None)"
  by (simp add: entry_step_def)

lemma handleEvent_step:
  shows "cached (ev_ObjectID ev) (snd (handleEvent names client upsert ev s)) =
      fst (entry_step names client ev (cached (ev_ObjectID ev) s))"
    and "i \<noteq> ev_ObjectID ev \<Longrightarrow> cached i (snd (handleEvent names client upsert ev s)) = cached i s"
    and "svcRepo (snd (handleEvent names client upsert ev s)) =
      put_entry upsert (snd (entry_step names client ev (cached (ev_ObjectID ev) s))) (svcRepo s)"
proof -
  have other: "classify ev = Ignore" if "ev_Type ev \<noteq> APP" using that by (simp add: classify_def)
  have none: "classify ev = Ignore" if "ev_EventChangeType ev \<notin> {ChangeType_ADD, ChangeType_SET, ChangeType_REMOVE}"
    using that by (auto simp: classify_def Let_def)
  note steps = add_event_step set_event_step remove_event_step
  show "cached (ev_ObjectID ev) (snd (handleEvent names client upsert ev s)) =
      fst (entry_step names client ev (cached (ev_ObjectID ev) s))"
    using other none steps
    by (cases "ev_Type ev"; cases "ev_EventChangeType ev")
       (simp_all add: handleEvent_def handleAppEvent_def entry_step_ignored)
  show "cached i (snd (handleEvent names client upsert ev s)) = cached i s" if "i \<noteq> ev_ObjectID ev"
    using that steps
    by (cases "ev_Type ev"; cases "ev_EventChangeType ev") (simp_all add: handleEvent_def handleAppEvent_def)
  show "svcRepo (snd (handleEvent names client upsert ev s)) =
      put_entry upsert (snd (entry_step names client ev (cached (ev_ObjectID ev) s))) (svcRepo s)"
    using other none steps
    by (cases "ev_Type ev"; cases "ev_EventChangeType ev")
       (simp_all add: handleEvent_def handleAppEvent_def entry_step_ignored put_entry_def)
qed

section \<open>Runs of events\<close>

text \<open>
  A sequence of events, each with the scheduler's answer at its time, handled in order; and
  the same sequence as steps of the entry of one application.
\<close>

definition handle_all ::
    "si_names \<Rightarrow> 'r app_upsert \<Rightarrow> (app_client \<times> EventRecord) list \<Rightarrow> 'r Service_state \<Rightarrow> 'r Service_state" where
  "handle_all names upsert evs s =
     fold (\<lambda>(client, ev) s. snd (handleEvent names client upsert ev s)) evs s"

definition entry_run ::
    "si_names \<Rightarrow> string \<Rightarrow> (app_client \<times> EventRecord) list \<Rightarrow> ApplicationDAOInfo option \<Rightarrow> ApplicationDAOInfo option" where
  "entry_run names i evs e =
     fold (\<lambda>(client, ev) e. if ev_ObjectID ev = i then fst (entry_step names client ev e) else e) evs e"

lemma handle_all_entry: "cached i (handle_all names upsert evs s) = entry_run names i evs (cached i s)"
proof (induction evs arbitrary: s)
  case Nil
  then show ?case by (simp add: handle_all_def entry_run_def)
next
  case (Cons x evs)
  obtain client ev where x: "x = (client, ev)" by fastforce
  have "cached i (snd (handleEvent names client upsert ev s)) =
      (if ev_ObjectID ev = i then fst (entry_step names client ev (cached i s)) else cached i s)"
    using handleEvent_step [where ev = ev and names = names and client = client and upsert = upsert and s = s] by auto
  with Cons.IH [of "snd (handleEvent names client upsert ev s)"] show ?case
    by (simp add: x handle_all_def entry_run_def)
qed

text \<open>The applications that a run persists, in order, computed from the entries alone.\<close>

fun persisted ::
    "si_names \<Rightarrow> (app_client \<times> EventRecord) list \<Rightarrow> (string \<Rightarrow> ApplicationDAOInfo option) \<Rightarrow> ApplicationDAOInfo list" where
  "persisted names [] c = []"
| "persisted names ((client, ev) # evs) c =
     (case entry_step names client ev (c (ev_ObjectID ev)) of (e, p) \<Rightarrow>
        (case p of None \<Rightarrow> [] | Some a \<Rightarrow> [a]) @ persisted names evs (c(ev_ObjectID ev := e)))"

lemma handle_all_persisted:
  "svcRepo (handle_all names upsert evs s) =
     fold (\<lambda>a r. snd (upsert [a] r)) (persisted names evs (\<lambda>i. cached i s)) (svcRepo s)"
proof (induction evs arbitrary: s)
  case Nil
  then show ?case by (simp add: handle_all_def)
next
  case (Cons x evs)
  obtain client ev where x: "x = (client, ev)" by fastforce
  obtain e p where ep: "entry_step names client ev (cached (ev_ObjectID ev) s) = (e, p)" by fastforce
  let ?s = "snd (handleEvent names client upsert ev s)"
  have "(\<lambda>i. cached i ?s) = (\<lambda>i. cached i s)(ev_ObjectID ev := e)"
    using handleEvent_step [where ev = ev and names = names and client = client and upsert = upsert and s = s] ep by (auto simp: fun_eq_iff)
  moreover have "svcRepo ?s = put_entry upsert p (svcRepo s)"
    using handleEvent_step(3) [where ev = ev and names = names and client = client and upsert = upsert and s = s] ep by simp
  moreover have "handle_all names upsert (x # evs) s = handle_all names upsert evs ?s"
    by (simp add: handle_all_def x)
  ultimately show ?case
    using Cons.IH [of ?s] by (simp add: x ep put_entry_def split: option.split)
qed

text \<open>The cache never holds a nil pointer.\<close>

definition no_nil :: "'r Service_state \<Rightarrow> bool" where
  "no_nil s \<longleftrightarrow> (\<forall>i. appMap s i \<noteq> Some None)"

lemma no_nil_simps [simp]:
  "no_nil (logMsg l m s) = no_nil s" "no_nil (s\<lparr>svcRepo := r\<rparr>) = no_nil s"
  by (simp_all add: no_nil_def logMsg_def)

lemma no_nil_intros [intro]:
  "no_nil s \<Longrightarrow> no_nil (set_app i a s)"
  "no_nil s \<Longrightarrow> no_nil (s\<lparr>appMap := (appMap s)(i := None)\<rparr>)"
  "no_nil s \<Longrightarrow> no_nil (persist_app upsert a s)"
  "no_nil s \<Longrightarrow> no_nil (unknown_detail names ev s)"
  "no_nil s \<Longrightarrow> no_nil (fetch_application names client ev s)"
  by (auto simp: no_nil_def set_app_def persist_app_def logMsg_def unknown_detail_def fetch_application_def
      split: prod.split option.split sum.split)

lemma handleEvent_no_nil: "no_nil s \<Longrightarrow> no_nil (snd (handleEvent names client upsert ev s))"
  by (auto simp: handleEvent_def handleAppEvent_def handler_defs
      split: EventRecord_Type.split EventRecord_ChangeType.split option.split)

section \<open>The interface to the repository\<close>

text \<open>
  What the event handlers rely on: storing applications keeps whatever the repository
  guarantees of itself.
\<close>

locale app_store =
  fixes upsert :: "'r app_upsert" and inv :: "'r \<Rightarrow> bool"
  assumes upsert_inv: "inv r \<Longrightarrow> inv (snd (upsert as r))"
begin

lemma handleEvent_inv: "inv (svcRepo s) \<Longrightarrow> inv (svcRepo (snd (handleEvent names client upsert ev s)))"
  unfolding handleEvent_step(3) by (simp add: put_entry_def upsert_inv split: option.split)

lemma handle_all_inv: "inv (svcRepo s) \<Longrightarrow> inv (svcRepo (handle_all names upsert evs s))"
  by (induction evs arbitrary: s) (auto simp: handle_all_def handleEvent_inv)

end

section \<open>Properties\<close>

text \<open>
  C10. Handling a sequence of events does to the cache entry of every application exactly what
  the events of that application mean (\<open>entry_step\<close>), in order and independently of the
  other applications, and stores exactly the applications that terminal events mean to store,
  in order.
\<close>

theorem events_refine_entries:
  "(\<forall>i. cached i (handle_all names upsert evs s) = entry_run names i evs (cached i s)) \<and>
   svcRepo (handle_all names upsert evs s) =
     fold (\<lambda>a r. snd (upsert [a] r)) (persisted names evs (\<lambda>i. cached i s)) (svcRepo s)"
  using handle_all_entry [of _ names upsert evs s] handle_all_persisted [of names upsert evs s] by blast

text \<open>A concrete event and concrete names.\<close>

definition demo_names :: si_names where
  "demo_names = \<lparr>Type_String = (\<lambda>t. ''T''), ChangeType_String = (\<lambda>t. ''C''), ChangeDetail_String = (\<lambda>d. ''D''),
     ChangeDetail_name = (\<lambda>d. if d = APP_COMPLETED then ''APP_COMPLETED'' else ''OTHER''), Event_String = (\<lambda>e. ''E'')\<rparr>"

definition demo_event :: EventRecord where
  "demo_event = \<lparr>ev_Type = APP, ev_ObjectID = ''app-1'', ev_Message = '''', ev_TimestampNano = 9,
     ev_EventChangeType = ChangeType_SET, ev_EventChangeDetail = APP_COMPLETED, ev_ReferenceID = '''',
     ev_Resource = None\<rparr>"

text \<open>
  A terminal event (completed, failed, rejected) of a cached application sets its state, logs
  the transition with the time of the event, and stores that application.
\<close>

lemma terminal_event_persists:
  assumes "ev_Type ev = APP" and "cached (ev_ObjectID ev) s = Some app"
    and "(ev_EventChangeType ev, ev_EventChangeDetail ev) \<in>
      {(ChangeType_SET, APP_COMPLETED), (ChangeType_SET, APP_FAILED), (ChangeType_REMOVE, APP_REJECT)}"
  shows "cached (ev_ObjectID ev) (snd (handleEvent names client upsert ev s)) = Some (set_state names ev app) \<and>
    svcRepo (snd (handleEvent names client upsert ev s)) = snd (upsert [set_state names ev app] (svcRepo s)) \<and>
    app_State (set_state names ev app) = ChangeDetail_name names (ev_EventChangeDetail ev) \<and>
    app_StateLog (set_state names ev app) = Some (slice_list (app_StateLog app) @
      [\<lparr>st_Time = ev_TimestampNano ev, st_ApplicationState = ChangeDetail_name names (ev_EventChangeDetail ev)\<rparr>])"
proof -
  have "classify ev = SetState True" using assms(1,3) by (auto simp: classify_def)
  with assms(2) handleEvent_step [where ev = ev and names = names and client = client and upsert = upsert and s = s]
  show ?thesis by (simp add: entry_step_def put_entry_def set_state_def append_slice_def Let_def)
qed

text \<open>
  Starting from a cache without nil pointers, no sequence of events puts one into it.
\<close>

theorem cache_has_no_nil:
  assumes "no_nil s"
  shows "no_nil (handle_all names upsert evs s)"
  using assms
  by (induction evs arbitrary: s) (auto simp: handle_all_def handleEvent_no_nil)

theorem cache_has_no_nil_witness:
  "no_nil (handle_all demo_names (\<lambda>as r. (None, r @ as)) [(\<lambda>p q i. Inr None, demo_event)]
     \<lparr>appMap = Map.empty, svcRepo = [], svcLog = []\<rparr>)"
  by (rule cache_has_no_nil) (simp add: no_nil_def)

end
