(* ===== verification/Data_Sync.thy ===== *)
theory Data_Sync
  imports Queue_Forest Repository Work_Queue Event_Handler
begin

text \<open>
  \<open>internal/yunikorn/sync.go\<close>: one data sync. The operations ask the scheduler and put a
  job on the work queue; a job is the data it captured and the repository method it calls.
  The requests of one operation run in goroutines that append their results under a mutex,
  so an operation is a function of the order in which they finish, and its lemmas hold for
  every order. The four goroutines of \<open>sync\<close> share the variable \<open>err\<close> of the enclosing
  function in three of them; the last section has them as a step relation.
\<close>

section \<open>Jobs\<close>

datatype repo_job =
    JPartitions "PartitionInfo list"
  | JQueues "PartitionQueueDAOInfo list"
  | JNodes "NodeDAOInfo list" string
  | JApplications "ApplicationDAOInfo list"
  | JNodeUtil "PartitionNodesUtilDAOInfo list"
  | JHistory "ApplicationHistoryDAOInfo list" "ContainerHistoryDAOInfo list"

text \<open>
  The closures that \<open>workqueue.Add\<close> gets: each calls a method of the service's repository. \<open>draw\<close> is
  \<open>uuid.New()\<close>, which a utilization job calls when it runs.
\<close>

primrec job_closure :: "'s Repository \<Rightarrow> ('s \<Rightarrow> string \<times> 's) \<Rightarrow> repo_job \<Rightarrow> 's \<Rightarrow> goerror option \<times> 's" where
  "job_closure R draw (JPartitions partitions) s = m_UpsertPartitions R partitions s"
| "job_closure R draw (JQueues queues) s = m_UpsertQueues R queues s"
| "job_closure R draw (JNodes nodes p) s = m_UpsertNodes R nodes p s"
| "job_closure R draw (JApplications apps) s = m_UpsertApplications R apps s"
| "job_closure R draw (JNodeUtil nus) s = (case draw s of (u, s') \<Rightarrow> m_InsertNodeUtilizations R u nus s')"
| "job_closure R draw (JHistory appsHistory containersHistory) s = m_UpdateHistory R appsHistory containersHistory s"

text \<open>The same on Postgres, method by method.\<close>

definition run_job :: "int8_codec \<Rightarrow> pgenv \<Rightarrow> repo_job \<Rightarrow> db \<Rightarrow> goerror option \<times> db" where
  "run_job int8 env job d =
     (case job of
        JPartitions ps \<Rightarrow> UpsertPartitions env ps d
      | JQueues qs \<Rightarrow> UpsertQueues env qs d
      | JNodes ns p \<Rightarrow> UpsertNodes env ns p d
      | JApplications as \<Rightarrow> UpsertApplications env as d
      | JNodeUtil nus \<Rightarrow> (case new_uuid env d of (u, d1) \<Rightarrow> InsertNodeUtilizations env u nus d1)
      | JHistory as cs \<Rightarrow> UpdateHistory int8 env as cs d)"

lemma job_closure_pg: "job_closure (pg_repository sql int8 env) (new_uuid env) job d = run_job int8 env job d"
  by (cases job) (simp_all add: run_job_def split: prod.split)

section \<open>The scheduler and the state of a sync\<close>

text \<open>The answers of the scheduler's REST API; a queue pointer may be nil.\<close>

record yk_client =
  GetPartitions_c :: "PartitionInfo list result"
  GetPartitionQueues_c :: "string \<Rightarrow> PartitionQueueDAOInfo option result"
  GetApplications_c :: "string \<Rightarrow> string \<Rightarrow> ApplicationDAOInfo list result"
  GetPartitionNodes_c :: "string \<Rightarrow> NodeDAOInfo list result"
  GetNodeUtil_c :: "PartitionNodesUtilDAOInfo list result"
  GetAppsHistory_c :: "ApplicationHistoryDAOInfo list result"
  GetContainersHistory_c :: "ContainerHistoryDAOInfo list result"

record sync_state =
  sy_wq :: "repo_job WorkQueue"
  sy_ids :: nat
  sy_log :: "(log_level \<times> string) list"

text \<open>
  \<open>s.workqueue.Add(job, WithJobName(name))\<close>; an error is logged with the text of the caller.
\<close>

definition add_job ::
    "(nat \<Rightarrow> string) \<Rightarrow> string \<Rightarrow> repo_job \<Rightarrow> string \<Rightarrow> sync_state \<Rightarrow> sync_state" where
  "add_job uuids nm job msg s =
     (case Add_check (sy_wq s) of
        Some e \<Rightarrow> s\<lparr>sy_log := sy_log s @ [(LError, msg @ error_text e)]\<rparr>
      | None \<Rightarrow> s\<lparr>sy_wq := Add_append (newItem (uuids (sy_ids s)) job [WithJobName nm]) (sy_wq s),
                  sy_ids := Suc (sy_ids s)\<rparr>)"

section \<open>The operations\<close>

definition upsertPartitions ::
    "(nat \<Rightarrow> string) \<Rightarrow> yk_client \<Rightarrow> sync_state \<Rightarrow> PartitionInfo list result \<times> sync_state" where
  "upsertPartitions uuids client s =
     (case GetPartitions_c client of
        Inl e \<Rightarrow> (Inl (Errorf_v ''could not get partitions: '' e), s)
      | Inr partitions \<Rightarrow>
          (Inr partitions, add_job uuids ''upsert_partitions'' (JPartitions partitions)
             ''could not add upsert partitions job to workqueue: '' s))"

text \<open>
  \<open>flattenQueues\<close>: the queue, then its children with the partition of the queue. The list
  holds pointers, and the children are changed in place before they are copied, so an element
  shows the partition of its root in all its descendants (\<open>propagate\<close>).
\<close>

function flattenQueues :: "PartitionQueueDAOInfo list \<Rightarrow> PartitionQueueDAOInfo list" where
  "flattenQueues [] = []"
| "flattenQueues (q # qs) =
     propagate (queue_Partition (qinfo q)) q #
     (if qChildren q \<noteq> []
      then flattenQueues (map (set_partition (queue_Partition (qinfo q))) (qChildren q)) else []) @
     flattenQueues qs"
  by pat_completeness auto
termination
  by (relation "measure (\<lambda>qs. sum_list (map queue_count qs))") (auto simp: queue_count_children)

text \<open>
  One goroutine of \<open>upsertPartitionQueues\<close> for each partition, in the order \<open>ps\<close> in which
  they finish: the errors and the queues collected.
\<close>

primrec collect_queues ::
    "yk_client \<Rightarrow> PartitionInfo list \<Rightarrow> goerror list \<Rightarrow> PartitionQueueDAOInfo option list \<Rightarrow>
     goerror list \<times> PartitionQueueDAOInfo option list" where
  "collect_queues client [] errs queues = (errs, queues)"
| "collect_queues client (p # ps) errs queues =
     (case GetPartitionQueues_c client (part_Name p) of
        Inl e \<Rightarrow> collect_queues client ps
          (errs @ [ErrorText (sprintf ''could not get queues for partition %s: %v''
             [AText (part_Name p), AText (error_text e)])]) queues
      | Inr q \<Rightarrow> collect_queues client ps errs (queues @ [q]))"

text \<open>\<open>None\<close> is the panic of \<open>flattenQueues\<close> on a nil queue.\<close>

definition upsertPartitionQueues ::
    "(nat \<Rightarrow> string) \<Rightarrow> yk_client \<Rightarrow> PartitionInfo list \<Rightarrow> sync_state \<Rightarrow>
     (PartitionQueueDAOInfo list result \<times> sync_state) option" where
  "upsertPartitionQueues uuids client ps s =
     (case collect_queues client ps [] [] of (errs, qs) \<Rightarrow>
        if errs \<noteq> [] then
          Some (Inl (ErrorText (''failed to get queues for some partitions: '' @ format_errors errs)), s)
        else (case those qs of
            None \<Rightarrow> None
          | Some trees \<Rightarrow>
              let flat = flattenQueues trees in
              Some (Inr flat, add_job uuids ''upsert_queues'' (JQueues flat)
                ''could not add upsert queues job to workqueue: '' s)))"

text \<open>One goroutine of \<open>upsertPartitionNodes\<close> for each partition, in the order in which they finish.\<close>

primrec collect_nodes ::
    "(nat \<Rightarrow> string) \<Rightarrow> yk_client \<Rightarrow> PartitionInfo list \<Rightarrow> goerror list \<Rightarrow> sync_state \<Rightarrow>
     goerror list \<times> sync_state" where
  "collect_nodes uuids client [] errs s = (errs, s)"
| "collect_nodes uuids client (p # ps) errs s =
     (case GetPartitionNodes_c client (part_Name p) of
        Inl e \<Rightarrow> collect_nodes uuids client ps
          (errs @ [ErrorText (sprintf ''could not get nodes for partition %s: %v''
             [AText (part_Name p), AText (error_text e)])]) s
      | Inr nodes \<Rightarrow> collect_nodes uuids client ps errs
          (add_job uuids (''upsert_nodes_for_partition_'' @ part_Name p) (JNodes nodes (part_Name p))
             (''could not add upsert nodes for partition '' @ part_Name p @ '' job to workqueue: '') s))"

definition upsertPartitionNodes ::
    "(nat \<Rightarrow> string) \<Rightarrow> yk_client \<Rightarrow> PartitionInfo list \<Rightarrow> sync_state \<Rightarrow> goerror option \<times> sync_state" where
  "upsertPartitionNodes uuids client ps s =
     (case collect_nodes uuids client ps [] s of (errs, s') \<Rightarrow>
        (if errs \<noteq> [] then Some (ErrorText (''failed to get nodes for some partitions: '' @ format_errors errs))
         else None, s'))"

primrec collect_apps ::
    "yk_client \<Rightarrow> PartitionQueueDAOInfo list \<Rightarrow> goerror list \<Rightarrow> ApplicationDAOInfo list \<Rightarrow>
     goerror list \<times> ApplicationDAOInfo list" where
  "collect_apps client [] errs apps = (errs, apps)"
| "collect_apps client (q # qs) errs apps =
     (case GetApplications_c client (queue_Partition (qinfo q)) (queue_QueueName (qinfo q)) of
        Inl e \<Rightarrow> collect_apps client qs
          (errs @ [ErrorText (sprintf ''could not get applications for partition %s, queue %s: %v''
             [AText (queue_Partition (qinfo q)), AText (queue_QueueName (qinfo q)), AText (error_text e)])]) apps
      | Inr queueApps \<Rightarrow> collect_apps client qs errs (apps @ queueApps))"

definition upsertApplications ::
    "(nat \<Rightarrow> string) \<Rightarrow> yk_client \<Rightarrow> PartitionQueueDAOInfo list \<Rightarrow> sync_state \<Rightarrow> goerror option \<times> sync_state" where
  "upsertApplications uuids client qs s =
     (case collect_apps client qs [] [] of (errs, apps) \<Rightarrow>
        if errs \<noteq> [] then
          (Some (ErrorText (''failed to get applications for some queues: '' @ format_errors errs)), s)
        else (None, add_job uuids ''upsert_applications'' (JApplications apps)
          ''could not add upsert applications job to workqueue: '' s))"

definition upsertNodeUtilizations ::
    "(nat \<Rightarrow> string) \<Rightarrow> yk_client \<Rightarrow> sync_state \<Rightarrow> goerror option \<times> sync_state" where
  "upsertNodeUtilizations uuids client s =
     (case GetNodeUtil_c client of
        Inl e \<Rightarrow> (Some (Errorf_v ''could not get node utilizations: '' e), s)
      | Inr nus \<Rightarrow> (None, add_job uuids ''upsert_node_utilizations'' (JNodeUtil nus)
          ''could not add insert node utilizations job to workqueue: '' s))"

definition updateAppsHistory ::
    "(nat \<Rightarrow> string) \<Rightarrow> yk_client \<Rightarrow> sync_state \<Rightarrow> goerror option \<times> sync_state" where
  "updateAppsHistory uuids client s =
     (case GetAppsHistory_c client of
        Inl e \<Rightarrow> (Some (Errorf_v ''could not get apps history: '' e), s)
      | Inr appsHistory \<Rightarrow>
          (case GetContainersHistory_c client of
             Inl e \<Rightarrow> (Some (Errorf_v ''could not get containers history: '' e), s)
           | Inr containersHistory \<Rightarrow>
               (None, add_job uuids ''update_apps_history'' (JHistory appsHistory containersHistory)
                  ''could not add update apps history job to workqueue: '' s)))"

section \<open>The goroutines of sync\<close>

datatype worker = WNodes | WUtil | WHist

datatype worker_pc = Ready | Assigned | Reporting | Finished

datatype chain_pc = QStart | QApps "PartitionQueueDAOInfo list" | QDone

text \<open>The call in the \<open>if err = ...; err != nil\<close> of a goroutine, and the message of its error.\<close>

primrec worker_call ::
    "worker \<Rightarrow> (nat \<Rightarrow> string) \<Rightarrow> yk_client \<Rightarrow> PartitionInfo list \<Rightarrow> sync_state \<Rightarrow> goerror option \<times> sync_state" where
  "worker_call WNodes uuids client ps s = upsertPartitionNodes uuids client ps s"
| "worker_call WUtil uuids client ps s = upsertNodeUtilizations uuids client s"
| "worker_call WHist uuids client ps s = updateAppsHistory uuids client s"

primrec worker_msg :: "worker \<Rightarrow> string" where
  "worker_msg WNodes = ''error getting and upserting nodes: ''"
| "worker_msg WUtil = ''error getting and upserting node utilizations: ''"
| "worker_msg WHist = ''error updating apps history: ''"

text \<open>
  \<open>errVar\<close> is the variable \<open>err\<close> of \<open>sync\<close>, which the three goroutines assign, test and
  read again for the message; a nil error prints as \<open><nil>\<close>.
\<close>

record sync_sys =
  sv :: sync_state
  errVar :: "goerror option"
  allErrs :: "goerror list"
  pcs :: "worker \<Rightarrow> worker_pc"
  chain :: chain_pc
  crashed :: bool

definition report :: "string \<Rightarrow> goerror option \<Rightarrow> goerror" where
  "report msg e = ErrorText (msg @ (case e of None \<Rightarrow> ''<nil>'' | Some x \<Rightarrow> error_text x))"

definition sync_start :: "sync_state \<Rightarrow> sync_sys" where
  "sync_start s = \<lparr>sv = s, errVar = None, allErrs = [], pcs = (\<lambda>w. Ready), chain = QStart, crashed = False\<rparr>"

inductive sync_step ::
    "(nat \<Rightarrow> string) \<Rightarrow> yk_client \<Rightarrow> PartitionInfo list \<Rightarrow> sync_sys \<Rightarrow> sync_sys \<Rightarrow> bool"
  for uuids client ps where
  assign: "pcs s w = Ready \<Longrightarrow> mset ps' = mset ps \<Longrightarrow> worker_call w uuids client ps' (sv s) = (r, sv') \<Longrightarrow>
    sync_step uuids client ps s (s\<lparr>sv := sv', errVar := r, pcs := (pcs s)(w := Assigned)\<rparr>)"
| test_nil: "pcs s w = Assigned \<Longrightarrow> errVar s = None \<Longrightarrow>
    sync_step uuids client ps s (s\<lparr>pcs := (pcs s)(w := Finished)\<rparr>)"
| test_err: "pcs s w = Assigned \<Longrightarrow> errVar s = Some e \<Longrightarrow>
    sync_step uuids client ps s (s\<lparr>pcs := (pcs s)(w := Reporting)\<rparr>)"
| add_err: "pcs s w = Reporting \<Longrightarrow>
    sync_step uuids client ps s (s\<lparr>allErrs := allErrs s @ [report (worker_msg w) (errVar s)],
      pcs := (pcs s)(w := Finished)\<rparr>)"
| queues_failed: "chain s = QStart \<Longrightarrow> mset ps' = mset ps \<Longrightarrow>
    upsertPartitionQueues uuids client ps' (sv s) = Some (Inl e, sv') \<Longrightarrow>
    sync_step uuids client ps s (s\<lparr>sv := sv', chain := QDone,
      allErrs := allErrs s @ [report ''error getting and upserting queues: '' (Some e)]\<rparr>)"
| queues_ok: "chain s = QStart \<Longrightarrow> mset ps' = mset ps \<Longrightarrow>
    upsertPartitionQueues uuids client ps' (sv s) = Some (Inr qs, sv') \<Longrightarrow>
    sync_step uuids client ps s (s\<lparr>sv := sv', chain := QApps qs\<rparr>)"
| queues_crash: "chain s = QStart \<Longrightarrow> mset ps' = mset ps \<Longrightarrow>
    upsertPartitionQueues uuids client ps' (sv s) = None \<Longrightarrow>
    sync_step uuids client ps s (s\<lparr>crashed := True, chain := QDone\<rparr>)"
| apps: "chain s = QApps qs \<Longrightarrow> mset qs' = mset qs \<Longrightarrow>
    upsertApplications uuids client qs' (sv s) = (r, sv') \<Longrightarrow>
    sync_step uuids client ps s (s\<lparr>sv := sv', chain := QDone,
      allErrs := allErrs s @ (case r of None \<Rightarrow> []
        | Some e \<Rightarrow> [report ''error getting and upserting applications: '' (Some e)])\<rparr>)"

inductive sync_reach ::
    "(nat \<Rightarrow> string) \<Rightarrow> yk_client \<Rightarrow> PartitionInfo list \<Rightarrow> sync_state \<Rightarrow> sync_sys \<Rightarrow> bool"
  for uuids client ps s0 where
  start: "sync_reach uuids client ps s0 (sync_start s0)"
| step: "sync_reach uuids client ps s0 s \<Longrightarrow> sync_step uuids client ps s s' \<Longrightarrow> sync_reach uuids client ps s0 s'"

text \<open>After \<open>wg.Wait()\<close>: the result of \<open>sync\<close>.\<close>

definition all_done :: "sync_sys \<Rightarrow> bool" where
  "all_done s \<longleftrightarrow> (\<forall>w. pcs s w = Finished) \<and> chain s = QDone \<and> \<not> crashed s"

definition sync_result :: "sync_sys \<Rightarrow> goerror option" where
  "sync_result s = (if allErrs s \<noteq> []
     then Some (ErrorText (''some errors encountered while syncing data: '' @ format_errors (allErrs s))) else None)"

text \<open>
  A run of \<open>sync\<close>: the partitions first; then the goroutines, in any order; \<open>sync\<close> can return
  \<open>r\<close> with the state \<open>s'\<close>.
\<close>

definition sync_returns ::
    "(nat \<Rightarrow> string) \<Rightarrow> yk_client \<Rightarrow> sync_state \<Rightarrow> goerror option \<Rightarrow> sync_state \<Rightarrow> bool" where
  "sync_returns uuids client s r s' \<longleftrightarrow>
     (case upsertPartitions uuids client s of
        (Inl e, s1) \<Rightarrow> r = Some (Errorf_v ''error getting and upserting partitions: '' e) \<and> s' = s1
      | (Inr ps, s1) \<Rightarrow> (\<exists>c. sync_reach uuids client ps s1 c \<and> all_done c \<and> r = sync_result c \<and> s' = sv c))"

section \<open>When the scheduler answers\<close>

primrec worker_fails :: "yk_client \<Rightarrow> PartitionInfo list \<Rightarrow> worker \<Rightarrow> bool" where
  "worker_fails client ps WNodes \<longleftrightarrow> (\<exists>p \<in> set ps. \<exists>e. GetPartitionNodes_c client (part_Name p) = Inl e)"
| "worker_fails client ps WUtil \<longleftrightarrow> (\<exists>e. GetNodeUtil_c client = Inl e)"
| "worker_fails client ps WHist \<longleftrightarrow>
     (\<exists>e. GetAppsHistory_c client = Inl e) \<or> (\<exists>e. GetContainersHistory_c client = Inl e)"

definition chain_fails :: "yk_client \<Rightarrow> PartitionInfo list \<Rightarrow> bool" where
  "chain_fails client ps \<longleftrightarrow> (\<exists>p \<in> set ps. \<exists>e. GetPartitionQueues_c client (part_Name p) = Inl e)"

lemma collect_nodes_errs:
  "fst (collect_nodes uuids client ps errs s) = [] \<longleftrightarrow> errs = [] \<and> \<not> worker_fails client ps WNodes"
  by (induction ps arbitrary: errs s) (auto split: sum.split)

lemma collect_queues_errs:
  "fst (collect_queues client ps errs qs) = [] \<longleftrightarrow> errs = [] \<and> \<not> chain_fails client ps"
  by (induction ps arbitrary: errs qs) (auto simp: chain_fails_def split: sum.split)

lemma worker_fails_mset: "mset ps' = mset ps \<Longrightarrow> worker_fails client ps' w = worker_fails client ps w"
  by (cases w) (auto dest: mset_eq_setD)

lemma chain_fails_mset: "mset ps' = mset ps \<Longrightarrow> chain_fails client ps' = chain_fails client ps"
  by (auto simp: chain_fails_def dest: mset_eq_setD)

lemma worker_call_fails: "fst (worker_call w uuids client ps s) = None \<longleftrightarrow> \<not> worker_fails client ps w"
proof (cases w)
  case WNodes
  then show ?thesis
    using collect_nodes_errs [of uuids client ps "[]" s]
    by (cases "collect_nodes uuids client ps [] s") (simp add: upsertPartitionNodes_def)
qed (auto simp: upsertNodeUtilizations_def updateAppsHistory_def split: sum.split)

lemma worker_callD:
  assumes "worker_call w uuids client ps' s = (r, s')" and "mset ps' = mset ps"
  shows "r = None \<longleftrightarrow> \<not> worker_fails client ps w"
  using worker_call_fails [of w uuids client ps' s] worker_fails_mset [OF assms(2)] assms(1) by simp

section \<open>What sync reports\<close>

text \<open>A failure of the queue requests is always reported: that goroutine has its own variable.\<close>

lemma chain_reported:
  assumes "sync_reach uuids client ps s0 s" and "chain_fails client ps"
  shows "\<not> crashed s \<and> (chain s = QStart \<or> chain s = QDone \<and> allErrs s \<noteq> [])"
  using assms(1)
proof (induction rule: sync_reach.induct)
  case start
  then show ?case by (simp add: sync_start_def)
next
  case (step s s')
  have q: "\<exists>e. upsertPartitionQueues uuids client ps' x = Some (Inl e, x)" if "mset ps' = mset ps" for ps' x
    using collect_queues_errs [of client ps' "[]" "[]"] assms(2) chain_fails_mset [OF that]
    by (auto simp: upsertPartitionQueues_def split: prod.split)
  from step.hyps(2) step.IH show ?case
  proof (cases rule: sync_step.cases)
    case (queues_ok ps' qs sv')
    then show ?thesis using q [of ps' "sv s"] by auto
  next
    case (queues_crash ps')
    then show ?thesis using q [of ps' "sv s"] by auto
  qed auto
qed

text \<open>Without any failing request nothing is reported, in any order of the goroutines.\<close>

definition no_failures :: "yk_client \<Rightarrow> PartitionInfo list \<Rightarrow> bool" where
  "no_failures client ps \<longleftrightarrow> (\<forall>w. \<not> worker_fails client ps w) \<and> \<not> chain_fails client ps \<and>
     (\<forall>p q e. GetApplications_c client p q \<noteq> Inl e)"

lemma collect_apps_ok:
  assumes "\<forall>p q e. GetApplications_c client p q \<noteq> Inl e"
  shows "collect_apps client qs errs apps = (errs, apps @ concat (map (\<lambda>q.
    projr (GetApplications_c client (queue_Partition (qinfo q)) (queue_QueueName (qinfo q)))) qs))"
proof (induction qs arbitrary: apps)
  case Nil
  then show ?case by simp
next
  case (Cons q qs)
  obtain as where "GetApplications_c client (queue_Partition (qinfo q)) (queue_QueueName (qinfo q)) = Inr as"
    using assms by (cases "GetApplications_c client (queue_Partition (qinfo q)) (queue_QueueName (qinfo q))") auto
  with Cons show ?case by simp
qed

lemma no_failures_quiet:
  assumes "sync_reach uuids client ps s0 s" and "no_failures client ps"
  shows "errVar s = None \<and> allErrs s = [] \<and> (\<forall>w. pcs s w \<noteq> Reporting)"
  using assms(1)
proof (induction rule: sync_reach.induct)
  case start
  then show ?case by (simp add: sync_start_def)
next
  case (step s s')
  from step.hyps(2) step.IH show ?case
  proof (cases rule: sync_step.cases)
    case (assign w ps' r sv')
    then have "r = None" using worker_callD [of w uuids client ps' "sv s" r sv' ps] assms(2)
      by (simp add: no_failures_def)
    with assign step.IH show ?thesis by simp
  next
    case (queues_failed ps' e sv')
    then have "fst (collect_queues client ps' [] []) \<noteq> []"
      by (auto simp: upsertPartitionQueues_def Let_def split: prod.splits if_splits option.splits)
    then show ?thesis
      using collect_queues_errs [of client ps' "[]" "[]"] chain_fails_mset [OF queues_failed(3)] assms(2)
      by (simp add: no_failures_def)
  next
    case (apps qs qs' r sv')
    then have "r = None"
      using collect_apps_ok [of client qs' "[]" "[]"] assms(2)
      by (simp add: upsertApplications_def no_failures_def)
    with apps step.IH show ?thesis by simp
  qed auto
qed

text \<open>When all three goroutines on the shared variable fail, each of them reports.\<close>

lemma all_fail_reported:
  assumes "sync_reach uuids client ps s0 s" and "\<forall>w. worker_fails client ps w"
  shows "((\<exists>w. pcs s w \<noteq> Ready) \<longrightarrow> errVar s \<noteq> None) \<and>
    (\<forall>w. pcs s w = Finished \<longrightarrow> (\<exists>e. report (worker_msg w) (Some e) \<in> set (allErrs s)))"
  using assms(1)
proof (induction rule: sync_reach.induct)
  case start
  then show ?case by (simp add: sync_start_def)
next
  case (step s s')
  from step.hyps(2) step.IH show ?case
  proof (cases rule: sync_step.cases)
    case (assign w ps' r sv')
    then have "r \<noteq> None"
      using worker_callD [of w uuids client ps' "sv s" r sv' ps] assms(2) by simp
    with assign step.IH show ?thesis by auto
  next
    case (test_nil w)
    then show ?thesis using step.IH by (metis worker_pc.distinct(1))
  next
    case (add_err w)
    then obtain e where "errVar s = Some e" using step.IH by (metis not_None_eq worker_pc.distinct(3))
    with add_err step.IH show ?thesis by auto
  qed auto
qed

section \<open>A failure can go unreported\<close>

definition same_but_workers :: "sync_sys \<Rightarrow> sync_sys \<Rightarrow> bool" where
  "same_but_workers s t \<longleftrightarrow> chain t = chain s \<and> allErrs t = allErrs s \<and> crashed t = crashed s"

lemma assign_workers:
  assumes "sync_reach uuids client ps s0 s" and "\<forall>w. pcs s w = Ready" and "distinct ws"
  shows "\<exists>t. sync_reach uuids client ps s0 t \<and> same_but_workers s t \<and>
    (\<forall>w. pcs t w = (if w \<in> set ws then Assigned else Ready)) \<and>
    (ws \<noteq> [] \<longrightarrow> (errVar t = None \<longleftrightarrow> \<not> worker_fails client ps (last ws)))"
  using assms(3)
proof (induction ws rule: rev_induct)
  case Nil
  then show ?case using assms(1,2) by (auto simp: same_but_workers_def)
next
  case (snoc w ws)
  then obtain t where t: "sync_reach uuids client ps s0 t" "same_but_workers s t"
      "\<forall>v. pcs t v = (if v \<in> set ws then Assigned else Ready)"
    by auto
  obtain r sv' where c: "worker_call w uuids client ps (sv t) = (r, sv')" by fastforce
  let ?t = "t\<lparr>sv := sv', errVar := r, pcs := (pcs t)(w := Assigned)\<rparr>"
  have "sync_step uuids client ps t ?t"
    using snoc.prems t(3) c by (intro sync_step.assign [of t w ps ps]) simp_all
  with t(1) have "sync_reach uuids client ps s0 ?t" by (rule sync_reach.step)
  moreover have "r = None \<longleftrightarrow> \<not> worker_fails client ps w" using worker_callD [OF c refl] .
  ultimately show ?case
    using t(2,3) by (intro exI [of _ ?t]) (auto simp: same_but_workers_def)
qed

lemma finish_workers:
  assumes "sync_reach uuids client ps s0 s" and "errVar s = None" and "distinct ws" and "\<forall>w \<in> set ws. pcs s w = Assigned"
  shows "\<exists>t. sync_reach uuids client ps s0 t \<and> same_but_workers s t \<and>
    (\<forall>w. pcs t w = (if w \<in> set ws then Finished else pcs s w))"
proof -
  have "distinct ws \<Longrightarrow> \<forall>w \<in> set ws. pcs s w = Assigned \<Longrightarrow>
    \<exists>t. sync_reach uuids client ps s0 t \<and> same_but_workers s t \<and> errVar t = None \<and>
    (\<forall>w. pcs t w = (if w \<in> set ws then Finished else pcs s w))"
  proof (induction ws)
    case Nil
    then show ?case using assms(1,2) by (auto simp: same_but_workers_def)
  next
    case (Cons w ws)
    then obtain t where t: "sync_reach uuids client ps s0 t" "same_but_workers s t" "errVar t = None"
        "\<forall>v. pcs t v = (if v \<in> set ws then Finished else pcs s v)"
      by auto
    let ?t = "t\<lparr>pcs := (pcs t)(w := Finished)\<rparr>"
    have "sync_step uuids client ps t ?t"
      using Cons.prems t(3,4) by (intro sync_step.test_nil) simp_all
    with t(1) have "sync_reach uuids client ps s0 ?t" by (rule sync_reach.step)
    with t show ?case by (intro exI [of _ ?t]) (auto simp: same_but_workers_def)
  qed
  with assms(3,4) show ?thesis by blast
qed

lemma workers_enum: "\<exists>ws. distinct ws \<and> set ws = (UNIV :: worker set) \<and> ws \<noteq> [] \<and> last ws = w"
proof (cases w)
  case WNodes
  then show ?thesis by (intro exI [of _ "[WUtil, WHist, WNodes]"]) (auto intro: worker.exhaust)
next
  case WUtil
  then show ?thesis by (intro exI [of _ "[WNodes, WHist, WUtil]"]) (auto intro: worker.exhaust)
next
  case WHist
  then show ?thesis by (intro exI [of _ "[WNodes, WUtil, WHist]"]) (auto intro: worker.exhaust)
qed

text \<open>The chain of queues and applications on its own.\<close>

definition no_nil_queues :: "yk_client \<Rightarrow> PartitionInfo list \<Rightarrow> bool" where
  "no_nil_queues client ps \<longleftrightarrow> (\<forall>p \<in> set ps. GetPartitionQueues_c client (part_Name p) \<noteq> Inr None)"

lemma collect_queues_ok:
  assumes "\<not> chain_fails client ps" and "no_nil_queues client ps"
  shows "\<exists>trees. collect_queues client ps errs qs = (errs, qs @ map Some trees) \<and>
    map (\<lambda>p. GetPartitionQueues_c client (part_Name p)) ps = map (\<lambda>t. Inr (Some t)) trees"
  using assms
proof (induction ps arbitrary: qs)
  case Nil
  then show ?case by simp
next
  case (Cons p ps)
  obtain t where t: "GetPartitionQueues_c client (part_Name p) = Inr (Some t)"
    using Cons.prems by (cases "GetPartitionQueues_c client (part_Name p)")
      (auto simp: chain_fails_def no_nil_queues_def)
  obtain trees where "collect_queues client ps errs (qs @ [Some t]) = (errs, (qs @ [Some t]) @ map Some trees)"
      "map (\<lambda>p. GetPartitionQueues_c client (part_Name p)) ps = map (\<lambda>t. Inr (Some t)) trees"
    using Cons.IH [of "qs @ [Some t]"] Cons.prems by (auto simp: chain_fails_def no_nil_queues_def)
  with t show ?case by (intro exI [of _ "t # trees"]) simp
qed

lemma upsertPartitionQueues_ok:
  assumes "\<not> chain_fails client ps" and "no_nil_queues client ps"
  shows "\<exists>trees. map (\<lambda>p. GetPartitionQueues_c client (part_Name p)) ps = map (\<lambda>t. Inr (Some t)) trees \<and>
    upsertPartitionQueues uuids client ps s = Some (Inr (flattenQueues trees),
      add_job uuids ''upsert_queues'' (JQueues (flattenQueues trees))
        ''could not add upsert queues job to workqueue: '' s)"
proof -
  obtain trees where t: "collect_queues client ps [] [] = ([], map Some trees)"
      "map (\<lambda>p. GetPartitionQueues_c client (part_Name p)) ps = map (\<lambda>t. Inr (Some t)) trees"
    using collect_queues_ok [OF assms, of "[]" "[]"] by auto
  have "those (map Some trees) = Some trees" by (induction trees) simp_all
  with t show ?thesis by (intro exI [of _ trees]) (simp add: upsertPartitionQueues_def Let_def)
qed

lemma chain_runs:
  assumes "sync_reach uuids client ps s0 s" and "chain s = QStart" and "\<not> chain_fails client ps"
    and "no_nil_queues client ps" and "\<forall>p q e. GetApplications_c client p q \<noteq> Inl e"
  shows "\<exists>t. sync_reach uuids client ps s0 t \<and> chain t = QDone \<and> pcs t = pcs s \<and> allErrs t = allErrs s \<and>
    crashed t = crashed s"
proof -
  obtain qs sv1 where q: "upsertPartitionQueues uuids client ps (sv s) = Some (Inr qs, sv1)"
    using upsertPartitionQueues_ok [OF assms(3,4)] by blast
  let ?s1 = "s\<lparr>sv := sv1, chain := QApps qs\<rparr>"
  have "sync_step uuids client ps s ?s1"
    by (rule sync_step.queues_ok [OF assms(2) refl q])
  with assms(1) have r1: "sync_reach uuids client ps s0 ?s1" by (rule sync_reach.step)
  obtain sv2 where a: "upsertApplications uuids client qs (sv ?s1) = (None, sv2)"
    using collect_apps_ok [OF assms(5), of qs "[]" "[]"] by (simp add: upsertApplications_def)
  have "sync_step uuids client ps ?s1 (?s1\<lparr>sv := sv2, chain := QDone,
      allErrs := allErrs ?s1 @ (case None of None \<Rightarrow> []
        | Some e \<Rightarrow> [report ''error getting and upserting applications: '' (Some e)])\<rparr>)"
    by (rule sync_step.apps [OF _ refl a]) simp
  from sync_reach.step [OF r1 this] show ?thesis
    by (intro exI [of _ "?s1\<lparr>sv := sv2, chain := QDone,
      allErrs := allErrs ?s1 @ (case None of None \<Rightarrow> []
        | Some e \<Rightarrow> [report ''error getting and upserting applications: '' (Some e)])\<rparr>"]) simp
qed

text \<open>
  If one of the three goroutines succeeds, there is a run in which it assigns nil after the
  failures of the others and before their tests: \<open>sync\<close> reports success.
\<close>

lemma failure_can_be_lost:
  assumes "\<not> worker_fails client ps w" and "\<not> chain_fails client ps" and "no_nil_queues client ps"
    and "\<forall>p q e. GetApplications_c client p q \<noteq> Inl e"
  shows "\<exists>t. sync_reach uuids client ps s0 t \<and> all_done t \<and> sync_result t = None"
proof -
  obtain ws where ws: "distinct ws" "set ws = UNIV" "ws \<noteq> []" "last ws = w" using workers_enum by blast
  obtain t1 where t1: "sync_reach uuids client ps s0 t1" "same_but_workers (sync_start s0) t1"
      "\<forall>w. pcs t1 w = Assigned" "errVar t1 = None"
    using assign_workers [OF sync_reach.start [of uuids client ps s0] _ ws(1)] ws(2-4) assms(1)
    by (auto simp: sync_start_def)
  obtain t2 where t2: "sync_reach uuids client ps s0 t2" "same_but_workers t1 t2" "\<forall>w. pcs t2 w = Finished"
    using finish_workers [OF t1(1,4) ws(1)] t1(3) ws(2) by auto
  have "chain t2 = QStart" using t1(2) t2(2) by (simp add: same_but_workers_def sync_start_def)
  then obtain t where "sync_reach uuids client ps s0 t" "chain t = QDone" "pcs t = pcs t2"
      "allErrs t = allErrs t2" "crashed t = crashed t2"
    using chain_runs [OF t2(1) _ assms(2-4)] by blast
  moreover have "allErrs t2 = []" "\<not> crashed t2"
    using t1(2) t2(2) by (simp_all add: same_but_workers_def sync_start_def)
  ultimately show ?thesis using t2(3) by (auto simp: all_done_def sync_result_def)
qed

section \<open>The jobs that a sync queues\<close>

definition jobs :: "sync_state \<Rightarrow> repo_job list" where
  "jobs s = map item_job (queue (sy_wq s))"

lemma add_job_simps [simp]:
  "jobs (add_job uuids nm j msg s) = (if started (sy_wq s) then jobs s @ [j] else jobs s)"
  "started (sy_wq (add_job uuids nm j msg s)) = started (sy_wq s)"
  by (simp_all add: add_job_def jobs_def Add_check_def Add_append_def newItem_def WithJobName_def)

lemma collect_nodes_jobs:
  "started (sy_wq (snd (collect_nodes uuids client ps errs s))) = started (sy_wq s)"
  "\<not> started (sy_wq s) \<Longrightarrow> jobs (snd (collect_nodes uuids client ps errs s)) = jobs s"
  by (induction ps arbitrary: errs s) (auto split: sum.split)

lemma worker_call_jobs:
  assumes "worker_call w uuids client ps s = (r, s')"
  shows "started (sy_wq s') = started (sy_wq s)" and "\<not> started (sy_wq s) \<Longrightarrow> jobs s' = jobs s"
  using assms collect_nodes_jobs [where uuids = uuids and client = client and ps = ps and errs = "[]" and s = s]
  by (cases w; auto simp: upsertPartitionNodes_def upsertNodeUtilizations_def updateAppsHistory_def
      split: prod.splits sum.splits)+

lemma chain_calls_jobs:
  "upsertPartitionQueues uuids client ps s = Some (x, s') \<Longrightarrow>
     started (sy_wq s') = started (sy_wq s) \<and> (\<not> started (sy_wq s) \<longrightarrow> jobs s' = jobs s)"
  "upsertApplications uuids client qs s = (r, s') \<Longrightarrow>
     started (sy_wq s') = started (sy_wq s) \<and> (\<not> started (sy_wq s) \<longrightarrow> jobs s' = jobs s)"
  by (auto simp: upsertPartitionQueues_def upsertApplications_def Let_def
      split: prod.splits if_splits option.splits)

text \<open>A sync that runs before the work queue has started stores nothing.\<close>

lemma sync_not_started:
  assumes "sync_reach uuids client ps s0 s" and "\<not> started (sy_wq s0)"
  shows "\<not> started (sy_wq (sv s)) \<and> jobs (sv s) = jobs s0"
  using assms(1)
proof (induction rule: sync_reach.induct)
  case start
  then show ?case using assms(2) by (simp add: sync_start_def)
next
  case (step s s')
  from step.hyps(2) step.IH show ?case
    by (cases rule: sync_step.cases) (auto dest: worker_call_jobs chain_calls_jobs)
qed

section \<open>Properties\<close>

text \<open>A scheduler that answers every request, with one partition.\<close>

definition demo_client :: yk_client where
  "demo_client = \<lparr>GetPartitions_c = Inr [demo_partition], GetPartitionQueues_c = (\<lambda>p. Inr (Some demo_tree)),
     GetApplications_c = (\<lambda>p q. Inr []), GetPartitionNodes_c = (\<lambda>p. Inr []), GetNodeUtil_c = Inr [],
     GetAppsHistory_c = Inr [], GetContainersHistory_c = Inr []\<rparr>"

definition demo_sync_state :: sync_state where
  "demo_sync_state = \<lparr>sy_wq = Run_start (NewWorkQueue []), sy_ids = 0, sy_log = []\<rparr>"

lemma sync_returns_partitions:
  assumes "GetPartitions_c client = Inr ps"
  obtains s1 where "started (sy_wq s1) = started (sy_wq s)" "\<not> started (sy_wq s) \<Longrightarrow> jobs s1 = jobs s"
    "\<And>r s'. sync_returns uuids client s r s' \<longleftrightarrow>
       (\<exists>c. sync_reach uuids client ps s1 c \<and> all_done c \<and> r = sync_result c \<and> s' = sv c)"
  using assms that [of "add_job uuids ''upsert_partitions'' (JPartitions ps)
    ''could not add upsert partitions job to workqueue: '' s"]
  by (simp add: sync_returns_def upsertPartitions_def)

lemma worker_forall: "(\<forall>w. P w) \<longleftrightarrow> P WNodes \<and> P WUtil \<and> P WHist"
  by (metis worker.exhaust)

lemma answered_run:
  assumes "no_failures client ps" and "no_nil_queues client ps"
  shows "\<exists>t. sync_reach uuids client ps s0 t \<and> all_done t \<and> sync_result t = None"
proof -
  have "\<not> worker_fails client ps WNodes" "\<not> chain_fails client ps"
      "\<forall>p q e. GetApplications_c client p q \<noteq> Inl e"
    using assms(1) unfolding no_failures_def by blast+
  then show ?thesis by (rule failure_can_be_lost [OF _ _ assms(2)])
qed

lemma demo_client_answers:
  "no_failures demo_client [demo_partition]" "no_nil_queues demo_client [demo_partition]"
  by (simp_all add: no_failures_def worker_forall chain_fails_def no_nil_queues_def demo_client_def)

text \<open>
  When the scheduler answers every request, \<open>sync\<close> can return, and it returns nil in every order in
  which its goroutines run.
\<close>

theorem sync_succeeds_without_failures:
  assumes "GetPartitions_c client = Inr ps" and "no_failures client ps" and "no_nil_queues client ps"
  shows "(\<exists>s'. sync_returns uuids client s None s') \<and> (\<forall>r s'. sync_returns uuids client s r s' \<longrightarrow> r = None)"
proof -
  obtain s1 where s1: "\<And>r s'. sync_returns uuids client s r s' \<longleftrightarrow>
       (\<exists>c. sync_reach uuids client ps s1 c \<and> all_done c \<and> r = sync_result c \<and> s' = sv c)"
    using sync_returns_partitions [OF assms(1), of s uuids] by metis
  have "sync_result c = None" if "sync_reach uuids client ps s1 c" for c
    using no_failures_quiet [OF that assms(2)] by (simp add: sync_result_def)
  moreover have "\<exists>c. sync_reach uuids client ps s1 c \<and> all_done c \<and> sync_result c = None"
    by (rule answered_run [OF assms(2,3)])
  ultimately show ?thesis unfolding s1 by metis
qed

theorem sync_succeeds_without_failures_witness:
  "\<exists>s'. sync_returns format_nat demo_client demo_sync_state None s'"
  using sync_succeeds_without_failures [of demo_client "[demo_partition]" format_nat demo_sync_state]
    demo_client_answers by (simp add: demo_client_def)

text \<open>
  C24. The goroutines for nodes, utilizations and history assign and test the same variable \<open>err\<close>: whenever
  one of them fails and another one succeeds, and the requests for queues and applications are answered, there is a run
  in which \<open>sync\<close> returns nil.
\<close>

theorem sync_can_lose_failure:
  assumes "GetPartitions_c client = Inr ps" and "worker_fails client ps w" and "\<not> worker_fails client ps w'"
    and "\<not> chain_fails client ps" and "no_nil_queues client ps" and "\<forall>p q e. GetApplications_c client p q \<noteq> Inl e"
  shows "\<exists>s'. sync_returns uuids client s None s'"
proof -
  obtain s1 where s1: "\<And>r s'. sync_returns uuids client s r s' \<longleftrightarrow>
       (\<exists>c. sync_reach uuids client ps s1 c \<and> all_done c \<and> r = sync_result c \<and> s' = sv c)"
    using sync_returns_partitions [OF assms(1), of s uuids] by metis
  show ?thesis
    unfolding s1 using failure_can_be_lost [OF assms(3-6), of uuids s1] by metis
qed

theorem sync_can_lose_failure_witness:
  "worker_fails (demo_client\<lparr>GetNodeUtil_c := Inl (ErrorText ''down'')\<rparr>) [demo_partition] WUtil \<and>
   (\<exists>s'. sync_returns format_nat (demo_client\<lparr>GetNodeUtil_c := Inl (ErrorText ''down'')\<rparr>) demo_sync_state None s')"
  using sync_can_lose_failure [of "demo_client\<lparr>GetNodeUtil_c := Inl (ErrorText ''down'')\<rparr>" "[demo_partition]" WUtil WHist
      format_nat demo_sync_state]
  by (simp add: demo_client_def chain_fails_def no_nil_queues_def)

text \<open>
  The goroutine for queues and applications has its own variable: when a queue request fails, \<open>sync\<close>
  returns an error in every run.
\<close>

theorem sync_reports_queue_failure:
  assumes "GetPartitions_c client = Inr ps" and "chain_fails client ps" and "sync_returns uuids client s r s'"
  shows "r \<noteq> None"
proof -
  obtain s1 where s1: "\<And>r s'. sync_returns uuids client s r s' \<longleftrightarrow>
       (\<exists>c. sync_reach uuids client ps s1 c \<and> all_done c \<and> r = sync_result c \<and> s' = sv c)"
    using sync_returns_partitions [OF assms(1), of s uuids] by metis
  with assms(3) obtain c where c: "sync_reach uuids client ps s1 c" "all_done c" "r = sync_result c" by blast
  with chain_reported [OF c(1) assms(2)] show ?thesis by (auto simp: all_done_def sync_result_def)
qed

text \<open>A run of \<open>sync\<close> on one partition whose queue request fails.\<close>

definition demo_queue_down :: yk_client where
  "demo_queue_down = demo_client\<lparr>GetPartitionQueues_c := (\<lambda>p. Inl (ErrorText ''down''))\<rparr>"

lemma demo_queue_down_returns: "\<exists>r s'. sync_returns format_nat demo_queue_down demo_sync_state r s'"
proof -
  let ?ps = "[demo_partition]"
  obtain s1 where s1: "\<And>r s'. sync_returns format_nat demo_queue_down demo_sync_state r s' \<longleftrightarrow>
       (\<exists>c. sync_reach format_nat demo_queue_down ?ps s1 c \<and> all_done c \<and> r = sync_result c \<and> s' = sv c)"
    by (rule sync_returns_partitions [of demo_queue_down ?ps]) (auto simp: demo_queue_down_def demo_client_def)
  obtain e where q: "upsertPartitionQueues format_nat demo_queue_down ?ps (sv (sync_start s1)) = Some (Inl e, sv (sync_start s1))"
    by (simp add: upsertPartitionQueues_def demo_queue_down_def demo_client_def)
  have "sync_step format_nat demo_queue_down ?ps (sync_start s1) ((sync_start s1)\<lparr>sv := sv (sync_start s1), chain := QDone,
      allErrs := allErrs (sync_start s1) @ [report ''error getting and upserting queues: '' (Some e)]\<rparr>)" (is "sync_step _ _ _ _ ?t")
    by (rule sync_step.queues_failed [OF _ refl q]) (simp add: sync_start_def)
  then have t: "sync_reach format_nat demo_queue_down ?ps s1 ?t" by (rule sync_reach.step [OF sync_reach.start])
  have ok: "\<not> worker_fails demo_queue_down ?ps w" for w
    by (cases w) (simp_all add: demo_queue_down_def demo_client_def)
  obtain ws where ws: "distinct ws" "set ws = (UNIV :: worker set)" "ws \<noteq> []" using workers_enum by blast
  obtain t1 where t1: "sync_reach format_nat demo_queue_down ?ps s1 t1" "same_but_workers ?t t1"
      "\<forall>w. pcs t1 w = Assigned" "errVar t1 = None"
    using assign_workers [OF t _ ws(1)] ws(2,3) ok by (auto simp: sync_start_def)
  obtain t2 where "sync_reach format_nat demo_queue_down ?ps s1 t2" "same_but_workers t1 t2" "\<forall>w. pcs t2 w = Finished"
    using finish_workers [OF t1(1,4) ws(1)] t1(3) ws(2) by auto
  with t1(2) show ?thesis unfolding s1 by (auto simp: all_done_def same_but_workers_def sync_start_def)
qed

theorem sync_reports_queue_failure_witness:
  "\<exists>r s'. sync_returns format_nat demo_queue_down demo_sync_state r s' \<and> r \<noteq> None"
proof -
  obtain r s' where r: "sync_returns format_nat demo_queue_down demo_sync_state r s'"
    using demo_queue_down_returns by blast
  have "GetPartitions_c demo_queue_down = Inr [demo_partition]" "chain_fails demo_queue_down [demo_partition]"
    by (simp_all add: demo_queue_down_def demo_client_def chain_fails_def)
  from sync_reports_queue_failure [OF this r] r show ?thesis by blast
qed

text \<open>
  When all three goroutines on the shared variable fail, each of them has reported an error by the
  time it is finished, in every run.
\<close>

theorem sync_reports_all_failures:
  assumes "sync_reach uuids client ps s0 c" and "\<forall>w. worker_fails client ps w" and "pcs c w = Finished"
  shows "\<exists>e. report (worker_msg w) (Some e) \<in> set (allErrs c)"
  using all_fail_reported [OF assms(1,2)] assms(3) by blast

definition demo_down :: yk_client where
  "demo_down = demo_client\<lparr>GetPartitionNodes_c := (\<lambda>p. Inl (ErrorText ''down'')), GetNodeUtil_c := Inl (ErrorText ''down''),
     GetAppsHistory_c := Inl (ErrorText ''down'')\<rparr>"

lemma demo_down_fails: "\<forall>w. worker_fails demo_down [demo_partition] w"
  by (simp add: worker_forall demo_down_def)

lemma demo_down_finished:
  "\<exists>c. sync_reach format_nat demo_down [demo_partition] demo_sync_state c \<and> pcs c WUtil = Finished"
proof -
  let ?ps = "[demo_partition]"
  obtain t where t: "sync_reach format_nat demo_down ?ps demo_sync_state t" "\<forall>w. pcs t w = (if w = WUtil then Assigned else Ready)"
      "errVar t \<noteq> None"
    using assign_workers [OF sync_reach.start [of format_nat demo_down ?ps demo_sync_state], of "[WUtil]"]
      spec [OF demo_down_fails, of WUtil]
    by (fastforce simp: sync_start_def simp del: worker_fails.simps)
  then obtain e where e: "errVar t = Some e" by auto
  let ?t1 = "t\<lparr>pcs := (pcs t)(WUtil := Reporting)\<rparr>"
  have "sync_reach format_nat demo_down ?ps demo_sync_state ?t1"
    by (rule sync_reach.step [OF t(1) sync_step.test_err [OF _ e]]) (simp add: t(2))
  then have f: "sync_reach format_nat demo_down ?ps demo_sync_state (?t1\<lparr>allErrs := allErrs ?t1 @
      [report (worker_msg WUtil) (errVar ?t1)], pcs := (pcs ?t1)(WUtil := Finished)\<rparr>)"
    by (rule sync_reach.step [OF _ sync_step.add_err]) simp
  show ?thesis by (intro exI conjI, rule f) simp
qed

theorem sync_reports_all_failures_witness:
  "\<exists>c. sync_reach format_nat demo_down [demo_partition] demo_sync_state c \<and>
     (\<exists>e. report (worker_msg WUtil) (Some e) \<in> set (allErrs c))"
  using demo_down_finished sync_reports_all_failures [OF _ demo_down_fails, of format_nat demo_sync_state _ WUtil] by blast

text \<open>
  A sync that runs before the work queue has started queues no job, and still returns nil when the
  scheduler answers every request.
\<close>

theorem sync_before_start_queues_nothing:
  assumes "GetPartitions_c client = Inr ps" and "\<not> started (sy_wq s)" and "no_failures client ps"
    and "sync_returns uuids client s r s'"
  shows "r = None \<and> jobs s' = jobs s"
proof -
  obtain s1 where s1: "started (sy_wq s1) = started (sy_wq s)" "\<not> started (sy_wq s) \<Longrightarrow> jobs s1 = jobs s"
      "\<And>r s'. sync_returns uuids client s r s' \<longleftrightarrow>
       (\<exists>c. sync_reach uuids client ps s1 c \<and> all_done c \<and> r = sync_result c \<and> s' = sv c)"
    using sync_returns_partitions [OF assms(1), of s uuids] by metis
  with assms(4) obtain c where c: "sync_reach uuids client ps s1 c" "r = sync_result c" "s' = sv c" by blast
  show ?thesis
    using no_failures_quiet [OF c(1) assms(3)] sync_not_started [OF c(1)] s1(1,2) assms(2) c(2,3)
    by (simp add: sync_result_def)
qed

theorem sync_before_start_queues_nothing_witness:
  "\<exists>r s'. sync_returns format_nat demo_client \<lparr>sy_wq = NewWorkQueue [], sy_ids = 0, sy_log = []\<rparr> r s' \<and>
     r = None \<and> jobs s' = []"
proof -
  let ?s = "\<lparr>sy_wq = NewWorkQueue [], sy_ids = 0, sy_log = []\<rparr> :: sync_state"
  have p: "GetPartitions_c demo_client = Inr [demo_partition]" by (simp add: demo_client_def)
  obtain c where c: "sync_reach format_nat demo_client [demo_partition]
      (snd (upsertPartitions format_nat demo_client ?s)) c" "all_done c" "sync_result c = None"
    using answered_run [OF demo_client_answers] by blast
  then have r: "sync_returns format_nat demo_client ?s None (sv c)"
    using p by (auto simp: sync_returns_def upsertPartitions_def)
  from sync_before_start_queues_nothing [OF p _ demo_client_answers(1) r] r show ?thesis
    by (auto simp: NewWorkQueue_def jobs_def)
qed

text \<open>
  A scheduler that answers \<open>null\<close> for the queues of a partition crashes the sync: \<open>flattenQueues\<close>
  dereferences the nil pointer.
\<close>

theorem nil_queue_panics:
  assumes "\<not> chain_fails client ps" and "p \<in> set ps" and "GetPartitionQueues_c client (part_Name p) = Inr None"
  shows "upsertPartitionQueues uuids client ps s = None"
proof -
  have "snd (collect_queues client ps errs qs) = qs @ map (\<lambda>p. projr (GetPartitionQueues_c client (part_Name p))) ps"
    if "\<not> chain_fails client ps" for errs qs
    using that by (induction ps arbitrary: qs) (auto simp: chain_fails_def split: sum.split)
  from this [OF assms(1), of "[]" "[]"] collect_queues_errs [of client ps "[]" "[]"] assms(1)
  have c: "collect_queues client ps [] [] = ([], map (\<lambda>p. projr (GetPartitionQueues_c client (part_Name p))) ps)"
    by (metis append_Nil prod.collapse)
  have "those xs = None" if "None \<in> set xs" for xs :: "PartitionQueueDAOInfo option list"
    using that by (induction xs) (auto split: option.split)
  moreover have "None \<in> set (map (\<lambda>p. projr (GetPartitionQueues_c client (part_Name p))) ps)"
    using assms(2,3) by force
  ultimately show ?thesis by (simp add: upsertPartitionQueues_def c)
qed

end
