(* ===== verification/Sync_Storage.thy ===== *)
theory Sync_Storage
  imports Data_Sync
begin

text \<open>
  What the jobs of a sync do to the database. \<open>flattenQueues\<close> lists every queue of the trees
  once, parents first, which is what \<open>UpsertQueues\<close> needs; \<open>db_inv\<close> joins the invariants of
  all tables, and every job keeps it whatever fails.
\<close>

section \<open>Flattening\<close>

text \<open>A tree as the scheduler reports it: a child names its parent.\<close>

primrec named_tree :: "PartitionQueueDAOInfo \<Rightarrow> bool" where
  "named_tree (QueueDAO i cs) \<longleftrightarrow>
     list_all (\<lambda>c. queue_Parent (qinfo c) = queue_QueueName i) cs \<and> list_all named_tree cs"

lemma named_tree_root:
  "named_tree q \<longleftrightarrow> list_all (\<lambda>c. queue_Parent (qinfo c) = queue_QueueName (qinfo q)) (qChildren q) \<and>
     list_all named_tree (qChildren q)"
  by (cases q) simp

lemma named_tree_set_partition [simp]: "named_tree (set_partition p q) = named_tree q"
  by (cases q) (simp add: set_partition_def)

lemma qinfo_propagate [simp]: "qinfo (propagate p q) = (qinfo q)\<lparr>queue_Partition := p\<rparr>"
  by (cases q) simp

definition tree_keys :: "PartitionQueueDAOInfo \<Rightarrow> (string \<times> string) list" where
  "tree_keys q = map (Pair (queue_Partition (qinfo q))) (queue_names q)"

lemma dao_key_propagate [simp]: "dao_key (propagate p q) = (p, queue_QueueName (qinfo q))"
  by (simp add: dao_key_def)

lemma tree_keys_children:
  "concat (map tree_keys (map (set_partition p) cs)) = map (Pair p) (concat (map queue_names cs))"
  by (induction cs) (simp_all add: tree_keys_def)

lemma flattenQueues_keys: "map dao_key (flattenQueues qs) = concat (map tree_keys qs)"
proof (induction qs rule: flattenQueues.induct)
  case 1
  then show ?case by simp
next
  case (2 q qs)
  let ?p = "queue_Partition (qinfo q)"
  have "map dao_key (if qChildren q \<noteq> [] then flattenQueues (map (set_partition ?p) (qChildren q)) else [])
      = map (Pair ?p) (concat (map queue_names (qChildren q)))"
    using "2.IH"(1) unfolding tree_keys_children by auto
  with "2.IH"(2) show ?case
    by (simp add: tree_keys_def queue_names_root [of q])
qed

lemma parents_first_mono: "parents_first seen qs \<Longrightarrow> set seen \<subseteq> set seen' \<Longrightarrow> parents_first seen' qs"
proof (induction qs arbitrary: seen seen')
  case (Cons q qs)
  have "parents_first (dao_key q # seen) qs" "set (dao_key q # seen) \<subseteq> set (dao_key q # seen')"
    using Cons.prems by auto
  then have "parents_first (dao_key q # seen') qs" by (rule Cons.IH)
  with Cons.prems show ?case by (simp, blast)
qed simp

lemma parents_first_append:
  "parents_first seen (xs @ ys) \<longleftrightarrow> parents_first seen xs \<and> parents_first (rev (map dao_key xs) @ seen) ys"
  by (induction xs arbitrary: seen) auto

lemma flattenQueues_parents_first:
  "list_all (\<lambda>q. queue_Partition (qinfo q) \<noteq> [] \<and> named_tree q \<and>
     (queue_Parent (qinfo q) = [] \<or> (queue_Partition (qinfo q), queue_Parent (qinfo q)) \<in> set seen)) qs \<Longrightarrow>
   parents_first seen (flattenQueues qs)"
proof (induction qs arbitrary: seen rule: flattenQueues.induct)
  case 1
  then show ?case by simp
next
  case (2 q qs)
  let ?p = "queue_Partition (qinfo q)"
  let ?k = "(?p, queue_QueueName (qinfo q))"
  let ?kids = "if qChildren q \<noteq> [] then flattenQueues (map (set_partition ?p) (qChildren q)) else []"
  have q: "?p \<noteq> []" "queue_Parent (qinfo q) = [] \<or> (?p, queue_Parent (qinfo q)) \<in> set seen"
      "list_all (\<lambda>c. queue_Parent (qinfo c) = queue_QueueName (qinfo q)) (qChildren q)"
      "list_all named_tree (qChildren q)"
    using "2.prems" by (simp_all add: named_tree_root [of q])
  have kids: "parents_first (?k # seen) ?kids"
    using "2.IH"(1) [of "?k # seen"] q by (auto simp: list_all_iff)
  have "parents_first seen (flattenQueues qs)" using "2.prems" by (intro "2.IH"(2)) simp
  then have rest: "parents_first (rev (map dao_key ?kids) @ ?k # seen) (flattenQueues qs)"
    by (rule parents_first_mono) auto
  show ?case
    using q(1,2) kids rest unfolding flattenQueues.simps(2)
    by (simp add: parents_first_append del: flattenQueues.simps)
qed

text \<open>
  The trees of a sync: one per partition, the top queue without parent, names different within
  a partition.
\<close>

definition scheduler_trees :: "PartitionQueueDAOInfo list \<Rightarrow> bool" where
  "scheduler_trees ts \<longleftrightarrow>
     list_all (\<lambda>q. queue_Partition (qinfo q) \<noteq> [] \<and> queue_Parent (qinfo q) = [] \<and> named_tree q) ts \<and>
     distinct (concat (map tree_keys ts))"

lemma UpsertQueues_flatten:
  assumes "healthy_env env" and "queue_inv env d" and "scheduler_trees ts"
    and "\<forall>k \<in> set (concat (map tree_keys ts)). \<not> dead k (queues_t d)"
  shows "\<exists>d'. UpsertQueues env (flattenQueues ts) d = (None, d') \<and> queue_inv env d' \<and>
    (\<forall>q \<in> set (flattenQueues ts). stored (queues_t d) q (queues_t d'))"
proof (rule UpsertQueues_success [OF assms(1,2)])
  show "parents_first [] (flattenQueues ts)"
    using assms(3) by (intro flattenQueues_parents_first) (auto simp: scheduler_trees_def list_all_iff)
  show "distinct (map dao_key (flattenQueues ts))"
    using assms(3) by (simp add: flattenQueues_keys scheduler_trees_def)
  show "\<not> dead (dao_key q) (queues_t d)" if "q \<in> set (flattenQueues ts)" for q
  proof -
    have "dao_key q \<in> set (map dao_key (flattenQueues ts))" using that by simp
    then show ?thesis using assms(4) unfolding flattenQueues_keys by blast
  qed
qed

lemma stored_live: "stored orig q rs \<Longrightarrow> live (dao_key q) rs"
  by (auto simp: stored_def live_def list_ex_iff)

section \<open>Frames\<close>

text \<open>
  What a job changes: its own table, and identifiers are only drawn. \<open>clear\<close> blanks the
  table that may change.
\<close>

definition keeps :: "(db \<Rightarrow> db) \<Rightarrow> db \<Rightarrow> db \<Rightarrow> bool" where
  "keeps clear d d' \<longleftrightarrow>
     clear (d'\<lparr>stmtCtr := 0, uuidCtr := 0\<rparr>) = clear (d\<lparr>stmtCtr := 0, uuidCtr := 0\<rparr>) \<and> uuidCtr d \<le> uuidCtr d'"

lemma keeps_refl: "keeps clear d d"
  by (simp add: keeps_def)

lemma keeps_trans: "keeps clear a b \<Longrightarrow> keeps clear b c \<Longrightarrow> keeps clear a c"
  by (simp add: keeps_def)

lemma for_each_keeps:
  assumes step: "\<And>x d r d'. f x d = (r, d') \<Longrightarrow> keeps clear d d'"
  shows "for_each f xs d = (r, d') \<Longrightarrow> keeps clear d d'"
proof (induction xs arbitrary: d)
  case Nil
  then show ?case by (simp add: keeps_refl)
next
  case (Cons x xs)
  obtain r1 d1 where x: "f x d = (r1, d1)" by fastforce
  show ?case
  proof (cases r1)
    case None
    with Cons x have "keeps clear d1 d'" by simp
    with step [OF x] show ?thesis by (rule keeps_trans)
  next
    case (Some e)
    with Cons.prems x step [OF x] show ?thesis by simp
  qed
qed

lemma pg_exec_keeps:
  assumes "pg_exec env stmt d = (r, d')" and "\<And>d d'. stmt d = Inr d' \<Longrightarrow> keeps clear d d'"
  shows "keeps clear d d'"
  using assms(1)
proof (cases rule: pg_exec_cases)
  case (failed e)
  then show ?thesis by (simp add: keeps_def)
next
  case ok
  from assms(2) [OF ok(2)] show ?thesis by (simp add: keeps_def)
qed

lemma new_uuid_keeps: "new_uuid env d = (u, d') \<Longrightarrow> keeps clear d d'"
  by (auto simp: new_uuid_def keeps_def)

definition no_partitions :: "db \<Rightarrow> db" where "no_partitions d = d\<lparr>partitions_t := []\<rparr>"
definition no_nodes :: "db \<Rightarrow> db" where "no_nodes d = d\<lparr>nodes_t := []\<rparr>"
definition no_util :: "db \<Rightarrow> db" where "no_util d = d\<lparr>nodes_util_t := []\<rparr>"
definition no_history :: "db \<Rightarrow> db" where "no_history d = d\<lparr>history_t := []\<rparr>"
definition no_queues :: "db \<Rightarrow> db" where "no_queues d = d\<lparr>queues_t := []\<rparr>"
definition no_apps :: "db \<Rightarrow> db" where "no_apps d = d\<lparr>applications_t := []\<rparr>"

lemmas clear_defs = no_partitions_def no_nodes_def no_util_def no_history_def no_queues_def no_apps_def

lemma UpsertPartitions_keeps:
  assumes "UpsertPartitions env ps d = (r, d')"
  shows "keeps no_partitions d d'"
  using assms unfolding UpsertPartitions_def
proof (rule for_each_keeps [rotated])
  fix p d r d' assume "UpsertPartition env p d = (r, d')"
  then obtain u d1 r1 where "new_uuid env d = (u, d1)" "pg_exec env (upsert_stmt partition_key pr_id
      partition_merge partitions_t put_partitions (partition_row u p)) d1 = (r1, d')"
    by (auto simp: UpsertPartition_def split: prod.splits option.splits)
  moreover from this(2) have "keeps no_partitions d1 d'"
    by (rule pg_exec_keeps)
       (auto simp: upsert_stmt_def put_partitions_def keeps_def clear_defs split: sum.splits)
  ultimately show "keeps no_partitions d d'" using new_uuid_keeps keeps_trans by metis
qed

lemma UpsertNodes_keeps:
  assumes "UpsertNodes env ns p d = (r, d')"
  shows "keeps no_nodes d d'"
  using assms unfolding UpsertNodes_def
proof (rule for_each_keeps [rotated])
  fix x d r d' assume "UpsertNode env x d = (r, d')"
  then obtain u d1 r1 where "new_uuid env d = (u, d1)" "pg_exec env (upsert_stmt node_key nr_id
      node_merge nodes_t put_nodes (node_row u x)) d1 = (r1, d')"
    by (auto simp: UpsertNode_def split: prod.splits option.splits)
  moreover from this(2) have "keeps no_nodes d1 d'"
    by (rule pg_exec_keeps)
       (auto simp: upsert_stmt_def put_nodes_def keeps_def clear_defs split: sum.splits)
  ultimately show "keeps no_nodes d d'" using new_uuid_keeps keeps_trans by metis
qed

lemma InsertNodeUtilizations_keeps:
  assumes "InsertNodeUtilizations env u nus d = (r, d')"
  shows "keeps no_util d d'"
  using assms unfolding InsertNodeUtilizations_def
proof (rule for_each_keeps [rotated])
  fix x d r d' assume "InsertNodeUtilization env u x d = (r, d')"
  then obtain r1 where "pg_exec env (insert_util_stmt \<lparr>ur_id = u, ur_info = x\<rparr>) d = (r1, d')"
    by (auto simp: InsertNodeUtilization_def split: prod.splits option.splits)
  then show "keeps no_util d d'"
    by (rule pg_exec_keeps) (auto simp: insert_util_stmt_def keeps_def clear_defs split: sum.splits)
qed

lemma insert_history_keeps:
  assumes "insert_history int8 env ty msg x d = (r, d')"
  shows "keeps no_history d d'"
proof -
  obtain u d1 r1 where "new_uuid env d = (u, d1)"
      "pg_exec env (insert_history_stmt int8 ty u (fst x) (snd x)) d1 = (r1, d')"
    using assms by (auto simp: insert_history_def split: prod.splits option.splits)
  moreover from this(2) have "keeps no_history d1 d'"
    by (rule pg_exec_keeps) (auto simp: insert_history_stmt_def keeps_def clear_defs split: sum.splits)
  ultimately show ?thesis using new_uuid_keeps keeps_trans by metis
qed

lemma UpdateHistory_keeps:
  assumes "UpdateHistory int8 env as cs d = (r, d')"
  shows "keeps no_history d d'"
proof -
  obtain r1 d1 where 1: "for_each (insert_history int8 env Hist_application
        ''could not update applications history into DB: '')
      (map (\<lambda>a. (hist_TotalApplications a, hist_Timestamp a)) as) d = (r1, d1)" by fastforce
  have k1: "keeps no_history d d1" using insert_history_keeps 1 by (rule for_each_keeps)
  show ?thesis
  proof (cases r1)
    case None
    with assms 1 have "for_each (insert_history int8 env Hist_container
        ''could not update containers history into DB: '')
      (map (\<lambda>c. (chist_TotalContainers c, chist_Timestamp c)) cs) d1 = (r, d')"
      by (simp add: UpdateHistory_def)
    with insert_history_keeps have "keeps no_history d1 d'" by (rule for_each_keeps)
    with k1 show ?thesis by (rule keeps_trans)
  next
    case (Some e)
    with assms 1 k1 show ?thesis by (simp add: UpdateHistory_def)
  qed
qed

lemma getQueueID_keeps: "getQueueID env n p d = (r, d') \<Longrightarrow> keeps clear d d'"
  by (elim getQueueID_cases) (auto simp: keeps_def)

lemma UpsertQueues_keeps:
  assumes "UpsertQueues env qs d = (r, d')"
  shows "keeps no_queues d d'"
  using assms unfolding UpsertQueues_def
proof (rule for_each_keeps [rotated])
  fix q d r d' assume u: "UpsertQueue env q d = (r, d')"
  obtain g d1 where g: "getQueueID env (queue_Parent (qinfo q)) (queue_Partition (qinfo q)) d = (g, d1)"
    by fastforce
  note k1 = getQueueID_keeps [OF g]
  show "keeps no_queues d d'"
  proof (cases g)
    case (Inl e)
    with u g k1 show ?thesis by (auto simp: UpsertQueue_def)
  next
    case (Inr pid)
    obtain i d2 where n: "new_uuid env d1 = (i, d2)" by fastforce
    then obtain r2 where "pg_exec env (upsert_queue_stmt (new_queue_row i pid (unix_now env d2) q)) d2 = (r2, d')"
      using u g Inr by (auto simp: UpsertQueue_def split: prod.splits option.splits)
    then have "keeps no_queues d2 d'"
      by (rule pg_exec_keeps)
         (auto simp: upsert_queue_stmt_def put_queues_def keeps_def clear_defs split: sum.splits if_splits)
    with k1 new_uuid_keeps [OF n] show ?thesis by (blast intro: keeps_trans)
  qed
qed

lemma UpsertApplications_keeps:
  assumes "UpsertApplications env as d = (r, d')"
  shows "keeps no_apps d d'"
  using assms unfolding UpsertApplications_def
proof (rule for_each_keeps [rotated])
  fix a d r d' assume u: "UpsertApplication env a d = (r, d')"
  obtain g d1 where g: "getQueueID env (app_QueueName a) (app_Partition a) d = (g, d1)" by fastforce
  note k1 = getQueueID_keeps [OF g]
  show "keeps no_apps d d'"
  proof (cases g)
    case (Inl e)
    with u g k1 show ?thesis by (auto simp: UpsertApplication_def)
  next
    case (Inr qid)
    obtain i d2 where n: "new_uuid env d1 = (i, d2)" by fastforce
    then have "pg_exec env (upsert_app_stmt i qid a) d2 = (r, d')"
      using u g Inr by (simp add: UpsertApplication_def)
    then have "keeps no_apps d2 d'"
      by (rule pg_exec_keeps)
         (auto simp: upsert_app_stmt_def upsert_stmt_def put_apps_def keeps_def clear_defs
           split: sum.splits option.splits)
    with k1 new_uuid_keeps [OF n] show ?thesis by (blast intro: keeps_trans)
  qed
qed

section \<open>The invariant of the database\<close>

definition util_inv :: "pgenv \<Rightarrow> db \<Rightarrow> bool" where
  "util_inv env d \<longleftrightarrow> distinct (map ur_id (nodes_util_t d)) \<and> ur_id ` set (nodes_util_t d) \<subseteq> drawn env d"

definition db_inv :: "pgenv \<Rightarrow> db \<Rightarrow> bool" where
  "db_inv env d \<longleftrightarrow> partitions_inv env d \<and> nodes_inv env d \<and> util_inv env d \<and> history_inv env d \<and>
     queue_inv env d \<and> apps_inv env d"

lemma db_inv_empty: "db_inv env empty_db"
  by (simp add: db_inv_def empty_db_def partitions_inv_def nodes_inv_def util_inv_def history_inv_def
      queue_inv_def apps_inv_def table_wf_def app_refs_def named_parents_def)

lemma keeps_drawn: "keeps clear d d' \<Longrightarrow> drawn env d \<subseteq> drawn env d'"
  by (auto simp: keeps_def drawn_def)

lemma keeps_fields:
  "keeps no_partitions d d' \<Longrightarrow> applications_t d' = applications_t d \<and> queues_t d' = queues_t d \<and>
     nodes_t d' = nodes_t d \<and> nodes_util_t d' = nodes_util_t d \<and> history_t d' = history_t d"
  "keeps no_nodes d d' \<Longrightarrow> applications_t d' = applications_t d \<and> queues_t d' = queues_t d \<and>
     partitions_t d' = partitions_t d \<and> nodes_util_t d' = nodes_util_t d \<and> history_t d' = history_t d"
  "keeps no_util d d' \<Longrightarrow> applications_t d' = applications_t d \<and> queues_t d' = queues_t d \<and>
     partitions_t d' = partitions_t d \<and> nodes_t d' = nodes_t d \<and> history_t d' = history_t d"
  "keeps no_history d d' \<Longrightarrow> applications_t d' = applications_t d \<and> queues_t d' = queues_t d \<and>
     partitions_t d' = partitions_t d \<and> nodes_t d' = nodes_t d \<and> nodes_util_t d' = nodes_util_t d"
  "keeps no_queues d d' \<Longrightarrow> applications_t d' = applications_t d \<and> history_t d' = history_t d \<and>
     partitions_t d' = partitions_t d \<and> nodes_t d' = nodes_t d \<and> nodes_util_t d' = nodes_util_t d"
  "keeps no_apps d d' \<Longrightarrow> queues_t d' = queues_t d \<and> history_t d' = history_t d \<and>
     partitions_t d' = partitions_t d \<and> nodes_t d' = nodes_t d \<and> nodes_util_t d' = nodes_util_t d"
  by (cases d; cases d'; simp add: keeps_def clear_defs)+

text \<open>The invariant of a table survives when the table is the same and identifiers were only drawn.\<close>

lemma invs_mono:
  assumes "drawn env d \<subseteq> drawn env d'"
  shows "partitions_t d' = partitions_t d \<Longrightarrow> partitions_inv env d \<Longrightarrow> partitions_inv env d'"
    and "nodes_t d' = nodes_t d \<Longrightarrow> nodes_inv env d \<Longrightarrow> nodes_inv env d'"
    and "nodes_util_t d' = nodes_util_t d \<Longrightarrow> util_inv env d \<Longrightarrow> util_inv env d'"
    and "history_t d' = history_t d \<Longrightarrow> history_inv env d \<Longrightarrow> history_inv env d'"
    and "queues_t d' = queues_t d \<Longrightarrow> queue_inv env d \<Longrightarrow> queue_inv env d'"
    and "applications_t d' = applications_t d \<Longrightarrow> queues_t d' = queues_t d \<Longrightarrow> apps_inv env d \<Longrightarrow> apps_inv env d'"
  using assms
  by (auto simp: partitions_inv_def nodes_inv_def util_inv_def history_inv_def queue_inv_def apps_inv_def app_refs_def)

lemma UpsertQueue_rows_stay:
  assumes "UpsertQueue env q d = (res, d')" and "r \<in> set (queues_t d)"
  shows "\<exists>r' \<in> set (queues_t d'). same_links r r'"
  using assms(1)
proof (cases rule: UpsertQueue_cases)
  case (failed e)
  then show ?thesis using assms(2) by (intro bexI [of _ r]) auto
next
  case (ok pid now)
  let ?new = "new_queue_row (freshUUID env (uuidCtr d)) pid now q"
  from ok(3) show ?thesis
  proof (cases rule: queue_tab.upsert_cases)
    case update
    then show ?thesis
      using assms(2) by (intro bexI [of _ "if queue_key r = queue_key ?new then queue_merge r ?new else r"]) auto
  next
    case insert
    then show ?thesis using assms(2) by (intro bexI [of _ r]) auto
  qed
qed

lemma same_links_trans: "same_links r s \<Longrightarrow> same_links s t \<Longrightarrow> same_links r t"
  by (simp add: same_links_def)

lemma UpsertQueues_rows_stay:
  assumes "UpsertQueues env qs d = (res, d')" and "r \<in> set (queues_t d)"
  shows "\<exists>r' \<in> set (queues_t d'). same_links r r'"
  using assms unfolding UpsertQueues_def
proof (induction qs arbitrary: d r)
  case Nil
  then show ?case by (intro bexI [of _ r]) auto
next
  case (Cons q qs)
  obtain r1 d1 where u: "UpsertQueue env q d = (r1, d1)" by fastforce
  obtain x where x: "x \<in> set (queues_t d1)" "same_links r x"
    using UpsertQueue_rows_stay [OF u Cons.prems(2)] by blast
  show ?case
  proof (cases r1)
    case None
    with Cons.IH [of d1 x] Cons.prems(1) u x(1) obtain r' where "r' \<in> set (queues_t d')" "same_links x r'" by auto
    with x(2) show ?thesis by (blast intro: same_links_trans)
  next
    case (Some e)
    with Cons.prems(1) u x show ?thesis by auto
  qed
qed

text \<open>What an operation on the queues keeps: the other tables, and the links of every row.\<close>

definition queues_only :: "db \<Rightarrow> db \<Rightarrow> bool" where
  "queues_only d d' \<longleftrightarrow> keeps no_queues d d' \<and> (\<forall>r \<in> set (queues_t d). \<exists>r' \<in> set (queues_t d'). same_links r r')"

lemma queues_only_refl [simp]: "queues_only d d"
  unfolding queues_only_def using keeps_refl same_links_refl by blast

lemma queues_only_trans: "queues_only a b \<Longrightarrow> queues_only b c \<Longrightarrow> queues_only a c"
  unfolding queues_only_def by (meson keeps_trans same_links_trans)

lemma UpsertQueues_only: "UpsertQueues env qs d = (res, d') \<Longrightarrow> queues_only d d'"
  unfolding queues_only_def using UpsertQueues_keeps UpsertQueues_rows_stay by blast

lemma apps_inv_queues:
  assumes "queues_only d d'" and "apps_inv env d"
  shows "apps_inv env d'"
proof -
  have k: "keeps no_queues d d'" using assms(1) by (simp add: queues_only_def)
  have "app_refs d'"
    unfolding app_refs_def
  proof
    fix r assume "r \<in> set (applications_t d')"
    then obtain q where "q \<in> set (queues_t d)" "qr_id q = ar_queue_id r"
        "queue_key q = (app_Partition (ar_info r), app_QueueName (ar_info r))"
      using assms(2) keeps_fields(5) [OF k] by (auto simp: apps_inv_def app_refs_def)
    with assms(1) same_linksD(1,2) show "\<exists>q \<in> set (queues_t d'). qr_id q = ar_queue_id r \<and>
        queue_key q = (app_Partition (ar_info r), app_QueueName (ar_info r))" unfolding queues_only_def by metis
  qed
  then show ?thesis
    using assms(2) keeps_fields(5) [OF k] keeps_drawn [OF k, of env] by (auto simp: apps_inv_def)
qed

lemma db_inv_queues:
  assumes "db_inv env d" and "queues_only d d'" and "queue_inv env d'"
  shows "db_inv env d'"
proof -
  have k: "keeps no_queues d d'" using assms(2) by (simp add: queues_only_def)
  from assms apps_inv_queues [OF assms(2)] invs_mono [OF keeps_drawn [OF k]] keeps_fields(5) [OF k]
  show ?thesis by (simp add: db_inv_def)
qed

lemma insert_util_inv:
  assumes "InsertNodeUtilizations env u nus d = (r, d')" and "util_inv env d" and "u \<in> drawn env d"
  shows "util_inv env d'"
  using assms unfolding InsertNodeUtilizations_def
proof (induction nus arbitrary: d)
  case Nil
  then show ?case by simp
next
  case (Cons nu nus)
  obtain r1 d1 where i: "InsertNodeUtilization env u nu d = (r1, d1)" by fastforce
  then obtain r2 where e: "pg_exec env (insert_util_stmt \<lparr>ur_id = u, ur_info = nu\<rparr>) d = (r2, d1)"
    by (auto simp: InsertNodeUtilization_def split: prod.splits option.splits)
  have "util_inv env d1 \<and> u \<in> drawn env d1"
    using e
  proof (cases rule: pg_exec_cases)
    case (failed x)
    then show ?thesis using Cons.prems(2,3) by (simp add: util_inv_def drawn_def)
  next
    case ok
    then have t: "nodes_util_t d1 = nodes_util_t d @ [\<lparr>ur_id = u, ur_info = nu\<rparr>]" "u \<notin> ur_id ` set (nodes_util_t d)"
        "uuidCtr d1 = uuidCtr d"
      by (auto simp: insert_util_stmt_def insert_row_def list_ex_key split: if_splits)
    show ?thesis using Cons.prems(2,3) t(1,2) by (simp add: util_inv_def drawn_eq [OF t(3)])
  qed
  then show ?case using Cons.IH [of d1] Cons.prems(1) i by (cases r1) auto
qed

lemma insert_history_inv:
  assumes "insert_history int8 env ty msg x d = (r, d')" and "history_inv env d"
  shows "history_inv env d'"
proof -
  let ?u = "freshUUID env (uuidCtr d)"
  obtain r1 where e: "pg_exec env (insert_history_stmt int8 ty ?u (fst x) (snd x))
      (d\<lparr>uuidCtr := Suc (uuidCtr d)\<rparr>) = (r1, d')"
    using assms(1) by (auto simp: insert_history_def new_uuid_def split: prod.splits option.splits)
  show ?thesis
    using e
  proof (cases rule: pg_exec_cases)
    case (failed y)
    then show ?thesis using assms(2) by (auto simp: history_inv_def drawn_def)
  next
    case ok
    then obtain n where t: "history_t d' = history_t d @
          [\<lparr>hr_id = ?u, hr_type = ty, hr_total_number = n, hr_timestamp = snd x\<rparr>]"
        "?u \<notin> hr_id ` set (history_t d)" "uuidCtr d' = Suc (uuidCtr d)"
      by (auto simp: insert_history_stmt_def insert_row_def list_ex_key split: if_splits sum.splits)
    show ?thesis using assms(2) t(1,2) by (auto simp: history_inv_def drawn_Suc [OF t(3)])
  qed
qed

lemma UpdateHistory_inv:
  assumes "history_inv env d"
  shows "history_inv env (snd (UpdateHistory int8 env as cs d))"
proof -
  have loop: "history_inv env d \<Longrightarrow> history_inv env (snd (for_each (insert_history int8 env ty msg) xs d))" for ty msg xs d
    by (rule for_each_invariant) (auto intro: insert_history_inv surjective_pairing)
  obtain r1 d1 where 1: "for_each (insert_history int8 env Hist_application
        ''could not update applications history into DB: '')
      (map (\<lambda>a. (hist_TotalApplications a, hist_Timestamp a)) as) d = (r1, d1)" by fastforce
  then have "history_inv env d1"
    using loop [OF assms, of Hist_application "''could not update applications history into DB: ''"
        "map (\<lambda>a. (hist_TotalApplications a, hist_Timestamp a)) as"] by simp
  with 1 loop [of d1] show ?thesis by (cases r1) (simp_all add: UpdateHistory_def)
qed

lemma run_job_inv:
  assumes "inj (freshUUID env)" and "db_inv env d"
  shows "db_inv env (snd (run_job int8 env job d))"
proof -
  obtain r d' where j: "run_job int8 env job d = (r, d')" by fastforce
  have "db_inv env d'"
  proof (cases job)
    case (JPartitions ps)
    then have u: "UpsertPartitions env ps d = (r, d')" using j by (simp add: run_job_def)
    note k = UpsertPartitions_keeps [OF u]
    from UpsertPartitions_inv [OF u assms(1)] invs_mono [OF keeps_drawn [OF k]] keeps_fields(1) [OF k] assms(2)
    show ?thesis by (simp add: db_inv_def)
  next
    case (JNodes ns p)
    then have u: "UpsertNodes env ns p d = (r, d')" using j by (simp add: run_job_def)
    note k = UpsertNodes_keeps [OF u]
    from UpsertNodes_inv [OF u assms(1)] invs_mono [OF keeps_drawn [OF k]] keeps_fields(2) [OF k] assms(2)
    show ?thesis by (simp add: db_inv_def)
  next
    case (JNodeUtil nus)
    let ?d1 = "d\<lparr>uuidCtr := Suc (uuidCtr d)\<rparr>"
    have u: "InsertNodeUtilizations env (freshUUID env (uuidCtr d)) nus ?d1 = (r, d')"
      using j JNodeUtil by (simp add: run_job_def new_uuid_def)
    have "util_inv env ?d1" "freshUUID env (uuidCtr d) \<in> drawn env ?d1"
      using assms(2) by (auto simp: db_inv_def util_inv_def drawn_def)
    from insert_util_inv [OF u this] have ui: "util_inv env d'" .
    have k: "keeps no_util d d'"
      using InsertNodeUtilizations_keeps [OF u] by (simp add: keeps_def clear_defs)
    from ui invs_mono [OF keeps_drawn [OF k]] keeps_fields(3) [OF k] assms(2)
    show ?thesis by (simp add: db_inv_def)
  next
    case (JHistory as cs)
    then have u: "UpdateHistory int8 env as cs d = (r, d')" using j by (simp add: run_job_def)
    note k = UpdateHistory_keeps [OF u]
    from UpdateHistory_inv [of env d int8 as cs] u invs_mono [OF keeps_drawn [OF k]] keeps_fields(4) [OF k] assms(2)
    show ?thesis by (simp add: db_inv_def)
  next
    case (JQueues qs)
    then have u: "UpsertQueues env qs d = (r, d')" using j by (simp add: run_job_def)
    have "queue_inv env d'" using UpsertQueues_keeps_inv [of env d qs] u assms by (simp add: db_inv_def)
    then show ?thesis by (rule db_inv_queues [OF assms(2) UpsertQueues_only [OF u]])
  next
    case (JApplications as)
    then have u: "UpsertApplications env as d = (r, d')" using j by (simp add: run_job_def)
    note k = UpsertApplications_keeps [OF u]
    from UpsertApplications_inv [OF u assms(1)] invs_mono [OF keeps_drawn [OF k]] keeps_fields(6) [OF k] assms(2)
    show ?thesis by (simp add: db_inv_def)
  qed
  with j show ?thesis by simp
qed

text \<open>Identifiers that are drawn once only are what the database relies on.\<close>

definition guarded_inv :: "pgenv \<Rightarrow> db \<Rightarrow> bool" where
  "guarded_inv env d \<longleftrightarrow> (inj (freshUUID env) \<longrightarrow> db_inv env d)"

end
