(* ===== verification/Event_Stream.thy ===== *)
theory Event_Stream
  imports Event_Handler
begin

text \<open>
  \<open>internal/yunikorn/stream.go\<close>: \<open>ProcessEvents\<close> reads the body of the event stream line
  by line and hands each line to \<open>processStreamResponse\<close>. The bytes of the body, how the
  reading ends (with \<open>io.EOF\<close> or with another error) and the JSON decoder are arguments.
\<close>

section \<open>Reading lines\<close>

definition newline :: char where
  "newline = CHR 0x0A"

text \<open>
  \<open>bufio.Reader.ReadBytes\<close> with the newline as delimiter: the bytes up to and including the
  first newline and the rest, or the error that ends the stream with the bytes before it.
\<close>

definition ReadBytes :: "string \<Rightarrow> goerror \<Rightarrow> (string \<times> goerror) + (string \<times> string)" where
  "ReadBytes body end_err =
     (let line = takeWhile (\<lambda>c. c \<noteq> newline) body; rest = dropWhile (\<lambda>c. c \<noteq> newline) body in
      if rest = [] then Inl (line, end_err) else Inr (line @ [newline], tl rest))"

lemma ReadBytes_shorter: "ReadBytes body e = Inr (line, rest) \<Longrightarrow> length rest < length body"
proof -
  assume r: "ReadBytes body e = Inr (line, rest)"
  then have "dropWhile (\<lambda>c. c \<noteq> newline) body \<noteq> []" "rest = tl (dropWhile (\<lambda>c. c \<noteq> newline) body)"
    by (simp_all add: ReadBytes_def Let_def split: if_splits)
  then have "length rest < length (dropWhile (\<lambda>c. c \<noteq> newline) body)" by simp
  also have "\<dots> \<le> length body" by (rule length_dropWhile_le)
  finally show ?thesis .
qed

section \<open>Processing\<close>

text \<open>The service with its event repository.\<close>

record 'r Stream_state =
  service :: "'r Service_state"
  eventRepository :: InMemoryEventRepository

definition processStreamResponse ::
    "si_names \<Rightarrow> app_client \<Rightarrow> 'r app_upsert \<Rightarrow> (string \<Rightarrow> EventRecord result) \<Rightarrow> string \<Rightarrow> 'r Stream_state \<Rightarrow>
     goerror option \<times> 'r Stream_state" where
  "processStreamResponse names client upsert unmarshal response s =
     (if length response = 0 then
        (None, s\<lparr>service := logMsg LWarn ''empty response from yunikorn event stream'' (service s)\<rparr>)
      else (case unmarshal response of
          Inl e \<Rightarrow> (Some (Errorf_w ''could not unmarshal event from stream: '' e), s)
        | Inr eventRecord \<Rightarrow>
            (case handleEvent names client upsert eventRecord (service s) of (herr, svc1) \<Rightarrow>
               let svc2 = (case herr of None \<Rightarrow> svc1
                   | Some e \<Rightarrow> logMsg LError (''error handling event: '' @ error_text e) svc1) in
               (case Record names eventRecord (eventRepository s) of (rerr, er) \<Rightarrow>
                  let svc3 = (case rerr of None \<Rightarrow> svc2
                      | Some e \<Rightarrow> logMsg LError (''error recording event: '' @ error_text e) svc2);
                      svc4 = logMsg LInfo ''received event from yunikorn event stream'' svc3
                  in (None, s\<lparr>service := svc4, eventRepository := er\<rparr>)))))"

text \<open>The loop of \<open>ProcessEvents\<close>; \<open>clients\<close> gives the scheduler's answer while line \<open>n\<close> is processed.\<close>

function stream_loop ::
    "si_names \<Rightarrow> (nat \<Rightarrow> app_client) \<Rightarrow> 'r app_upsert \<Rightarrow> (string \<Rightarrow> EventRecord result) \<Rightarrow> goerror \<Rightarrow>
     nat \<Rightarrow> string \<Rightarrow> 'r Stream_state \<Rightarrow> goerror option \<times> 'r Stream_state" where
  "stream_loop names clients upsert unmarshal end_err n body s =
     (case ReadBytes body end_err of
        Inl (response, err) \<Rightarrow> if errors_Is err io_EOF then (None, s) else (Some err, s)
      | Inr (response, rest) \<Rightarrow>
          (case processStreamResponse names (clients n) upsert unmarshal response s of
             (Some e, s') \<Rightarrow> (Some (Errorf_w ''error processing stream response: '' e), s')
           | (None, s') \<Rightarrow> stream_loop names clients upsert unmarshal end_err (Suc n) rest s'))"
  by pat_completeness auto
termination
  by (relation "measure (\<lambda>(names, clients, upsert, unmarshal, end_err, n, body, s). length body)")
     (auto dest: ReadBytes_shorter)

declare stream_loop.simps [simp del]

text \<open>\<open>stream\<close> is the answer of \<open>GetEventStream\<close>: an error, or a body and the error that ends it.\<close>

definition ProcessEvents ::
    "si_names \<Rightarrow> (nat \<Rightarrow> app_client) \<Rightarrow> 'r app_upsert \<Rightarrow> (string \<Rightarrow> EventRecord result) \<Rightarrow>
     (string \<times> goerror) result \<Rightarrow> 'r Stream_state \<Rightarrow> goerror option \<times> 'r Stream_state" where
  "ProcessEvents names clients upsert unmarshal stream s =
     (case stream of
        Inl e \<Rightarrow> (Some (Errorf_w ''error getting event stream: '' e), s)
      | Inr (body, end_err) \<Rightarrow> stream_loop names clients upsert unmarshal end_err 0 body s)"

section \<open>The lines of a body\<close>

text \<open>The complete lines of a body; a last part without a newline is not one of them.\<close>

definition complete_lines :: "string \<Rightarrow> string list" where
  "complete_lines body = map (\<lambda>l. l @ [newline]) (butlast (split_on newline body))"

lemma split_on_dropWhile:
  "split_on c s = (if c \<in> set s
     then takeWhile (\<lambda>x. x \<noteq> c) s # split_on c (tl (dropWhile (\<lambda>x. x \<noteq> c) s)) else [s])"
  by (induction s) auto

lemma complete_lines_ReadBytes:
  "complete_lines body =
     (case ReadBytes body e of Inl _ \<Rightarrow> [] | Inr (line, rest) \<Rightarrow> line # complete_lines rest)"
proof (cases "newline \<in> set body")
  case True
  then have "dropWhile (\<lambda>c. c \<noteq> newline) body \<noteq> []" by (auto simp: dropWhile_eq_Nil_conv)
  with True show ?thesis
    unfolding complete_lines_def by (subst split_on_dropWhile) (simp add: ReadBytes_def Let_def)
next
  case False
  then have "dropWhile (\<lambda>c. c \<noteq> newline) body = []" by (auto simp: dropWhile_eq_Nil_conv)
  with False show ?thesis
    unfolding complete_lines_def by (subst split_on_dropWhile) (simp add: ReadBytes_def Let_def)
qed

text \<open>The loop is the loop over the complete lines, followed by the end of the stream.\<close>

fun process_lines ::
    "si_names \<Rightarrow> (nat \<Rightarrow> app_client) \<Rightarrow> 'r app_upsert \<Rightarrow> (string \<Rightarrow> EventRecord result) \<Rightarrow>
     nat \<Rightarrow> string list \<Rightarrow> 'r Stream_state \<Rightarrow> goerror option \<times> 'r Stream_state" where
  "process_lines names clients upsert unmarshal n [] s = (None, s)"
| "process_lines names clients upsert unmarshal n (l # ls) s =
     (case processStreamResponse names (clients n) upsert unmarshal l s of
        (Some e, s') \<Rightarrow> (Some (Errorf_w ''error processing stream response: '' e), s')
      | (None, s') \<Rightarrow> process_lines names clients upsert unmarshal (Suc n) ls s')"

definition end_of_stream :: "goerror \<Rightarrow> goerror option" where
  "end_of_stream e = (if errors_Is e io_EOF then None else Some e)"

lemma stream_loop_lines:
  "stream_loop names clients upsert unmarshal e n body s =
     (case process_lines names clients upsert unmarshal n (complete_lines body) s of
        (Some err, s') \<Rightarrow> (Some err, s')
      | (None, s') \<Rightarrow> (end_of_stream e, s'))"
proof (induction "length body" arbitrary: n body s rule: less_induct)
  case less
  note unfold = stream_loop.simps [of names clients upsert unmarshal e n body s]
    complete_lines_ReadBytes [of body e]
  show ?case
  proof (cases "ReadBytes body e")
    case (Inl a)
    then have "snd a = e" by (auto simp: ReadBytes_def Let_def split: if_splits)
    with Inl show ?thesis unfolding unfold by (cases a) (simp add: end_of_stream_def)
  next
    case (Inr p)
    obtain l rest where p: "p = (l, rest)" by fastforce
    with Inr have "length rest < length body" by (simp add: ReadBytes_shorter)
    from less [OF this] Inr p show ?thesis
      unfolding unfold
      by (cases "processStreamResponse names (clients n) upsert unmarshal l s") (simp split: option.split)
  qed
qed

section \<open>Well-formed streams\<close>

text \<open>
  When every complete line decodes to an event, the loop handles these events in order and
  counts each of them.
\<close>

definition events_of :: "(nat \<Rightarrow> app_client) \<Rightarrow> nat \<Rightarrow> EventRecord list \<Rightarrow> (app_client \<times> EventRecord) list" where
  "events_of clients n evs = zip (map clients [n ..< n + length evs]) evs"

lemma events_of_Cons [simp]:
  "events_of clients n (ev # evs) = (clients n, ev) # events_of clients (Suc n) evs"
  by (simp add: events_of_def upt_conv_Cons del: upt_Suc)

lemma processStreamResponse_event:
  assumes "response \<noteq> []" and "unmarshal response = Inr ev"
  shows "processStreamResponse names client upsert unmarshal response s =
    (None, s\<lparr>service := logMsg LInfo ''received event from yunikorn event stream'' (snd (handleEvent names client upsert ev (service s))),
             eventRepository := snd (Record names ev (eventRepository s))\<rparr>)"
  using assms by (simp add: processStreamResponse_def handleEvent_def Record_def Let_def)

lemma handle_all_Cons [simp]:
  "handle_all names upsert ((client, ev) # evs) s = handle_all names upsert evs (snd (handleEvent names client upsert ev s))"
  by (simp add: handle_all_def)

lemma complete_lines_nonempty: "l \<in> set (complete_lines body) \<Longrightarrow> l \<noteq> []"
  by (auto simp: complete_lines_def)

definition same_view :: "'r Service_state \<Rightarrow> 'r Service_state \<Rightarrow> bool" where
  "same_view s t \<longleftrightarrow> (\<forall>i. cached i s = cached i t) \<and> svcRepo s = svcRepo t"

lemma process_lines_events:
  assumes "list_all (\<lambda>l. l \<noteq> []) ls" and "map unmarshal ls = map Inr evs"
    and "same_view (service s) t"
  shows "\<exists>s'. process_lines names clients upsert unmarshal n ls s = (None, s') \<and>
    same_view (service s') (handle_all names upsert (events_of clients n evs) t) \<and>
    for_each (Record names) evs (eventRepository s) = (None, eventRepository s')"
  using assms
proof (induction ls arbitrary: n evs s t)
  case Nil
  then show ?case by (simp add: handle_all_def events_of_def)
next
  case (Cons l ls)
  then obtain ev evs' where evs: "evs = ev # evs'" "unmarshal l = Inr ev" "map unmarshal ls = map Inr evs'"
    by (cases evs) auto
  have l: "l \<noteq> []" using Cons.prems(1) by simp
  have p: "processStreamResponse names (clients n) upsert unmarshal l s =
      (None, s\<lparr>service := logMsg LInfo ''received event from yunikorn event stream'' (snd (handleEvent names (clients n) upsert ev (service s))),
             eventRepository := snd (Record names ev (eventRepository s))\<rparr>)" (is "_ = (None, ?s)")
    using l evs(2) by (rule processStreamResponse_event)
  let ?t = "snd (handleEvent names (clients n) upsert ev t)"
  have "same_view (service ?s) ?t"
    using Cons.prems(3) handleEvent_step [where ev = ev and names = names and client = "clients n" and upsert = upsert]
    unfolding same_view_def by (auto, metis)
  from Cons.IH [OF _ evs(3) this, of "Suc n"] Cons.prems(1)
  obtain s' where s': "process_lines names clients upsert unmarshal (Suc n) ls ?s = (None, s')"
      "same_view (service s') (handle_all names upsert (events_of clients (Suc n) evs') ?t)"
      "for_each (Record names) evs' (eventRepository ?s) = (None, eventRepository s')"
    by auto
  have r: "Record names ev (eventRepository s) = (None, eventRepository ?s)"
    by (simp add: Record_def Let_def)
  have "for_each (Record names) (ev # evs') (eventRepository s) = (None, eventRepository s')"
    using s'(3) by (subst for_each.simps, subst r) simp
  with p s'(1,2) show ?case unfolding evs(1) by simp
qed

section \<open>Properties\<close>

text \<open>
  C11. When every complete line of the stream decodes, \<open>ProcessEvents\<close> handles exactly these events in
  order (an unfinished last line is none of them), records each of them, and returns nil at the
  end of the file and the reader's error otherwise.
\<close>

theorem ProcessEvents_handles_lines:
  assumes "map unmarshal (complete_lines body) = map Inr evs"
  shows "\<exists>s'. ProcessEvents names clients upsert unmarshal (Inr (body, e)) s = (end_of_stream e, s') \<and>
    (\<forall>i. cached i (service s') = entry_run names i (events_of clients 0 evs) (cached i (service s))) \<and>
    svcRepo (service s') = fold (\<lambda>a r. snd (upsert [a] r))
      (persisted names (events_of clients 0 evs) (\<lambda>i. cached i (service s))) (svcRepo (service s)) \<and>
    for_each (Record names) evs (eventRepository s) = (None, eventRepository s')"
proof -
  have "list_all (\<lambda>l. l \<noteq> []) (complete_lines body)"
    using complete_lines_nonempty by (auto simp: list_all_iff)
  moreover have "same_view (service s) (service s)" by (simp add: same_view_def)
  ultimately obtain s' where s': "process_lines names clients upsert unmarshal 0 (complete_lines body) s = (None, s')"
      "same_view (service s') (handle_all names upsert (events_of clients 0 evs) (service s))"
      "for_each (Record names) evs (eventRepository s) = (None, eventRepository s')"
    using process_lines_events [OF _ assms] by blast
  then show ?thesis
    by (auto simp: ProcessEvents_def stream_loop_lines same_view_def handle_all_entry handle_all_persisted)
qed

theorem ProcessEvents_handles_lines_witness:
  "complete_lines (''a'' @ [newline] @ ''b'') = [''a'' @ [newline]] \<and>
   (\<exists>s'. ProcessEvents demo_names (\<lambda>n p q i. Inr None) (\<lambda>as r. (None, r @ as)) (\<lambda>l. Inr demo_event)
      (Inr (''a'' @ [newline] @ ''b'', io_EOF))
      \<lparr>service = \<lparr>appMap = Map.empty, svcRepo = [], svcLog = []\<rparr>, eventRepository = NewInMemoryEventRepository\<rparr> = (None, s') \<and>
    for_each (Record demo_names) [demo_event] NewInMemoryEventRepository = (None, eventRepository s'))"
proof -
  have c: "complete_lines (''a'' @ [newline] @ ''b'') = [''a'' @ [newline]]"
    by (simp add: complete_lines_def newline_def)
  have "map (\<lambda>l. Inr demo_event :: EventRecord result) (complete_lines (''a'' @ [newline] @ ''b'')) = map Inr [demo_event]"
    unfolding c by simp
  from ProcessEvents_handles_lines [OF this, of demo_names "\<lambda>n p q i. Inr None" "\<lambda>as r. (None, r @ as)" io_EOF
      "\<lparr>service = \<lparr>appMap = Map.empty, svcRepo = [], svcLog = []\<rparr>, eventRepository = NewInMemoryEventRepository\<rparr>"] c
  show ?thesis by (auto simp: end_of_stream_def io_EOF_def)
qed

lemma process_lines_append:
  "process_lines names clients upsert unmarshal n ls s = (None, s') \<Longrightarrow>
   process_lines names clients upsert unmarshal n (ls @ ms) s =
     process_lines names clients upsert unmarshal (n + length ls) ms s'"
  by (induction ls arbitrary: n s) (auto split: prod.splits option.splits)

text \<open>
  A line that does not decode ends the connection with an error that wraps the decoder's; the
  events before it were recorded, the lines after it are not looked at.
\<close>

theorem ProcessEvents_stops_at_bad_line:
  assumes "complete_lines body = pre @ l # post" and "map unmarshal pre = map Inr evs" and "unmarshal l = Inl err"
  shows "\<exists>s'. ProcessEvents names clients upsert unmarshal (Inr (body, e)) s =
      (Some (Errorf_w ''error processing stream response: ''
        (Errorf_w ''could not unmarshal event from stream: '' err)), s') \<and>
    for_each (Record names) evs (eventRepository s) = (None, eventRepository s')"
proof -
  have ne: "list_all (\<lambda>l. l \<noteq> []) pre" "l \<noteq> []"
    using complete_lines_nonempty [of _ body] assms(1) by (auto simp: list_all_iff)
  have "same_view (service s) (service s)" by (simp add: same_view_def)
  from process_lines_events [OF ne(1) assms(2) this]
  obtain s' where s': "process_lines names clients upsert unmarshal 0 pre s = (None, s')"
      "for_each (Record names) evs (eventRepository s) = (None, eventRepository s')"
    by blast
  from process_lines_append [OF s'(1), of "l # post"] assms ne(2) s'(2) show ?thesis
    by (simp add: ProcessEvents_def stream_loop_lines processStreamResponse_def)
qed

theorem ProcessEvents_stops_at_bad_line_witness:
  "\<exists>s'. ProcessEvents demo_names (\<lambda>n p q i. Inr None) (\<lambda>as r. (None, r @ as)) (\<lambda>l. Inl (ErrorText ''bad''))
      (Inr (''a'' @ [newline] @ ''b'' @ [newline], io_EOF))
      \<lparr>service = \<lparr>appMap = Map.empty, svcRepo = [], svcLog = []\<rparr>, eventRepository = NewInMemoryEventRepository\<rparr> =
    (Some (Errorf_w ''error processing stream response: ''
        (Errorf_w ''could not unmarshal event from stream: '' (ErrorText ''bad''))), s')"
proof -
  have "complete_lines (''a'' @ [newline] @ ''b'' @ [newline]) = [] @ (''a'' @ [newline]) # [''b'' @ [newline]]"
    by (simp add: complete_lines_def newline_def)
  from ProcessEvents_stops_at_bad_line [OF this, where unmarshal = "\<lambda>l. Inl (ErrorText ''bad'')" and evs = "[]" and
      err = "ErrorText ''bad''" and names = demo_names and clients = "\<lambda>n p q i. Inr None" and
      upsert = "\<lambda>as r. (None, r @ as)" and e = io_EOF and s = "\<lparr>service = \<lparr>appMap = Map.empty, svcRepo = [],
        svcLog = []\<rparr>, eventRepository = NewInMemoryEventRepository\<rparr>"]
  show ?thesis by auto
qed

end
