(* ===== verification/Config_Log.thy ===== *)
theory Config_Log
  imports Go_Prelude
begin

text \<open>
  \<open>internal/config/config.go\<close> and the level parser of \<open>internal/log/logger.go\<close>. The
  configuration library (koanf), the file system and zap's parser of level names are
  parameters: \<open>koanf\<close> is the view of the loaded keys that the code reads.
\<close>

section \<open>Configuration\<close>

record cors_Options =
  AllowedOrigins :: "string list"
  AllowedMethods :: "string list"
  AllowedHeaders :: "string list"

record YHSConfig =
  yhs_Port :: int
  yhs_AssetsDir :: string
  yhs_DataSyncInterval :: duration
  yhs_CORSConfig :: cors_Options

record PostgresConfig =
  pg_Host :: string
  pg_DbName :: string
  pg_Username :: string
  pg_Password :: string
  pg_PoolMaxConnLifetime :: duration
  pg_PoolMaxConnIdleTime :: duration
  pg_Port :: int
  pg_PoolMaxConns :: int
  pg_PoolMinConns :: int
  pg_SSLMode :: string
  pg_Schema :: string

record YunikornConfig =
  yk_Host :: string
  yk_Port :: int
  yk_Secure :: bool

record LogConfig =
  log_LogLevel :: string
  log_JSONFormat :: bool

record Config =
  cfg_YHS :: YHSConfig
  cfg_Postgres :: PostgresConfig
  cfg_Yunikorn :: YunikornConfig
  cfg_Log :: LogConfig

definition validation_error :: "string \<Rightarrow> string list \<Rightarrow> goerror option" where
  "validation_error msg errorMessages =
     (if errorMessages \<noteq> [] then Some (ErrorText (msg @ format_strings errorMessages)) else None)"

definition YHSConfig_Validate :: "YHSConfig \<Rightarrow> goerror option" where
  "YHSConfig_Validate c = validation_error ''yhs config validation errors: ''
     (if yhs_Port c < 1 then [''yhs config validation error: port is required''] else [])"

definition PostgresConfig_Validate :: "PostgresConfig \<Rightarrow> goerror option" where
  "PostgresConfig_Validate c = validation_error ''postgres config validation errors: ''
     ((if pg_Host c = [] then [''db host is required''] else []) @
      (if pg_DbName c = [] then [''db name is required''] else []) @
      (if pg_Username c = [] then [''db user is required''] else []) @
      (if pg_Password c = [] then [''db password is required''] else []) @
      (if pg_Port c < 1 then [''db port is required''] else []))"

definition YunikornConfig_Validate :: "YunikornConfig \<Rightarrow> goerror option" where
  "YunikornConfig_Validate c = validation_error ''yunikorn config validation errors: ''
     ((if yk_Host c = [] then [''yunikorn host is required''] else []) @
      (if yk_Port c < 1 then [''yunikorn port is required''] else []))"

record koanf =
  kString :: "string \<Rightarrow> string"
  kInt :: "string \<Rightarrow> int"
  kBool :: "string \<Rightarrow> bool"
  kDuration :: "string \<Rightarrow> duration"
  kStrings :: "string \<Rightarrow> string list"

text \<open>
  \<open>stat\<close>, \<open>load_file\<close> and \<open>load_env\<close> are \<open>os.Stat\<close> and the two \<open>Load\<close> calls, the second
  of which merges the environment into what the first has loaded.
\<close>

definition processEnvVar :: "string \<Rightarrow> string" where
  "processEnvVar s = ToLower (TrimPrefix s ''YHS_'')"

definition loadConfig ::
    "(string \<Rightarrow> goerror option) \<Rightarrow> (string \<Rightarrow> koanf \<Rightarrow> koanf result) \<Rightarrow>
     ((string \<Rightarrow> string) \<Rightarrow> koanf \<Rightarrow> koanf result) \<Rightarrow> koanf \<Rightarrow> string \<Rightarrow> koanf result" where
  "loadConfig stat load_file load_env k0 cfgFile =
     (let from_file =
        (if cfgFile \<noteq> [] then
           (case stat cfgFile of
              Some e \<Rightarrow> Inl (Errorf_v ''error reading config file: '' e)
            | None \<Rightarrow> (case load_file cfgFile k0 of
                 Inl e \<Rightarrow> Inl (Errorf_v ''error loading config file: '' e)
               | Inr k \<Rightarrow> Inr k))
         else Inr k0) in
      case from_file of
        Inl e \<Rightarrow> Inl e
      | Inr k \<Rightarrow> (case load_env processEnvVar k of
          Inl e \<Rightarrow> Inl (Errorf_v ''error loading environment variables: '' e)
        | Inr k' \<Rightarrow> Inr k'))"

definition build_config :: "koanf \<Rightarrow> Config result" where
  "build_config k =
     (let assetsDir = (if kString k ''yhs_assets_dir'' = [] then ''assets'' else kString k ''yhs_assets_dir'');
          dataSyncInterval = (if kDuration k ''yhs_data_sync_interval'' = 0 then 5 * (60 * second)
                              else kDuration k ''yhs_data_sync_interval'');
          corsConfig = \<lparr>AllowedOrigins = kStrings k ''yhs_cors_allowed_origins'',
                        AllowedMethods = kStrings k ''yhs_cors_allowed_methods'',
                        AllowedHeaders = kStrings k ''yhs_cors_allowed_headers''\<rparr>;
          yhsConfig = \<lparr>yhs_Port = kInt k ''yhs_port'', yhs_AssetsDir = assetsDir,
                       yhs_DataSyncInterval = dataSyncInterval, yhs_CORSConfig = corsConfig\<rparr>
      in case YHSConfig_Validate yhsConfig of
           Some e \<Rightarrow> Inl e
         | None \<Rightarrow>
             (let yunikornConfig = \<lparr>yk_Host = kString k ''yunikorn_host'', yk_Port = kInt k ''yunikorn_port'',
                    yk_Secure = kBool k ''yunikorn_secure''\<rparr>;
                  logConfig = \<lparr>log_LogLevel = kString k ''log_level'', log_JSONFormat = kBool k ''log_json_format''\<rparr>;
                  postgresConfig = \<lparr>pg_Host = kString k ''db_host'', pg_DbName = kString k ''db_dbname'',
                    pg_Username = kString k ''db_user'', pg_Password = kString k ''db_password'',
                    pg_PoolMaxConnLifetime = kDuration k ''db_pool_max_conn_lifetime'',
                    pg_PoolMaxConnIdleTime = kDuration k ''db_pool_max_conn_idletime'',
                    pg_Port = kInt k ''db_port'', pg_PoolMaxConns = kInt k ''db_pool_max_conns'',
                    pg_PoolMinConns = kInt k ''db_pool_min_conns'', pg_SSLMode = kString k ''db_sslmode'',
                    pg_Schema = kString k ''db_schema''\<rparr>
              in Inr \<lparr>cfg_YHS = yhsConfig, cfg_Postgres = postgresConfig, cfg_Yunikorn = yunikornConfig,
                      cfg_Log = logConfig\<rparr>))"

definition config_New ::
    "(string \<Rightarrow> goerror option) \<Rightarrow> (string \<Rightarrow> koanf \<Rightarrow> koanf result) \<Rightarrow>
     ((string \<Rightarrow> string) \<Rightarrow> koanf \<Rightarrow> koanf result) \<Rightarrow> koanf \<Rightarrow> string \<Rightarrow> Config result" where
  "config_New stat load_file load_env k0 path =
     (case loadConfig stat load_file load_env k0 path of Inl e \<Rightarrow> Inl e | Inr k \<Rightarrow> build_config k)"

section \<open>Log levels\<close>

text \<open>
  \<open>zapcore.Level\<close> is an \<open>int8\<close>; \<open>DebugLevel\<close> is -1 and \<open>InvalidLevel\<close> is 6. \<open>zapParse\<close> is
  \<open>zapcore.ParseLevel\<close>.
\<close>

type_synonym zap_level = "8 word"

definition DebugLevel :: zap_level where "DebugLevel = - 1"
definition InvalidLevel :: zap_level where "InvalidLevel = 6"

definition parseLevel :: "(string \<Rightarrow> zap_level option) \<Rightarrow> string \<Rightarrow> zap_level option" where
  "parseLevel zapParse level =
     (case zapParse level of
        Some l \<Rightarrow> Some l
      | None \<Rightarrow>
          (case ParseInt ''ParseInt'' 31 level of
             Inl e \<Rightarrow> None
           | Inr levelNum \<Rightarrow>
               (let l0 = (word_of_int levelNum :: zap_level);
                    l1 = (if sint l0 < sint DebugLevel then DebugLevel else l0);
                    l2 = (if sint InvalidLevel \<le> sint l1 then InvalidLevel - 1 else l1)
                in Some l2)))"

section \<open>Facts\<close>

lemma validation_error_None [simp]: "validation_error msg es = None \<longleftrightarrow> es = []"
  by (simp add: validation_error_def)

lemma PostgresConfig_Validate_None:
  "PostgresConfig_Validate c = None \<longleftrightarrow> pg_Host c \<noteq> [] \<and> pg_DbName c \<noteq> [] \<and> pg_Username c \<noteq> [] \<and>
     pg_Password c \<noteq> [] \<and> 1 \<le> pg_Port c"
  by (simp add: PostgresConfig_Validate_def not_less)

lemma YunikornConfig_Validate_None:
  "YunikornConfig_Validate c = None \<longleftrightarrow> yk_Host c \<noteq> [] \<and> 1 \<le> yk_Port c"
  by (simp add: YunikornConfig_Validate_def not_less)

lemma build_config_port: "(\<exists>e. build_config k = Inl e) \<longleftrightarrow> kInt k ''yhs_port'' < 1"
  by (auto simp: build_config_def Let_def YHSConfig_Validate_def validation_error_def)

lemma levels_sint: "sint DebugLevel = -1" "sint InvalidLevel = 6" "sint (InvalidLevel - 1) = 5"
  by (simp_all add: DebugLevel_def InvalidLevel_def)

text \<open>Whatever a number is, the level is one of zap's.\<close>

lemma parseLevel_range:
  assumes "\<And>s l. zapParse s = Some l \<Longrightarrow> - 1 \<le> sint l \<and> sint l \<le> 5" and "parseLevel zapParse s = Some l"
  shows "- 1 \<le> sint l \<and> sint l \<le> 5"
proof (cases "zapParse s")
  case (Some x)
  then show ?thesis using assms by (simp add: parseLevel_def)
next
  case None
  then obtain n where "ParseInt ''ParseInt'' 31 s = Inr n"
    using assms(2) by (auto simp: parseLevel_def split: sum.splits)
  then show ?thesis
    using assms(2) None by (auto simp: parseLevel_def Let_def levels_sint split: if_splits)
qed

text \<open>Numbers that fit the level's eight bits are clamped.\<close>

lemma parseLevel_clamps:
  assumes "zapParse (format_int n) = None" and "- 128 \<le> n" and "n < 128"
  shows "\<exists>l. parseLevel zapParse (format_int n) = Some l \<and> sint l = max (- 1) (min n 5)"
proof -
  have p: "ParseInt ''ParseInt'' 31 (format_int n) = Inr n"
    using assms(2,3) by (intro ParseInt_format_int) simp_all
  have s: "sint (word_of_int n :: zap_level) = n"
    using assms(2,3) by (simp add: sint_sbintrunc' signed_take_bit_int_eq_self)
  show ?thesis
    using assms(1) p s by (auto simp: parseLevel_def Let_def levels_sint)
qed

section \<open>Properties\<close>

text \<open>What is loaded: the file when a path is given, which has to exist, and then the environment over it.\<close>

definition config_loads ::
    "(string \<Rightarrow> goerror option) \<Rightarrow> (string \<Rightarrow> koanf \<Rightarrow> koanf result) \<Rightarrow>
     ((string \<Rightarrow> string) \<Rightarrow> koanf \<Rightarrow> koanf result) \<Rightarrow> koanf \<Rightarrow> string \<Rightarrow> koanf \<Rightarrow> bool" where
  "config_loads stat load_file load_env k0 path k \<longleftrightarrow>
     (\<exists>k1. (if path = [] then k1 = k0 else stat path = None \<and> load_file path k0 = Inr k1) \<and> load_env processEnvVar k1 = Inr k)"

lemma loadConfig_loads: "loadConfig stat load_file load_env k0 path = Inr k \<longleftrightarrow> config_loads stat load_file load_env k0 path k"
  by (auto simp: loadConfig_def config_loads_def split: option.split sum.split)

text \<open>
  C39. \<open>New\<close> fails exactly when the file cannot be found or loaded, when the environment cannot be loaded, or when
  the port of the server is not positive. Otherwise every setting of the server is the loaded one, with \<open>assets\<close> for
  a missing assets directory and five minutes for a missing sync interval, and the settings of the
  database, the scheduler and the log are the loaded ones: these are not validated, so that settings that their
  \<open>Validate\<close> refuses are accepted.
\<close>

theorem config_New_correct:
  "(\<forall>k. config_loads stat load_file load_env k0 path k \<longrightarrow>
      (if kInt k ''yhs_port'' < 1 then \<exists>e. config_New stat load_file load_env k0 path = Inl e
       else \<exists>c. config_New stat load_file load_env k0 path = Inr c \<and>
         cfg_YHS c = \<lparr>yhs_Port = kInt k ''yhs_port'',
           yhs_AssetsDir = (if kString k ''yhs_assets_dir'' = [] then ''assets'' else kString k ''yhs_assets_dir''),
           yhs_DataSyncInterval = (if kDuration k ''yhs_data_sync_interval'' = 0 then 300 * 1000000000
             else kDuration k ''yhs_data_sync_interval''),
           yhs_CORSConfig = \<lparr>AllowedOrigins = kStrings k ''yhs_cors_allowed_origins'',
             AllowedMethods = kStrings k ''yhs_cors_allowed_methods'', AllowedHeaders = kStrings k ''yhs_cors_allowed_headers''\<rparr>\<rparr> \<and>
         cfg_Postgres c = \<lparr>pg_Host = kString k ''db_host'', pg_DbName = kString k ''db_dbname'', pg_Username = kString k ''db_user'',
           pg_Password = kString k ''db_password'', pg_PoolMaxConnLifetime = kDuration k ''db_pool_max_conn_lifetime'',
           pg_PoolMaxConnIdleTime = kDuration k ''db_pool_max_conn_idletime'', pg_Port = kInt k ''db_port'',
           pg_PoolMaxConns = kInt k ''db_pool_max_conns'', pg_PoolMinConns = kInt k ''db_pool_min_conns'',
           pg_SSLMode = kString k ''db_sslmode'', pg_Schema = kString k ''db_schema''\<rparr> \<and>
         cfg_Yunikorn c = \<lparr>yk_Host = kString k ''yunikorn_host'', yk_Port = kInt k ''yunikorn_port'',
           yk_Secure = kBool k ''yunikorn_secure''\<rparr> \<and>
         cfg_Log c = \<lparr>log_LogLevel = kString k ''log_level'', log_JSONFormat = kBool k ''log_json_format''\<rparr> \<and>
         (kString k ''db_host'' = [] \<longrightarrow> PostgresConfig_Validate (cfg_Postgres c) \<noteq> None) \<and>
         (kString k ''yunikorn_host'' = [] \<longrightarrow> YunikornConfig_Validate (cfg_Yunikorn c) \<noteq> None))) \<and>
   ((\<nexists>k. config_loads stat load_file load_env k0 path k) \<longrightarrow> (\<exists>e. config_New stat load_file load_env k0 path = Inl e))"
proof (cases "loadConfig stat load_file load_env k0 path")
  case (Inl e)
  then have "\<not> config_loads stat load_file load_env k0 path k" for k by (simp flip: loadConfig_loads)
  with Inl show ?thesis by (simp add: config_New_def)
next
  case (Inr k)
  then have n: "config_New stat load_file load_env k0 path = build_config k" by (simp add: config_New_def)
  have l: "config_loads stat load_file load_env k0 path k' \<longleftrightarrow> k' = k" for k' using Inr by (auto simp flip: loadConfig_loads)
  show ?thesis
  proof (cases "kInt k ''yhs_port'' < 1")
    case True
    with l n build_config_port [of k] show ?thesis by simp
  next
    case False
    then have v: "YHSConfig_Validate y = None" if "yhs_Port y = kInt k ''yhs_port''" for y
      using that by (simp add: YHSConfig_Validate_def)
    show ?thesis
      using False unfolding n l
      by (simp add: build_config_def Let_def v second_def PostgresConfig_Validate_def YunikornConfig_Validate_def del: not_None_eq)
  qed
qed

definition demo_koanf :: koanf where
  "demo_koanf = \<lparr>kString = (\<lambda>nm. []), kInt = (\<lambda>nm. 8989), kBool = (\<lambda>nm. False), kDuration = (\<lambda>nm. 0), kStrings = (\<lambda>nm. [])\<rparr>"

theorem config_New_correct_witness:
  "(\<exists>c. config_New (\<lambda>f. None) (\<lambda>f k. Inr demo_koanf) (\<lambda>cb k. Inr k) demo_koanf ''config.yml'' = Inr c \<and>
     yhs_AssetsDir (cfg_YHS c) = ''assets'' \<and> yhs_DataSyncInterval (cfg_YHS c) = 300 * 1000000000 \<and>
     PostgresConfig_Validate (cfg_Postgres c) \<noteq> None) \<and>
   (\<exists>e. config_New (\<lambda>f. Some (ErrorText [])) (\<lambda>f k. Inr k) (\<lambda>cb k. Inr k) demo_koanf ''missing.yml'' = Inl e)"
proof -
  have l: "config_loads (\<lambda>f. None) (\<lambda>f k. Inr demo_koanf) (\<lambda>cb k. Inr k) demo_koanf ''config.yml'' demo_koanf"
    by (simp add: config_loads_def)
  have "\<exists>c. config_New (\<lambda>f. None) (\<lambda>f k. Inr demo_koanf) (\<lambda>cb k. Inr k) demo_koanf ''config.yml'' = Inr c \<and>
     yhs_AssetsDir (cfg_YHS c) = ''assets'' \<and> yhs_DataSyncInterval (cfg_YHS c) = 300 * 1000000000 \<and>
     PostgresConfig_Validate (cfg_Postgres c) \<noteq> None"
    using conjunct1 [OF config_New_correct, THEN spec, THEN mp, OF l] by (auto simp: demo_koanf_def)
  moreover have "\<not> config_loads (\<lambda>f. Some e) (\<lambda>f k. Inr k) (\<lambda>cb k. Inr k) demo_koanf ''missing.yml'' k" for e k
    by (simp add: config_loads_def)
  then have "\<exists>e'. config_New (\<lambda>f. Some e) (\<lambda>f k. Inr k) (\<lambda>cb k. Inr k) demo_koanf ''missing.yml'' = Inl e'" for e
    using config_New_correct [of "\<lambda>f. Some e" "\<lambda>f k. Inr k" "\<lambda>cb k. Inr k" demo_koanf "''missing.yml''"] by blast
  ultimately show ?thesis by blast
qed

text \<open>
  A number that is not a level name gives the level of its low eight bits, read as a signed number
  and clamped to the levels from -1 to 5. So numbers of eight bits are clamped, and larger ones wrap
  around before: 256 is the level of 0.
\<close>

theorem parseLevel_number:
  assumes "zapParse (format_int n) = None" and "- (2 ^ 30) \<le> n" and "n < 2 ^ 30"
  shows "\<exists>l. parseLevel zapParse (format_int n) = Some l \<and>
    sint l = max (- 1) (min ((n + 128) mod 256 - 128) 5) \<and>
    (- 128 \<le> n \<and> n < 128 \<longrightarrow> sint l = max (- 1) (min n 5))"
proof -
  have p: "ParseInt ''ParseInt'' 31 (format_int n) = Inr n"
    using assms(2,3) by (intro ParseInt_format_int) simp_all
  have s: "sint (word_of_int n :: zap_level) = (n + 128) mod 256 - 128"
    by (simp add: sint_sbintrunc' signed_take_bit_eq_take_bit_shift take_bit_eq_mod)
  have "(n + 128) mod 256 = n + 128" if "- 128 \<le> n" "n < 128"
    using that by simp
  then show ?thesis
    using assms(1) p s by (auto simp: parseLevel_def Let_def levels_sint)
qed

theorem parseLevel_number_witness:
  "\<exists>l. parseLevel (\<lambda>nm. None) (format_int 256) = Some l \<and> sint l = 0"
  using parseLevel_number [of "\<lambda>nm. None" 256] by auto

end
