(* ===== verification/Rest_Client.thy ===== *)
theory Rest_Client
  imports Config_Log Models
begin

text \<open>
  \<open>internal/yunikorn/rest.go\<close>: the client of the scheduler's REST API. The HTTP transport and
  the JSON decoders are parameters. The state counts the response bodies opened and closed and
  has the log, lines of a message with keys and values; a response has the path of its request, its body the
  text or the error of reading it, and the error of closing it.
\<close>

section \<open>Requests\<close>

record http_resp =
  respURLPath :: string
  StatusCode :: int
  bodyRead :: "string result"
  bodyCloseErr :: "goerror option"

record net_state =
  opened :: nat
  closed :: nat
  net_log :: "(string \<times> (string \<times> string) list) list"

record RESTClient =
  protocol :: string
  host :: string
  port :: int

definition NewRESTClient :: "YunikornConfig \<Rightarrow> RESTClient" where
  "NewRESTClient cfg =
     \<lparr>protocol = (if yk_Secure cfg then ''https'' else ''http''), host = yk_Host cfg, port = yk_Port cfg\<rparr>"

definition endpointStream :: string where "endpointStream = ''/ws/v1/events/stream''"
definition endpointPartitions :: string where "endpointPartitions = ''/ws/v1/partitions''"
definition endpointAppsHistory :: string where "endpointAppsHistory = ''/ws/v1/history/apps''"
definition endpointContainersHistory :: string where "endpointContainersHistory = ''/ws/v1/history/containers''"
definition endpointNodeUtil :: string where "endpointNodeUtil = ''/ws/v1/scheduler/node-utilizations''"
definition endpointHealthcheck :: string where "endpointHealthcheck = ''/ws/v1/scheduler/healthcheck''"

definition endpointPartitionNodes :: "string \<Rightarrow> string" where
  "endpointPartitionNodes p = sprintf ''/ws/v1/partition/%s/nodes'' [AText p]"

definition endpointQueues :: "string \<Rightarrow> string" where
  "endpointQueues p = sprintf ''/ws/v1/partition/%s/queues'' [AText p]"

definition endpointApplicationsByPartition :: "string \<Rightarrow> string" where
  "endpointApplicationsByPartition p = sprintf ''/ws/v1/partition/%s/applications/active'' [AText p]"

definition endpointApplicationsByQueue :: "string \<Rightarrow> string \<Rightarrow> string" where
  "endpointApplicationsByQueue p q = sprintf ''/ws/v1/partition/%s/queue/%s/applications'' [AText p, AText q]"

definition endpointApplicationByPartition :: "string \<Rightarrow> string \<Rightarrow> string" where
  "endpointApplicationByPartition p a = sprintf ''/ws/v1/partition/%s/application/%s'' [AText p, AText a]"

definition endpointApplicationByQueue :: "string \<Rightarrow> string \<Rightarrow> string \<Rightarrow> string" where
  "endpointApplicationByQueue p q a =
     sprintf ''/ws/v1/partition/%s/queue/%s/application/%s'' [AText p, AText q, AText a]"

definition url :: "RESTClient \<Rightarrow> string \<Rightarrow> string" where
  "url c endpoint = sprintf ''%s://%s:%d%s'' [AText (protocol c), AText (host c), AInt (port c), AText endpoint]"

type_synonym transport = "string \<Rightarrow> http_resp result"

definition get :: "transport \<Rightarrow> RESTClient \<Rightarrow> string \<Rightarrow> net_state \<Rightarrow> http_resp result \<times> net_state" where
  "get http c endpoint s =
     (case http (url c endpoint) of
        Inl e \<Rightarrow> (Inl e, s)
      | Inr r \<Rightarrow> (Inr r, s\<lparr>opened := Suc (opened s)\<rparr>))"

definition Errorw :: "string \<Rightarrow> (string \<times> string) list \<Rightarrow> net_state \<Rightarrow> net_state" where
  "Errorw msg kvs s = s\<lparr>net_log := net_log s @ [(msg, kvs)]\<rparr>"

definition response_keys :: "http_resp \<Rightarrow> (string \<times> string) list" where
  "response_keys r = [(''endpoint'', respURLPath r), (''statusCode'', format_int (StatusCode r))]"

definition handleNonOKResponse :: "http_resp \<Rightarrow> net_state \<Rightarrow> goerror \<times> net_state" where
  "handleNonOKResponse r s =
     (case bodyRead r of
        Inl e \<Rightarrow> (e, s)
      | Inr b \<Rightarrow> (ErrorText (sprintf ''yunicorn api returned non-OK status code: %d'' [AInt (StatusCode r)]),
                  Errorw ''yunikorn api returned non-OK status code'' (response_keys r @ [(''body'', b)]) s))"

definition unmarshallBody :: "(string \<Rightarrow> 'a result) \<Rightarrow> http_resp \<Rightarrow> net_state \<Rightarrow> 'a result \<times> net_state" where
  "unmarshallBody decode r s =
     (case (case bodyRead r of Inl e \<Rightarrow> Inl e | Inr b \<Rightarrow> decode b) of
        Inl e \<Rightarrow> (Inl e, Errorw ''error unmarshalling response body'' (response_keys r) s)
      | Inr v \<Rightarrow> (Inr v, s))"

definition closeBody :: "http_resp \<Rightarrow> net_state \<Rightarrow> net_state" where
  "closeBody r s =
     (let s1 = s\<lparr>closed := Suc (closed s)\<rparr> in
      case bodyCloseErr r of
        None \<Rightarrow> s1
      | Some e \<Rightarrow> Errorw ''could not close response body'' (response_keys r) s1)"

text \<open>The body of the JSON calls: the deferred \<open>closeBody\<close> runs on every return after the request.\<close>

definition get_json ::
    "(string \<Rightarrow> 'a result) \<Rightarrow> transport \<Rightarrow> RESTClient \<Rightarrow> string \<Rightarrow> net_state \<Rightarrow> 'a result \<times> net_state" where
  "get_json decode http c endpoint s =
     (case get http c endpoint s of
        (Inl e, s1) \<Rightarrow> (Inl e, s1)
      | (Inr r, s1) \<Rightarrow>
          if StatusCode r \<noteq> 200 then
            (case handleNonOKResponse r s1 of (e, s2) \<Rightarrow> (Inl e, closeBody r s2))
          else (case unmarshallBody decode r s1 of (v, s2) \<Rightarrow> (v, closeBody r s2)))"

section \<open>The calls\<close>

text \<open>The decoders of \<open>encoding/json\<close> for the types that the client reads.\<close>

record decoders =
  dec_partitions :: "string \<Rightarrow> PartitionInfo list result"
  dec_queue :: "string \<Rightarrow> PartitionQueueDAOInfo option result"
  dec_apps :: "string \<Rightarrow> ApplicationDAOInfo list result"
  dec_app :: "string \<Rightarrow> ApplicationDAOInfo result"
  dec_nodes :: "string \<Rightarrow> NodeDAOInfo list result"
  dec_util :: "string \<Rightarrow> PartitionNodesUtilDAOInfo list result"
  dec_apps_history :: "string \<Rightarrow> ApplicationHistoryDAOInfo list result"
  dec_containers_history :: "string \<Rightarrow> ContainerHistoryDAOInfo list result"
  dec_health :: "string \<Rightarrow> string result"

definition GetPartitions ::
    "decoders \<Rightarrow> transport \<Rightarrow> RESTClient \<Rightarrow> net_state \<Rightarrow> PartitionInfo list result \<times> net_state" where
  "GetPartitions D http c s = get_json (dec_partitions D) http c endpointPartitions s"

definition GetPartitionQueues ::
    "decoders \<Rightarrow> transport \<Rightarrow> RESTClient \<Rightarrow> string \<Rightarrow> net_state \<Rightarrow> PartitionQueueDAOInfo option result \<times> net_state" where
  "GetPartitionQueues D http c partitionName s = get_json (dec_queue D) http c (endpointQueues partitionName) s"

definition default_partition :: "string \<Rightarrow> string" where
  "default_partition p = (if p = [] then ''default'' else p)"

definition GetApplications ::
    "decoders \<Rightarrow> transport \<Rightarrow> RESTClient \<Rightarrow> string \<Rightarrow> string \<Rightarrow> net_state \<Rightarrow> ApplicationDAOInfo list result \<times> net_state" where
  "GetApplications D http c partitionName queueName s =
     (let p = default_partition partitionName;
          endpoint = (if queueName = [] then endpointApplicationsByPartition p
                      else endpointApplicationsByQueue p queueName)
      in get_json (dec_apps D) http c endpoint s)"

definition GetApplication ::
    "decoders \<Rightarrow> transport \<Rightarrow> RESTClient \<Rightarrow> string \<Rightarrow> string \<Rightarrow> string \<Rightarrow> net_state \<Rightarrow>
     ApplicationDAOInfo option result \<times> net_state" where
  "GetApplication D http c partitionName queueName appID s =
     (let p = default_partition partitionName;
          endpoint = (if queueName \<noteq> [] then endpointApplicationByQueue p queueName appID
                      else endpointApplicationByPartition p appID)
      in case get_json (dec_app D) http c endpoint s of
           (Inl e, s') \<Rightarrow> (Inl e, s') | (Inr app, s') \<Rightarrow> (Inr (Some app), s'))"

definition GetPartitionNodes ::
    "decoders \<Rightarrow> transport \<Rightarrow> RESTClient \<Rightarrow> string \<Rightarrow> net_state \<Rightarrow> NodeDAOInfo list result \<times> net_state" where
  "GetPartitionNodes D http c partitionName s = get_json (dec_nodes D) http c (endpointPartitionNodes partitionName) s"

definition GetNodeUtil ::
    "decoders \<Rightarrow> transport \<Rightarrow> RESTClient \<Rightarrow> net_state \<Rightarrow> PartitionNodesUtilDAOInfo list result \<times> net_state" where
  "GetNodeUtil D http c s = get_json (dec_util D) http c endpointNodeUtil s"

definition GetAppsHistory ::
    "decoders \<Rightarrow> transport \<Rightarrow> RESTClient \<Rightarrow> net_state \<Rightarrow> ApplicationHistoryDAOInfo list result \<times> net_state" where
  "GetAppsHistory D http c s = get_json (dec_apps_history D) http c endpointAppsHistory s"

definition GetContainersHistory_r ::
    "decoders \<Rightarrow> transport \<Rightarrow> RESTClient \<Rightarrow> net_state \<Rightarrow> ContainerHistoryDAOInfo list result \<times> net_state" where
  "GetContainersHistory_r D http c s = get_json (dec_containers_history D) http c endpointContainersHistory s"

definition Healthcheck ::
    "decoders \<Rightarrow> transport \<Rightarrow> RESTClient \<Rightarrow> net_state \<Rightarrow> string result \<times> net_state" where
  "Healthcheck D http c s = get_json (dec_health D) http c endpointHealthcheck s"

text \<open>\<open>GetEventStream\<close> hands the open body to its caller; it does not close it on an error status.\<close>

definition GetEventStream ::
    "transport \<Rightarrow> RESTClient \<Rightarrow> net_state \<Rightarrow> http_resp result \<times> net_state" where
  "GetEventStream http c s =
     (case get http c endpointStream s of
        (Inl e, s1) \<Rightarrow> (Inl e, s1)
      | (Inr r, s1) \<Rightarrow>
          if StatusCode r \<noteq> 200 then (case handleNonOKResponse r s1 of (e, s2) \<Rightarrow> (Inl e, s2))
          else (Inr r, s1))"

section \<open>Facts\<close>

lemma url_eq: "url c e = protocol c @ ''://'' @ host c @ '':'' @ format_int (port c) @ e"
  by (simp add: url_def extra_args_def)

lemma Errorw_counts [simp]: "opened (Errorw m kvs s) = opened s" "closed (Errorw m kvs s) = closed s"
  by (simp_all add: Errorw_def)

lemma handleNonOKResponse_counts:
  "handleNonOKResponse r s = (e, s') \<Longrightarrow> opened s' = opened s \<and> closed s' = closed s"
  by (auto simp: handleNonOKResponse_def split: sum.splits)

lemma unmarshallBody_counts:
  "unmarshallBody decode r s = (v, s') \<Longrightarrow> opened s' = opened s \<and> closed s' = closed s"
  by (auto simp: unmarshallBody_def split: sum.splits)

lemma closeBody_counts [simp]: "opened (closeBody r s) = opened s" "closed (closeBody r s) = Suc (closed s)"
  by (simp_all add: closeBody_def Let_def split: option.split)

text \<open>Every JSON call closes the body it opened.\<close>

lemma get_json_balanced:
  assumes "get_json decode http c e s = (r, s')"
  shows "opened s' + closed s = opened s + closed s'"
proof (cases "http (url c e)")
  case (Inl x)
  with assms show ?thesis by (auto simp: get_json_def get_def)
next
  case (Inr resp)
  let ?s1 = "s\<lparr>opened := Suc (opened s)\<rparr>"
  obtain x s2 where n: "handleNonOKResponse resp ?s1 = (x, s2)" by fastforce
  obtain v s3 where u: "unmarshallBody decode resp ?s1 = (v, s3)" by fastforce
  have "s' = closeBody resp s2 \<or> s' = closeBody resp s3"
    using assms Inr n u by (auto simp: get_json_def get_def split: if_splits)
  then show ?thesis
    using handleNonOKResponse_counts [OF n] unmarshallBody_counts [OF u] by auto
qed

text \<open>The result of a JSON call in terms of the response.\<close>

lemma get_json_result:
  "fst (get_json decode http c e s) =
     (case http (url c e) of
        Inl x \<Rightarrow> Inl x
      | Inr r \<Rightarrow>
          (case bodyRead r of
             Inl x \<Rightarrow> Inl x
           | Inr b \<Rightarrow> if StatusCode r = 200 then decode b
                      else Inl (ErrorText (''yunicorn api returned non-OK status code: '' @ format_int (StatusCode r)))))"
  by (auto simp: get_json_def get_def handleNonOKResponse_def unmarshallBody_def extra_args_def
      split: sum.splits)

section \<open>Properties\<close>

definition balanced :: "(net_state \<Rightarrow> 'a \<times> net_state) \<Rightarrow> bool" where
  "balanced call \<longleftrightarrow> (\<forall>s. opened (snd (call s)) + closed s = opened s + closed (snd (call s)))"

lemma get_json_balanced_call:
  "opened (snd (get_json decode http c e s)) + closed s = opened s + closed (snd (get_json decode http c e s))"
  using get_json_balanced [of decode http c e s] by (metis surjective_pairing)

text \<open>
  C37. Every JSON call closes the response body that it opened, whatever the scheduler answers and on
  every error. \<open>GetEventStream\<close> opens one and closes none: an error status is returned as an error
  with its body still open.
\<close>

theorem rest_calls_close_body:
  "balanced (GetPartitions D http c) \<and> balanced (GetPartitionQueues D http c p) \<and>
   balanced (GetApplications D http c p q) \<and> balanced (GetApplication D http c p q a) \<and>
   balanced (GetPartitionNodes D http c p) \<and> balanced (GetNodeUtil D http c) \<and>
   balanced (GetAppsHistory D http c) \<and> balanced (GetContainersHistory_r D http c) \<and>
   balanced (Healthcheck D http c) \<and>
   (case http (url c endpointStream) of
      Inl e \<Rightarrow> GetEventStream http c s = (Inl e, s)
    | Inr r \<Rightarrow> opened (snd (GetEventStream http c s)) = Suc (opened s) \<and>
        closed (snd (GetEventStream http c s)) = closed s \<and>
        ((\<exists>e. fst (GetEventStream http c s) = Inl e) \<longleftrightarrow> StatusCode r \<noteq> 200))"
proof (intro conjI)
  show "balanced (GetApplication D http c p q a)"
    using get_json_balanced [where decode = "dec_app D" and http = http and c = c]
    by (auto simp: balanced_def GetApplication_def Let_def split: prod.split sum.split)
  show "case http (url c endpointStream) of
      Inl e \<Rightarrow> GetEventStream http c s = (Inl e, s)
    | Inr r \<Rightarrow> opened (snd (GetEventStream http c s)) = Suc (opened s) \<and>
        closed (snd (GetEventStream http c s)) = closed s \<and>
        ((\<exists>e. fst (GetEventStream http c s) = Inl e) \<longleftrightarrow> StatusCode r \<noteq> 200)"
    by (auto simp: GetEventStream_def get_def handleNonOKResponse_def split: sum.split)
qed (simp_all add: balanced_def GetPartitions_def GetPartitionQueues_def GetApplications_def GetPartitionNodes_def
    GetNodeUtil_def GetAppsHistory_def GetContainersHistory_r_def Healthcheck_def Let_def get_json_balanced_call)

end
