(* ===== verification/Health.thy ===== *)
theory Health
  imports Go_Prelude "HOL-Library.Multiset"
begin

text \<open>
  \<open>internal/health\<close>: the status of the components and the aggregated readiness. A component asks the
  scheduler or the database with a context; a call is a function of the time that is left until the deadline
  of its context and returns the time that it took with its answer. The checks run in goroutines that append
  their status under a mutex, so \<open>Readiness\<close> is a function of the order in which they append. The locale
  \<open>component\<close> is the interface \<open>Component\<close>.
\<close>

section \<open>Components\<close>

record ComponentStatus =
  Identifier :: string
  Healthy :: bool
  Error :: string

text \<open>Nanoseconds, and a call under a context with so many left.\<close>

type_synonym nanos = nat
type_synonym 'a ctx_call = "nanos \<Rightarrow> nanos \<times> 'a"

text \<open>
  What the components call, for a client \<open>'cl\<close> and a connection pool \<open>'p\<close>: \<open>Healthcheck(ctx)\<close> of the
  client and \<open>Exec(ctx, sql)\<close> of the pool.
\<close>

record ('cl, 'p) dependencies =
  dep_Healthcheck :: "'cl \<Rightarrow> string result ctx_call"
  dep_Exec :: "'p \<Rightarrow> string \<Rightarrow> goerror option ctx_call"

record 'cl YunikornComponent =
  yc_c :: 'cl

definition NewYunikornComponent :: "'cl \<Rightarrow> 'cl YunikornComponent" where
  "NewYunikornComponent client = \<lparr>yc_c = client\<rparr>"

definition YunikornComponent_Identifier :: "'cl YunikornComponent \<Rightarrow> string" where
  "YunikornComponent_Identifier c = ''yunikorn''"

definition YunikornComponent_Check ::
    "('cl, 'p) dependencies \<Rightarrow> 'cl YunikornComponent \<Rightarrow> ComponentStatus ctx_call" where
  "YunikornComponent_Check deps c ctx =
     (let s = \<lparr>Identifier = YunikornComponent_Identifier c, Healthy = False, Error = []\<rparr> in
      case dep_Healthcheck deps (yc_c c) ctx of
        (t, Inl err) \<Rightarrow> (t, s\<lparr>Error := error_text err\<rparr>)
      | (t, Inr h) \<Rightarrow> (t, s\<lparr>Healthy := True\<rparr>))"

record 'p PostgresComponent =
  pc_pool :: 'p

definition NewPostgresComponent :: "'p \<Rightarrow> 'p PostgresComponent" where
  "NewPostgresComponent pool = \<lparr>pc_pool = pool\<rparr>"

definition PostgresComponent_Identifier :: "'p PostgresComponent \<Rightarrow> string" where
  "PostgresComponent_Identifier c = ''postgres''"

definition PostgresComponent_Check ::
    "('cl, 'p) dependencies \<Rightarrow> 'p PostgresComponent \<Rightarrow> ComponentStatus ctx_call" where
  "PostgresComponent_Check deps c ctx =
     (let s = \<lparr>Identifier = PostgresComponent_Identifier c, Healthy = False, Error = []\<rparr> in
      case dep_Exec deps (pc_pool c) ''SELECT 1'' ctx of
        (t, Some err) \<Rightarrow> (t, s\<lparr>Error := error_text err\<rparr>)
      | (t, None) \<Rightarrow> (t, s\<lparr>Healthy := True\<rparr>))"

text \<open>The interface \<open>Component\<close> with its two implementations; a method call goes to that of the component.\<close>

datatype ('cl, 'p) Component = CYunikorn "'cl YunikornComponent" | CPostgres "'p PostgresComponent"

primrec Component_Identifier :: "('cl, 'p) Component \<Rightarrow> string" where
  "Component_Identifier (CYunikorn c) = YunikornComponent_Identifier c"
| "Component_Identifier (CPostgres c) = PostgresComponent_Identifier c"

primrec Check :: "('cl, 'p) dependencies \<Rightarrow> ('cl, 'p) Component \<Rightarrow> ComponentStatus ctx_call" where
  "Check deps (CYunikorn c) = YunikornComponent_Check deps c"
| "Check deps (CPostgres c) = PostgresComponent_Check deps c"

section \<open>Reports\<close>

record Common =
  Host :: string
  StartedAt :: int
  Uptime :: int
  Version :: string

record LivenessStatus =
  live_Common :: Common
  live_Healthy :: bool

record ReadinessStatus =
  ready_Common :: Common
  ready_Healthy :: bool
  ComponentStatuses :: "ComponentStatus list"

definition NewCommon :: "string \<Rightarrow> int \<Rightarrow> int \<Rightarrow> string \<Rightarrow> Common" where
  "NewCommon hostname now startedAt v =
     \<lparr>Host = hostname, StartedAt = startedAt, Uptime = now - startedAt, Version = v\<rparr>"

record 'c health_Service =
  hs_version :: string
  hs_startedAt :: int
  hs_components :: "'c list"

definition health_New :: "int \<Rightarrow> string \<Rightarrow> 'c list \<Rightarrow> 'c health_Service" where
  "health_New now v components = \<lparr>hs_version = v, hs_startedAt = now, hs_components = components\<rparr>"

definition NewLivenessStatus :: "string \<Rightarrow> int \<Rightarrow> int \<Rightarrow> string \<Rightarrow> LivenessStatus" where
  "NewLivenessStatus hostname now startedAt v =
     \<lparr>live_Common = NewCommon hostname now startedAt v, live_Healthy = True\<rparr>"

definition Liveness :: "string \<Rightarrow> int \<Rightarrow> 'c health_Service \<Rightarrow> LivenessStatus" where
  "Liveness hostname now h = NewLivenessStatus hostname now (hs_startedAt h) (hs_version h)"

text \<open>The loop that breaks at the first unhealthy component.\<close>

primrec all_healthy :: "ComponentStatus list \<Rightarrow> bool \<Rightarrow> bool" where
  "all_healthy [] healthy = healthy"
| "all_healthy (s # ss) healthy = (if \<not> Healthy s then False else all_healthy ss healthy)"

definition NewReadinessStatus :: "string \<Rightarrow> int \<Rightarrow> int \<Rightarrow> string \<Rightarrow> ComponentStatus list \<Rightarrow> ReadinessStatus" where
  "NewReadinessStatus hostname now startedAt v statuses =
     \<lparr>ready_Common = NewCommon hostname now startedAt v, ready_Healthy = all_healthy statuses True,
      ComponentStatuses = statuses\<rparr>"

definition defaultTimeout :: nanos where
  "defaultTimeout = 3 * 1000000000"

text \<open>\<open>context.WithTimeout\<close>: the earlier of the two deadlines; \<open>None\<close> is a context without one.\<close>

definition WithTimeout :: "nanos option \<Rightarrow> nanos \<Rightarrow> nanos" where
  "WithTimeout ctx timeout = (case ctx of None \<Rightarrow> timeout | Some left \<Rightarrow> min left timeout)"

text \<open>
  \<open>order\<close> is the list of the components in the order in which their goroutines append; \<open>wg.Wait()\<close> returns
  after the slowest of them. The result is the time that \<open>Readiness\<close> took, and the report.
\<close>

definition Readiness ::
    "('c \<Rightarrow> ComponentStatus ctx_call) \<Rightarrow> string \<Rightarrow> int \<Rightarrow> 'c list \<Rightarrow> 'c health_Service \<Rightarrow> nanos option \<Rightarrow>
     nanos \<times> ReadinessStatus" where
  "Readiness check hostname now order h parent =
     (let ctx = WithTimeout parent defaultTimeout;
          componentStatuses = foldl (\<lambda>statuses c. statuses @ [snd (check c ctx)]) [] order;
          waited = fold (\<lambda>c t. max t (fst (check c ctx))) order 0
      in (waited, NewReadinessStatus hostname (now + int waited) (hs_startedAt h) (hs_version h) componentStatuses))"

section \<open>The interface\<close>

text \<open>
  What \<open>Readiness\<close> relies on: a status has the identifier of its component, and an error exactly when the
  component did not answer.
\<close>

locale component =
  fixes ident :: "'c \<Rightarrow> string" and check :: "'c \<Rightarrow> ComponentStatus ctx_call" and answers :: "'c \<Rightarrow> nanos \<Rightarrow> bool"
  assumes check_ident: "Identifier (snd (check c ctx)) = ident c"
    and check_healthy: "Healthy (snd (check c ctx)) \<longleftrightarrow> answers c ctx"
begin

lemma all_healthy_iff: "all_healthy (map (\<lambda>c. snd (check c ctx)) cs) h \<longleftrightarrow> h \<and> (\<forall>c \<in> set cs. answers c ctx)"
  by (induction cs) (auto simp: check_healthy)

lemma collect_statuses:
  "foldl (\<lambda>statuses c. statuses @ [snd (check c ctx)]) acc order = acc @ map (\<lambda>c. snd (check c ctx)) order"
  by (induction order arbitrary: acc) simp_all

lemma Readiness_healthy:
  assumes "mset order = mset (hs_components h)"
  shows "ready_Healthy (snd (Readiness check hostname now order h parent)) \<longleftrightarrow>
    (\<forall>c \<in> set (hs_components h). answers c (WithTimeout parent defaultTimeout))"
  using mset_eq_setD [OF assms] by (simp add: Readiness_def Let_def NewReadinessStatus_def collect_statuses all_healthy_iff)

lemma Readiness_identifiers:
  assumes "mset order = mset (hs_components h)"
  shows "image_mset Identifier (mset (ComponentStatuses (snd (Readiness check hostname now order h parent)))) =
    image_mset ident (mset (hs_components h))"
  using assms
  by (simp add: Readiness_def Let_def NewReadinessStatus_def collect_statuses check_ident multiset.map_comp comp_def)

end

primrec component_answers :: "('cl, 'p) dependencies \<Rightarrow> ('cl, 'p) Component \<Rightarrow> nanos \<Rightarrow> bool" where
  "component_answers deps (CYunikorn c) ctx \<longleftrightarrow> (\<exists>h. snd (dep_Healthcheck deps (yc_c c) ctx) = Inr h)"
| "component_answers deps (CPostgres c) ctx \<longleftrightarrow> snd (dep_Exec deps (pc_pool c) ''SELECT 1'' ctx) = None"

interpretation server_component: component Component_Identifier "Check deps" "component_answers deps" for deps
proof
  fix c :: "('a, 'b) Component" and ctx
  show "Identifier (snd (Check deps c ctx)) = Component_Identifier c"
    by (cases c) (simp_all add: YunikornComponent_Check_def PostgresComponent_Check_def Let_def
        split: prod.split sum.split option.split)
  show "Healthy (snd (Check deps c ctx)) \<longleftrightarrow> component_answers deps c ctx"
    by (cases c) (auto simp: YunikornComponent_Check_def PostgresComponent_Check_def Let_def
        split: prod.split sum.split option.split)
qed

section \<open>Deadlines\<close>

text \<open>Calls that return when their context is done, as those of \<open>net/http\<close> and pgx do.\<close>

definition in_time :: "('cl, 'p) dependencies \<Rightarrow> bool" where
  "in_time deps \<longleftrightarrow> (\<forall>c ctx. fst (dep_Healthcheck deps c ctx) \<le> ctx) \<and> (\<forall>p q ctx. fst (dep_Exec deps p q ctx) \<le> ctx)"

lemma Check_in_time: "in_time deps \<Longrightarrow> fst (Check deps c ctx) \<le> ctx"
proof (cases c)
  case (CYunikorn y)
  assume "in_time deps"
  then have "fst (dep_Healthcheck deps (yc_c y) ctx) \<le> ctx" by (simp add: in_time_def)
  then show ?thesis
    by (auto simp: CYunikorn YunikornComponent_Check_def Let_def split: prod.split sum.split)
next
  case (CPostgres p)
  assume "in_time deps"
  then have "fst (dep_Exec deps (pc_pool p) ''SELECT 1'' ctx) \<le> ctx" by (simp add: in_time_def)
  then show ?thesis
    by (auto simp: CPostgres PostgresComponent_Check_def Let_def split: prod.split option.split)
qed

lemma waited_bound: "(\<And>c. t c \<le> n) \<Longrightarrow> m \<le> n \<Longrightarrow> fold (\<lambda>c u. max u (t c)) cs m \<le> (n :: nat)"
  by (induction cs arbitrary: m) simp_all

lemma Readiness_in_time:
  assumes "in_time deps"
  shows "fst (Readiness (Check deps) hostname now order h parent) \<le> defaultTimeout"
proof -
  let ?ctx = "WithTimeout parent defaultTimeout"
  have "?ctx \<le> defaultTimeout" by (simp add: WithTimeout_def split: option.split)
  then have "fst (Check deps c ?ctx) \<le> defaultTimeout" for c
    using Check_in_time [OF assms, of c ?ctx] by linarith
  then show ?thesis by (simp add: Readiness_def Let_def waited_bound)
qed

section \<open>Properties\<close>

text \<open>
  C38. In whatever order the checks finish, the report has one status per component, with its identifier, and
  says ready exactly when the scheduler answered the health request and the database the query within the
  time that is left; when the calls return at the deadline of their context, the report is there after three
  seconds at the latest, however long a component would take.
\<close>

theorem readiness_correct:
  assumes "mset order = mset (hs_components h)"
  shows "(ready_Healthy (snd (Readiness (Check deps) hostname now order h parent)) \<longleftrightarrow>
      (\<forall>c. CYunikorn c \<in> set (hs_components h) \<longrightarrow>
         (\<exists>v. snd (dep_Healthcheck deps (yc_c c) (WithTimeout parent defaultTimeout)) = Inr v)) \<and>
      (\<forall>c. CPostgres c \<in> set (hs_components h) \<longrightarrow>
         snd (dep_Exec deps (pc_pool c) ''SELECT 1'' (WithTimeout parent defaultTimeout)) = None)) \<and>
    image_mset Identifier (mset (ComponentStatuses (snd (Readiness (Check deps) hostname now order h parent)))) =
      image_mset Component_Identifier (mset (hs_components h)) \<and>
    (in_time deps \<longrightarrow> fst (Readiness (Check deps) hostname now order h parent) \<le> 3 * 1000000000)"
proof (intro conjI impI)
  let ?ctx = "WithTimeout parent defaultTimeout"
  have "(\<forall>c \<in> set cs. component_answers deps c ?ctx) \<longleftrightarrow>
      (\<forall>c. CYunikorn c \<in> set cs \<longrightarrow> component_answers deps (CYunikorn c) ?ctx) \<and>
      (\<forall>c. CPostgres c \<in> set cs \<longrightarrow> component_answers deps (CPostgres c) ?ctx)" for cs
    by (metis Component.exhaust)
  then show "ready_Healthy (snd (Readiness (Check deps) hostname now order h parent)) \<longleftrightarrow>
      (\<forall>c. CYunikorn c \<in> set (hs_components h) \<longrightarrow> (\<exists>v. snd (dep_Healthcheck deps (yc_c c) ?ctx) = Inr v)) \<and>
      (\<forall>c. CPostgres c \<in> set (hs_components h) \<longrightarrow> snd (dep_Exec deps (pc_pool c) ''SELECT 1'' ?ctx) = None)"
    unfolding server_component.Readiness_healthy [OF assms] by simp
  show "image_mset Identifier (mset (ComponentStatuses (snd (Readiness (Check deps) hostname now order h parent)))) =
      image_mset Component_Identifier (mset (hs_components h))"
    by (rule server_component.Readiness_identifiers [OF assms])
  show "fst (Readiness (Check deps) hostname now order h parent) \<le> 3 * 1000000000" if "in_time deps"
    using Readiness_in_time [OF that] by (simp add: defaultTimeout_def)
qed

text \<open>A scheduler that answers and a database that does not answer within any time.\<close>

definition demo_dependencies :: "(string, string) dependencies" where
  "demo_dependencies = \<lparr>dep_Healthcheck = (\<lambda>c ctx. (min ctx 5, Inr ''ok'')),
     dep_Exec = (\<lambda>p q ctx. (ctx, Some (ErrorText ''context deadline exceeded'')))\<rparr>"

definition demo_health :: "(string, string) Component health_Service" where
  "demo_health = health_New 1 ''v1'' [CYunikorn (NewYunikornComponent ''c''), CPostgres (NewPostgresComponent ''p'')]"

theorem readiness_correct_witness:
  "\<not> ready_Healthy (snd (Readiness (Check demo_dependencies) ''h'' 9 (rev (hs_components demo_health)) demo_health None)) \<and>
   fst (Readiness (Check demo_dependencies) ''h'' 9 (rev (hs_components demo_health)) demo_health None) \<le> 3 * 1000000000"
proof -
  have "in_time demo_dependencies" by (simp add: in_time_def demo_dependencies_def)
  moreover have "CPostgres (NewPostgresComponent ''p'') \<in> set (hs_components demo_health)"
    by (simp add: demo_health_def health_New_def)
  moreover have "dep_Exec demo_dependencies p q ctx = (ctx, Some (ErrorText ''context deadline exceeded''))" for p q ctx
    by (simp add: demo_dependencies_def)
  ultimately show ?thesis
    using readiness_correct [of "rev (hs_components demo_health)" demo_health demo_dependencies "''h''" 9 None] by force
qed

end
