(* ===== verification/Web_Service.thy ===== *)
theory Web_Service
  imports Repository Event_Repository Health Config_Log
begin

text \<open>
  \<open>internal/webservice\<close>: the query parameters (\<open>helpers.go\<close>), the responses
  (\<open>response.go\<close>, \<open>model.go\<close>), the service and its handlers (\<open>webservice.go\<close>, \<open>routes.go\<close>), which
  call the methods of the \<open>Repository\<close> that the service holds. The headers and the URL's query are functions from names
  to first values; the JSON encoder and the file system are parameters. Routing itself is httprouter's;
  \<open>routes\<close> is the table that \<open>init\<close> registers.
\<close>

section \<open>Query parameters\<close>

record http_request =
  req_Method :: string
  req_Path :: string
  req_Header :: "string \<Rightarrow> string"
  req_Query :: "string \<Rightarrow> string"
  req_Params :: "string \<Rightarrow> string"

definition queryParamSubmissionStartTime :: string where [simp]: "queryParamSubmissionStartTime = ''submissionStartTime''"
definition queryParamSubmissionEndTime :: string where [simp]: "queryParamSubmissionEndTime = ''submissionEndTime''"
definition queryParamGroups :: string where [simp]: "queryParamGroups = ''groups''"
definition queryParamLimit :: string where [simp]: "queryParamLimit = ''limit''"
definition queryParamOffset :: string where [simp]: "queryParamOffset = ''offset''"
definition queryParamUser :: string where [simp]: "queryParamUser = ''user''"

definition getUserQueryParam :: "http_request \<Rightarrow> string" where
  "getUserQueryParam r = req_Query r queryParamUser"

definition getGroupsQueryParam :: "http_request \<Rightarrow> string list" where
  "getGroupsQueryParam r = split_on (CHR '','') (req_Query r queryParamGroups)"

definition toInt :: "string \<Rightarrow> int option result" where
  "toInt numberString =
     (case Atoi numberString of
        Inl e \<Rightarrow> Inl (Errorf_v (''invalid '' @ [CHR 0x27] @ ''offset'' @ [CHR 0x27] @ '' query parameter: '') e)
      | Inr n \<Rightarrow> Inr (Some n))"

definition getOffsetQueryParam :: "http_request \<Rightarrow> int option result" where
  "getOffsetQueryParam r = (if req_Query r queryParamOffset = [] then Inr None else toInt (req_Query r queryParamOffset))"

definition getLimitQueryParam :: "http_request \<Rightarrow> int option result" where
  "getLimitQueryParam r = (if req_Query r queryParamLimit = [] then Inr None else toInt (req_Query r queryParamLimit))"

text \<open>A \<open>time.Time\<close> is its Unix time in milliseconds.\<close>

definition toTime :: "string \<Rightarrow> int option result" where
  "toTime millisString =
     (case ParseInt ''ParseInt'' 64 millisString of
        Inl e \<Rightarrow> Inl (Errorf_v (''invalid '' @ [CHR 0x27] @ ''start'' @ [CHR 0x27] @ '' query parameter: '') e)
      | Inr n \<Rightarrow> Inr (Some n))"

definition getSubmissionStartTimeQueryParam :: "http_request \<Rightarrow> int option result" where
  "getSubmissionStartTimeQueryParam r =
     (if req_Query r queryParamSubmissionStartTime = [] then Inr None else toTime (req_Query r queryParamSubmissionStartTime))"

definition getSubmissionEndTimeQueryParam :: "http_request \<Rightarrow> int option result" where
  "getSubmissionEndTimeQueryParam r =
     (if req_Query r queryParamSubmissionEndTime = [] then Inr None else toTime (req_Query r queryParamSubmissionEndTime))"

definition empty_filters :: ApplicationFilters where
  "empty_filters = \<lparr>SubmissionStartTime = None, SubmissionEndTime = None, FinishedStartTime = None,
     FinishedEndTime = None, filter_User = None, filter_Groups = None, filter_Offset = None, filter_Limit = None\<rparr>"

definition parseApplicationFilters :: "http_request \<Rightarrow> ApplicationFilters result" where
  "parseApplicationFilters r =
     (let user = getUserQueryParam r;
          f0 = (if user \<noteq> [] then empty_filters\<lparr>filter_User := Some user\<rparr> else empty_filters) in
      case getSubmissionStartTimeQueryParam r of
        Inl e \<Rightarrow> Inl e
      | Inr startTime \<Rightarrow>
          (let f1 = (if startTime \<noteq> None then f0\<lparr>SubmissionStartTime := startTime\<rparr> else f0) in
           case getSubmissionEndTimeQueryParam r of
             Inl e \<Rightarrow> Inl e
           | Inr endTime \<Rightarrow>
               (let f2 = (if endTime \<noteq> None then f1\<lparr>SubmissionEndTime := endTime\<rparr> else f1) in
                case getOffsetQueryParam r of
                  Inl e \<Rightarrow> Inl e
                | Inr offset \<Rightarrow>
                    (let f3 = (if offset \<noteq> None then f2\<lparr>filter_Offset := offset\<rparr> else f2) in
                     case getLimitQueryParam r of
                       Inl e \<Rightarrow> Inl e
                     | Inr limit \<Rightarrow>
                         (let f4 = (if limit \<noteq> None then f3\<lparr>filter_Limit := limit\<rparr> else f3);
                              groups = getGroupsQueryParam r
                          in Inr (if length groups > 0 then f4\<lparr>filter_Groups := Some groups\<rparr> else f4))))))"

section \<open>Responses\<close>

record ProblemDetails =
  pd_Type :: string
  pd_Title :: string
  pd_Status :: int
  pd_Detail :: string
  pd_Instance :: string

datatype payload =
    PartitionsJ "PartitionInfo list"
  | QueuesJ "StoredQueue list"
  | AppsJ "AppRow list"
  | NodesJ "NodeDAOInfo list"
  | AppsHistoryJ "ApplicationHistoryDAOInfo list"
  | ContainersHistoryJ "ContainerHistoryDAOInfo list"
  | UtilJ "PartitionNodesUtilDAOInfo list"
  | CountsJ EventTypeCounts
  | LivenessJ LivenessStatus
  | ReadinessJ ReadinessStatus
  | ProblemJ ProblemDetails

text \<open>
  A response: the status (200 when the handler sets none), the content type set, the value encoded, and the
  lines that the handler logs. That the connection takes what is written is assumed.
\<close>

record http_response =
  resp_Status :: int
  resp_ContentType :: "string option"
  resp_Body :: payload
  resp_Log :: "string list"

definition jsonResponse :: "payload \<Rightarrow> http_response" where
  "jsonResponse data = \<lparr>resp_Status = 200, resp_ContentType = None, resp_Body = data, resp_Log = []\<rparr>"

definition problem_response :: "int \<Rightarrow> string \<Rightarrow> http_request \<Rightarrow> goerror \<Rightarrow> http_response" where
  "problem_response status title r err =
     \<lparr>resp_Status = status, resp_ContentType = Some ''application/problem+json'',
      resp_Body = ProblemJ \<lparr>pd_Type = ''about:blank'', pd_Title = title, pd_Status = status,
        pd_Detail = error_text err, pd_Instance = req_Path r\<rparr>,
      resp_Log = [sprintf ''error processing request for %s: %v'' [AText (req_Path r), AText (error_text err)]]\<rparr>"

definition errorResponse :: "http_request \<Rightarrow> goerror \<Rightarrow> http_response" where
  "errorResponse r err = problem_response 500 ''Internal Server Error'' r err"

definition badRequestResponse :: "http_request \<Rightarrow> goerror \<Rightarrow> http_response" where
  "badRequestResponse r err = problem_response 400 ''Bad Request'' r err"

section \<open>The service\<close>

record http_Server =
  server_Addr :: string
  server_ReadTimeout :: duration

record ('s, 'c) WebService =
  ws_server :: http_Server
  ws_repository :: "'s Repository"
  ws_eventRepository :: InMemoryEventRepository
  ws_healthService :: "'c health_Service"
  ws_assetsDir :: string
  ws_corsConfig :: cors_Options

definition NewWebService ::
    "YHSConfig \<Rightarrow> 's Repository \<Rightarrow> InMemoryEventRepository \<Rightarrow> 'c health_Service \<Rightarrow> ('s, 'c) WebService" where
  "NewWebService cfg repo eventRepository healthService =
     \<lparr>ws_server = \<lparr>server_Addr = sprintf '':%d'' [AInt (yhs_Port cfg)], server_ReadTimeout = 30 * second\<rparr>,
      ws_repository = repo, ws_eventRepository = eventRepository, ws_healthService = healthService,
      ws_assetsDir = yhs_AssetsDir cfg, ws_corsConfig = yhs_CORSConfig cfg\<rparr>"

section \<open>Handlers\<close>

text \<open>The end of every handler on the repository.\<close>

definition respond :: "http_request \<Rightarrow> ('a \<Rightarrow> payload) \<Rightarrow> 'a result \<times> 's \<Rightarrow> http_response \<times> 's" where
  "respond r f res = (case res of (Inl e, d) \<Rightarrow> (errorResponse r e, d) | (Inr v, d) \<Rightarrow> (jsonResponse (f v), d))"

definition getPartitions :: "('s, 'c) WebService \<Rightarrow> http_request \<Rightarrow> 's \<Rightarrow> http_response \<times> 's" where
  "getPartitions ws r d = respond r PartitionsJ (m_GetAllPartitions (ws_repository ws) d)"

text \<open>\<open>None\<close>: the recursion over the rows does not end, and no response is written.\<close>

definition getQueuesPerPartition :: "('s, 'c) WebService \<Rightarrow> http_request \<Rightarrow> 's \<Rightarrow> (http_response \<times> 's) option" where
  "getQueuesPerPartition ws r d =
     (case m_GetQueuesPerPartition (ws_repository ws) (req_Params r ''partition_name'') d of
        (Inl e, d') \<Rightarrow> Some (errorResponse r e, d')
      | (Inr None, d') \<Rightarrow> None
      | (Inr (Some qs), d') \<Rightarrow> Some (jsonResponse (QueuesJ qs), d'))"

definition getAppsPerPartitionPerQueue :: "('s, 'c) WebService \<Rightarrow> http_request \<Rightarrow> 's \<Rightarrow> http_response \<times> 's" where
  "getAppsPerPartitionPerQueue ws r d =
     (let pname = req_Params r ''partition_name''; qname = req_Params r ''queue_name'' in
      case parseApplicationFilters r of
        Inl e \<Rightarrow> (badRequestResponse r e, d)
      | Inr filters \<Rightarrow>
          respond r AppsJ (m_GetAppsPerPartitionPerQueue (ws_repository ws) pname qname filters d))"

definition getNodesPerPartition :: "('s, 'c) WebService \<Rightarrow> http_request \<Rightarrow> 's \<Rightarrow> http_response \<times> 's" where
  "getNodesPerPartition ws r d =
     respond r NodesJ (m_GetNodesPerPartition (ws_repository ws) (req_Params r ''partition_name'') d)"

definition getAppsHistory :: "('s, 'c) WebService \<Rightarrow> http_request \<Rightarrow> 's \<Rightarrow> http_response \<times> 's" where
  "getAppsHistory ws r d = respond r AppsHistoryJ (m_GetApplicationsHistory (ws_repository ws) d)"

definition getContainersHistory :: "('s, 'c) WebService \<Rightarrow> http_request \<Rightarrow> 's \<Rightarrow> http_response \<times> 's" where
  "getContainersHistory ws r d = respond r ContainersHistoryJ (m_GetContainersHistory (ws_repository ws) d)"

definition getNodeUtilizations :: "('s, 'c) WebService \<Rightarrow> http_request \<Rightarrow> 's \<Rightarrow> http_response \<times> 's" where
  "getNodeUtilizations ws r d = respond r UtilJ (m_GetNodeUtilizations (ws_repository ws) d)"

definition getEventStatistics :: "('s, 'c) WebService \<Rightarrow> http_request \<Rightarrow> http_response" where
  "getEventStatistics ws r =
     (case Counts (ws_eventRepository ws) of Inl e \<Rightarrow> errorResponse r e | Inr m \<Rightarrow> jsonResponse (CountsJ m))"

definition LivenessHealthcheck :: "string \<Rightarrow> int \<Rightarrow> ('s, 'c) WebService \<Rightarrow> http_response" where
  "LivenessHealthcheck hostname now ws = jsonResponse (LivenessJ (Liveness hostname now (ws_healthService ws)))"

text \<open>The context of a request is that of the service (\<open>enrichRequestContext\<close>), which has no deadline.\<close>

definition ReadinessHealthcheck ::
    "('c \<Rightarrow> ComponentStatus ctx_call) \<Rightarrow> string \<Rightarrow> int \<Rightarrow> 'c list \<Rightarrow> ('s, 'c) WebService \<Rightarrow> http_response" where
  "ReadinessHealthcheck check hostname now order ws =
     jsonResponse (ReadinessJ (snd (Readiness check hostname now order (ws_healthService ws) None)))"

text \<open>
  \<open>serveSPA\<close>: \<open>os.Stat\<close> returns a nil \<open>FileInfo\<close> with every error, so the second operand of the test panics on an
  error that is not about existence (\<open>None\<close>), and the test of the error after it is never reached with one.
\<close>

datatype stat_answer = StatInfo bool | StatNotExist | StatError goerror

datatype spa_answer = ServeIndex string | ServeAsset

definition serveSPA ::
    "(string \<Rightarrow> string \<Rightarrow> string) \<Rightarrow> (string \<Rightarrow> stat_answer) \<Rightarrow> ('s, 'c) WebService \<Rightarrow> http_request \<Rightarrow> spa_answer option" where
  "serveSPA join_path stat ws r =
     (case stat (join_path (ws_assetsDir ws) (req_Path r)) of
        StatNotExist \<Rightarrow> Some (ServeIndex (join_path (ws_assetsDir ws) ''index.html''))
      | StatError e \<Rightarrow> None
      | StatInfo is_dir \<Rightarrow>
          Some (if is_dir then ServeIndex (join_path (ws_assetsDir ws) ''index.html'') else ServeAsset))"

text \<open>The routes of \<open>init\<close>, all for the method \<open>GET\<close>.\<close>

datatype handler =
    H_getPartitions | H_getQueuesPerPartition | H_getAppsPerPartitionPerQueue | H_getNodesPerPartition
  | H_getAppsHistory | H_getContainersHistory | H_getNodeUtilizations | H_getEventStatistics
  | H_Liveness | H_Readiness

definition routes :: "(string \<times> handler) list" where
  "routes =
     [(''/ws/v1/partitions'', H_getPartitions),
      (''/ws/v1/partition/:partition_name/queues'', H_getQueuesPerPartition),
      (''/ws/v1/partition/:partition_name/queue/:queue_name/applications'', H_getAppsPerPartitionPerQueue),
      (''/ws/v1/partition/:partition_name/nodes'', H_getNodesPerPartition),
      (''/ws/v1/history/apps'', H_getAppsHistory),
      (''/ws/v1/history/containers'', H_getContainersHistory),
      (''/ws/v1/scheduler/node-utilizations'', H_getNodeUtilizations),
      (''/ws/v1/event-statistics'', H_getEventStatistics),
      (''/ws/v1/health/liveness'', H_Liveness),
      (''/ws/v1/health/readiness'', H_Readiness)]"

section \<open>Parsing what a client sends\<close>

text \<open>The query with which a client asks for a set of filters.\<close>

definition shown :: "int option \<Rightarrow> string" where
  "shown x = (case x of None \<Rightarrow> [] | Some n \<Rightarrow> format_int n)"

definition filters_query :: "ApplicationFilters \<Rightarrow> string \<Rightarrow> string" where
  "filters_query f nm =
     (if nm = ''user'' then (case filter_User f of None \<Rightarrow> [] | Some u \<Rightarrow> u)
      else if nm = ''submissionStartTime'' then shown (SubmissionStartTime f)
      else if nm = ''submissionEndTime'' then shown (SubmissionEndTime f)
      else if nm = ''limit'' then shown (filter_Limit f)
      else if nm = ''offset'' then shown (filter_Offset f)
      else if nm = ''groups'' then join '','' (slice_list (filter_Groups f))
      else [])"

definition int64_opt :: "int option \<Rightarrow> bool" where
  "int64_opt x \<longleftrightarrow> (case x of None \<Rightarrow> True | Some n \<Rightarrow> - (2 ^ 63) \<le> n \<and> n < 2 ^ 63)"

lemmas queryParams = queryParamSubmissionStartTime_def queryParamSubmissionEndTime_def queryParamGroups_def
  queryParamLimit_def queryParamOffset_def queryParamUser_def

lemma format_int_nonempty [simp]: "format_int n \<noteq> []"
  by (simp add: format_int_def)

lemma Atoi_format_int:
  assumes "int64_opt (Some n)"
  shows "Atoi (format_int n) = Inr n" and "ParseInt ''ParseInt'' 64 (format_int n) = Inr n"
  using assms by (simp_all add: Atoi_def int64_opt_def ParseInt_format_int)

lemma shown_int: "int64_opt x \<Longrightarrow> (if shown x = [] then Inr None else toInt (shown x)) = Inr x"
  by (cases x) (simp_all add: shown_def toInt_def Atoi_format_int)

lemma shown_time: "int64_opt x \<Longrightarrow> (if shown x = [] then Inr None else toTime (shown x)) = Inr x"
  by (cases x) (simp_all add: shown_def toTime_def Atoi_format_int)

text \<open>The filters that the API can express.\<close>

definition api_filters :: "ApplicationFilters \<Rightarrow> bool" where
  "api_filters f \<longleftrightarrow> int64_opt (SubmissionStartTime f) \<and> int64_opt (SubmissionEndTime f) \<and>
     int64_opt (filter_Limit f) \<and> int64_opt (filter_Offset f) \<and>
     FinishedStartTime f = None \<and> FinishedEndTime f = None \<and> filter_User f \<noteq> Some [] \<and>
     (\<exists>gs. filter_Groups f = Some gs \<and> gs \<noteq> [] \<and> (\<forall>g \<in> set gs. CHR '','' \<notin> set g))"

lemma parse_filters_query:
  assumes "api_filters f" and "req_Query r = filters_query f"
  shows "parseApplicationFilters r = Inr f"
proof -
  obtain gs where gs: "filter_Groups f = Some gs" "gs \<noteq> []" "\<forall>g \<in> set gs. CHR '','' \<notin> set g"
    using assms(1) by (auto simp: api_filters_def)
  have q: "req_Query r ''user'' = (case filter_User f of None \<Rightarrow> [] | Some u \<Rightarrow> u)"
      "req_Query r ''groups'' = join '','' gs"
    using assms(2) gs(1) by (simp_all add: filters_query_def slice_list_def)
  have qn: "req_Query r ''submissionStartTime'' = shown (SubmissionStartTime f)"
      "req_Query r ''submissionEndTime'' = shown (SubmissionEndTime f)"
      "req_Query r ''offset'' = shown (filter_Offset f)" "req_Query r ''limit'' = shown (filter_Limit f)"
    using assms(2) by (simp_all add: filters_query_def)
  have nums: "getSubmissionStartTimeQueryParam r = Inr (SubmissionStartTime f)"
      "getSubmissionEndTimeQueryParam r = Inr (SubmissionEndTime f)"
      "getOffsetQueryParam r = Inr (filter_Offset f)" "getLimitQueryParam r = Inr (filter_Limit f)"
    unfolding getSubmissionStartTimeQueryParam_def getSubmissionEndTimeQueryParam_def
      getOffsetQueryParam_def getLimitQueryParam_def queryParams qn
    by (rule shown_time shown_int; use assms(1) in \<open>simp add: api_filters_def\<close>)+
  have groups: "getGroupsQueryParam r = gs"
    using split_on_join [of gs "CHR '',''"] gs(2,3) q(2) by (auto simp: getGroupsQueryParam_def)
  have user: "(if getUserQueryParam r \<noteq> [] then empty_filters\<lparr>filter_User := Some (getUserQueryParam r)\<rparr>
      else empty_filters) = empty_filters\<lparr>filter_User := filter_User f\<rparr>"
    using assms(1) q(1) by (cases "filter_User f") (auto simp: getUserQueryParam_def api_filters_def empty_filters_def)
  have "parseApplicationFilters r = Inr (empty_filters\<lparr>filter_User := filter_User f,
      SubmissionStartTime := SubmissionStartTime f, SubmissionEndTime := SubmissionEndTime f,
      filter_Offset := filter_Offset f, filter_Limit := filter_Limit f, filter_Groups := Some gs\<rparr>)"
    unfolding parseApplicationFilters_def Let_def nums groups user sum.case
    using gs(2) by (cases "SubmissionStartTime f"; cases "SubmissionEndTime f"; cases "filter_Offset f";
        cases "filter_Limit f") (simp_all add: empty_filters_def)
  moreover have "\<dots> = Inr f"
    using assms(1) gs(1) by (cases f) (simp add: empty_filters_def api_filters_def)
  ultimately show ?thesis by simp
qed

section \<open>Properties\<close>

text \<open>
  What a client asks for is what the handler filters by: for filters with numbers of 64 bits and
  groups without commas, the query that states them is parsed back to exactly those filters.
\<close>

theorem parseApplicationFilters_roundtrip:
  assumes "api_filters f" and "req_Query r = filters_query f"
  shows "parseApplicationFilters r = Inr f"
  using parse_filters_query [OF assms] .

definition demo_filters :: ApplicationFilters where
  "demo_filters = empty_filters\<lparr>filter_User := Some ''u'', SubmissionStartTime := Some (- 5),
     filter_Limit := Some 10, filter_Groups := Some [''dev'', ''ops'']\<rparr>"

theorem parseApplicationFilters_roundtrip_witness:
  "parseApplicationFilters \<lparr>req_Method = ''GET'', req_Path = ''/'', req_Header = (\<lambda>_. []), req_Query = filters_query demo_filters, req_Params = (\<lambda>_. [])\<rparr> = Inr demo_filters"
proof -
  have "api_filters demo_filters"
    by (simp add: api_filters_def demo_filters_def empty_filters_def int64_opt_def)
  then show ?thesis by (rule parseApplicationFilters_roundtrip) simp
qed

text \<open>A request whose only parameter is \<open>groups\<close>.\<close>

lemma groups_only_query:
  assumes "req_Query r = (\<lambda>nm. if nm = ''groups'' then g else [])"
  shows "\<exists>f. parseApplicationFilters r = Inr f \<and> filter_Groups f = Some (split_on (CHR '','') g) \<and>
    Query (queue_apps_builder p q f) = ''SELECT * FROM applications WHERE queue_name = $1 AND partition = $2 AND '' @
      ''groups && ARRAY['' @ SliceToCommaSeparated (split_on (CHR '','') g) True @ ''] ORDER BY submission_time DESC''"
proof (intro exI conjI)
  let ?f = "empty_filters\<lparr>filter_Groups := Some (split_on (CHR '','') g)\<rparr>"
  show "parseApplicationFilters r = Inr ?f"
    using assms
    by (simp add: parseApplicationFilters_def getUserQueryParam_def getSubmissionStartTimeQueryParam_def
        getSubmissionEndTimeQueryParam_def getOffsetQueryParam_def getLimitQueryParam_def getGroupsQueryParam_def)
  show "filter_Groups ?f = Some (split_on (CHR '','') g)" by simp
  have n: "format_nat (Suc 0) = ''1''" "format_nat 2 = ''2''" by code_simp+
  show "Query (queue_apps_builder p q ?f) =
      ''SELECT * FROM applications WHERE queue_name = $1 AND partition = $2 AND '' @
      ''groups && ARRAY['' @ SliceToCommaSeparated (split_on (CHR '','') g) True @ ''] ORDER BY submission_time DESC''"
    by (simp add: queue_apps_builder_def applyApplicationFilters_def empty_filters_def when_some_def
        applyLimitAndOffset_def Let_def Conditionf_def Conditionp_def
        condition_def SelectAll_def OrderBy_def NewBuilder_def Query_def extra_args_def format_int_def n slice_list_def)
qed

text \<open>
  A request without any query parameter: splitting the missing \<open>groups\<close> gives one empty group, so
  the query asks for applications of the group with the empty name instead of all applications.
\<close>

theorem missing_groups_filter:
  assumes "req_Query r = (\<lambda>nm. [])"
  shows "\<exists>f. parseApplicationFilters r = Inr f \<and> filter_Groups f = Some [[]] \<and>
    Query (queue_apps_builder p q f) = ''SELECT * FROM applications WHERE queue_name = $1 AND partition = $2 AND '' @
      ''groups && ARRAY['' @ [CHR 0x27, CHR 0x27] @ ''] ORDER BY submission_time DESC''"
  using groups_only_query [of r "[]" p q] assms by (auto simp: SliceToCommaSeparated_def quote_sym_def)

theorem missing_groups_filter_witness:
  "\<exists>f. parseApplicationFilters \<lparr>req_Method = ''GET'', req_Path = ''/'', req_Header = (\<lambda>_. []), req_Query = (\<lambda>nm. []), req_Params = (\<lambda>nm. [])\<rparr> = Inr f \<and>
     filter_Groups f = Some [[]]"
  using missing_groups_filter [of "\<lparr>req_Method = ''GET'', req_Path = ''/'', req_Header = (\<lambda>_. []), req_Query = (\<lambda>nm. []), req_Params = (\<lambda>nm. [])\<rparr>" "[]" "[]"] by auto

end
