(* ===== verification/Postgres_Conn.thy ===== *)
theory Postgres_Conn
  imports Config_Log
begin

text \<open>
  \<open>internal/database/postgres/postgres.go\<close> and \<open>internal/database/migrations/gomigrate.go\<close>:
  the two connection strings and the mapping of the migrator's errors.
  \<open>Duration_String\<close> is the method \<open>String\<close> of \<open>time.Duration\<close>. How pgx reads a connection string is a
  parameter with its documented behaviour (\<open>conninfo_law\<close>); \<open>conninfo\<close> is a reader that has it.
\<close>

section \<open>Printing durations\<close>

definition pad_zeros :: "nat \<Rightarrow> string \<Rightarrow> string" where
  "pad_zeros n s = replicate (n - length s) (CHR ''0'') @ s"

text \<open>The digits of the fraction \<open>u / 10 ^ prec\<close> without trailing zeros, with the point if any.\<close>

definition fmtFrac :: "nat \<Rightarrow> nat \<Rightarrow> string" where
  "fmtFrac prec u =
     (let ds = rev (dropWhile (\<lambda>c. c = CHR ''0'') (rev (pad_zeros prec (format_nat (u mod 10 ^ prec))))) in
      if u mod 10 ^ prec = 0 then [] else CHR ''.'' # ds)"

definition Duration_abs_String :: "nat \<Rightarrow> string" where
  "Duration_abs_String u =
     (if u = 0 then ''0s''
      else if u < 1000 then format_nat u @ ''ns''
      else if u < 1000000 then format_nat (u div 1000) @ fmtFrac 3 u @ [CHR 0xC2, CHR 0xB5, CHR ''s'']
      else if u < 1000000000 then format_nat (u div 1000000) @ fmtFrac 6 u @ ''ms''
      else
        (let secs = u div 1000000000; mins = secs div 60; hours = mins div 60 in
         (if hours > 0 then format_nat hours @ ''h'' else []) @
         (if mins > 0 then format_nat (mins mod 60) @ ''m'' else []) @
         format_nat (secs mod 60) @ fmtFrac 9 u @ ''s''))"

definition Duration_String :: "duration \<Rightarrow> string" where
  "Duration_String d =
     (if sint d < 0 then CHR ''-'' # Duration_abs_String (nat (- sint d)) else Duration_abs_String (nat (sint d)))"

section \<open>Connection strings\<close>

definition BuildConnectionStringFromConfig :: "PostgresConfig \<Rightarrow> string" where
  "BuildConnectionStringFromConfig cfg =
     (let connString = sprintf ''postgres://%s:%s@%s:%d/%s''
            [AText (pg_Username cfg), AText (pg_Password cfg), AText (pg_Host cfg), AInt (pg_Port cfg),
             AText (pg_DbName cfg)];
          params = (if pg_SSLMode cfg \<noteq> [] then [''sslmode='' @ pg_SSLMode cfg] else []) @
                   (if pg_Schema cfg \<noteq> [] then [''search_path='' @ pg_Schema cfg] else [])
      in if params \<noteq> [] then connString @ ''?'' @ join ''&'' params else connString)"

definition conn_quote :: char where
  "conn_quote = CHR 0x27"

definition conn_pair :: "string \<times> string \<Rightarrow> string" where
  "conn_pair p = fst p @ ''='' @ [conn_quote] @ snd p @ [conn_quote]"

definition conn_settings :: "PostgresConfig \<Rightarrow> (string \<times> string) list" where
  "conn_settings cfg =
     [(''host'', pg_Host cfg), (''port'', format_int (pg_Port cfg)), (''user'', pg_Username cfg),
      (''password'', pg_Password cfg), (''dbname'', pg_DbName cfg)] @
     (if pg_PoolMaxConns cfg > 0 then [(''pool_max_conns'', format_int (pg_PoolMaxConns cfg))] else []) @
     (if pg_PoolMinConns cfg > 0 then [(''pool_min_conns'', format_int (pg_PoolMinConns cfg))] else []) @
     (if sint (pg_PoolMaxConnLifetime cfg) > 0
      then [(''pool_max_conn_lifetime'', Duration_String (pg_PoolMaxConnLifetime cfg))] else []) @
     (if sint (pg_PoolMaxConnIdleTime cfg) > 0
      then [(''pool_max_conn_idle_time'', Duration_String (pg_PoolMaxConnIdleTime cfg))] else []) @
     (if pg_SSLMode cfg \<noteq> [] then [(''sslmode'', pg_SSLMode cfg)] else []) @
     (if pg_Schema cfg \<noteq> [] then [(''search_path'', pg_Schema cfg)] else [])"

definition buildConnectionInfoFromConfig :: "PostgresConfig \<Rightarrow> string" where
  "buildConnectionInfoFromConfig cfg = join '' '' (map conn_pair (conn_settings cfg))"

text \<open>\<open>pgxpool_New\<close> makes a pool from a connection string.\<close>

definition NewConnectionPool :: "(string \<Rightarrow> 'p result) \<Rightarrow> PostgresConfig \<Rightarrow> 'p result" where
  "NewConnectionPool pgxpool_New cfg = pgxpool_New (buildConnectionInfoFromConfig cfg)"

section \<open>Reading a connection string\<close>

text \<open>
  The documented format of keyword/value strings: pairs of a keyword and a value in quotes, separated by spaces; a
  value without quotes and backslashes stands for itself. Nothing is said of other texts.
\<close>

definition plain_value :: "string \<Rightarrow> bool" where
  "plain_value v \<longleftrightarrow> conn_quote \<notin> set v \<and> CHR 0x5C \<notin> set v"

definition conninfo_law :: "(string \<Rightarrow> (string \<rightharpoonup> string) option) \<Rightarrow> bool" where
  "conninfo_law parse \<longleftrightarrow>
     (\<forall>ps. ps \<noteq> [] \<and> distinct (map fst ps) \<and>
        (\<forall>(k, v) \<in> set ps. k \<noteq> [] \<and> CHR ''='' \<notin> set k \<and> CHR '' '' \<notin> set k \<and> plain_value v) \<longrightarrow>
        parse (join '' '' (map (\<lambda>(k, v). k @ ''='' @ [CHR 0x27] @ v @ [CHR 0x27]) ps)) = Some (map_of ps))"

text \<open>
  A reader with the law: a keyword up to the sign, a value in quotes in which a backslash takes the next character
  as it is, and a space before the next keyword.
\<close>

fun conn_value :: "string \<Rightarrow> (string \<times> string) option" where
  "conn_value [] = None"
| "conn_value (c # cs) =
     (if c = conn_quote then Some ([], cs)
      else if c = CHR 0x5C then
        (case cs of [] \<Rightarrow> None | d # ds \<Rightarrow> map_option (\<lambda>(v, r). (d # v, r)) (conn_value ds))
      else map_option (\<lambda>(v, r). (c # v, r)) (conn_value cs))"

lemma conn_value_shorter: "conn_value s = Some (v, r) \<Longrightarrow> length r < length s"
  by (induction s arbitrary: v r rule: conn_value.induct) (fastforce split: if_splits list.splits)+

function conninfo :: "string \<Rightarrow> (string \<times> string) list option" where
  "conninfo s =
     (let key = takeWhile (\<lambda>c. c \<noteq> CHR ''='') s; rest = drop (Suc (length key)) s in
      (case rest of
         [] \<Rightarrow> None
       | q # t \<Rightarrow>
           if q \<noteq> conn_quote then None
           else (case conn_value t of
               None \<Rightarrow> None
             | Some (v, r) \<Rightarrow>
                 (case r of
                    [] \<Rightarrow> Some [(key, v)]
                  | b # u \<Rightarrow> if b = CHR '' '' then map_option (Cons (key, v)) (conninfo u) else None))))"
  by pat_completeness auto
termination
proof (relation "measure length", simp)
  fix s key rest q t a v r b u
  assume a: "rest = drop (Suc (length key)) s" "rest = q # t" "conn_value t = Some a" "(v, r) = a" "r = b # u"
  then have "length u < length t" using conn_value_shorter [of t v r] by auto
  moreover have "length t < length s" using a(1,2) by (metis Suc_le_eq length_Cons length_drop diff_le_self)
  ultimately show "(u, s) \<in> measure length" by simp
qed

declare conninfo.simps [simp del]

lemma conn_value_plain: "plain_value v \<Longrightarrow> conn_value (v @ conn_quote # r) = Some (v, r)"
  by (induction v) (auto simp: plain_value_def)

lemma takeWhile_key: "CHR ''='' \<notin> set k \<Longrightarrow> takeWhile (\<lambda>c. c \<noteq> CHR ''='') (k @ CHR ''='' # r) = k"
  by (induction k) auto

lemma conninfo_pairs:
  assumes "ps \<noteq> []" and "list_all (\<lambda>p. CHR ''='' \<notin> set (fst p) \<and> plain_value (snd p)) ps"
  shows "conninfo (join '' '' (map conn_pair ps)) = Some ps"
  using assms
proof (induction ps)
  case Nil
  then show ?case by simp
next
  case (Cons p ps)
  let ?rest = "if ps = [] then [] else CHR '' '' # join '' '' (map conn_pair ps)"
  have s: "join '' '' (map conn_pair (p # ps)) = fst p @ CHR ''='' # conn_quote # snd p @ conn_quote # ?rest"
    by (simp add: conn_pair_def)
  have k: "takeWhile (\<lambda>c. c \<noteq> CHR ''='') (fst p @ CHR ''='' # conn_quote # snd p @ conn_quote # ?rest) = fst p"
    using Cons.prems(2) by (intro takeWhile_key) simp
  have v: "conn_value (snd p @ conn_quote # ?rest) = Some (snd p, ?rest)"
    using Cons.prems(2) by (intro conn_value_plain) simp
  show ?case
    unfolding s by (subst conninfo.simps) (use Cons v in \<open>simp add: k Let_def\<close>)
qed

lemma conn_pair_text: "(\<lambda>(k, v). k @ ''='' @ [CHR 0x27] @ v @ [CHR 0x27]) = conn_pair"
  by (simp add: fun_eq_iff conn_pair_def conn_quote_def split: prod.split)

lemma conninfo_has_law: "conninfo_law (\<lambda>s. map_option map_of (conninfo s))"
  unfolding conninfo_law_def conn_pair_text
proof (intro allI impI)
  fix ps :: "(string \<times> string) list"
  assume a: "ps \<noteq> [] \<and> distinct (map fst ps) \<and>
    (\<forall>(k, v) \<in> set ps. k \<noteq> [] \<and> CHR ''='' \<notin> set k \<and> CHR '' '' \<notin> set k \<and> plain_value v)"
  then have "list_all (\<lambda>p. CHR ''='' \<notin> set (fst p) \<and> plain_value (snd p)) ps" by (auto simp: list_all_iff)
  then show "map_option map_of (conninfo (join '' '' (map conn_pair ps))) = Some (map_of ps)"
    using conninfo_pairs [of ps] a by simp
qed

section \<open>Migrations\<close>

text \<open>The migrator's \<open>Up\<close> and \<open>Down\<close> return an error; \<open>ErrNoChange\<close> is a sentinel of the library.\<close>

definition ErrNoChange :: goerror where
  "ErrNoChange = Sentinel ''no change''"

definition migration_result :: "goerror option \<Rightarrow> bool \<times> goerror option" where
  "migration_result err =
     (case err of
        None \<Rightarrow> (True, None)
      | Some e \<Rightarrow> if errors_Is e ErrNoChange then (False, None) else (False, Some e))"

record 'm GoMigrate =
  migrator :: 'm
  migrationsDir :: string

definition Up :: "('m \<Rightarrow> goerror option \<times> 'm) \<Rightarrow> 'm GoMigrate \<Rightarrow> (bool \<times> goerror option) \<times> 'm GoMigrate" where
  "Up migrator_Up m = (case migrator_Up (migrator m) of (err, m') \<Rightarrow> (migration_result err, m\<lparr>migrator := m'\<rparr>))"

definition Down :: "('m \<Rightarrow> goerror option \<times> 'm) \<Rightarrow> 'm GoMigrate \<Rightarrow> (bool \<times> goerror option) \<times> 'm GoMigrate" where
  "Down migrator_Down m = (case migrator_Down (migrator m) of (err, m') \<Rightarrow> (migration_result err, m\<lparr>migrator := m'\<rparr>))"

definition getMigrator ::
    "(string \<Rightarrow> string \<Rightarrow> 'm result) \<Rightarrow> PostgresConfig \<Rightarrow> string \<Rightarrow> 'm result" where
  "getMigrator migrate_New cfg dir =
     migrate_New (''file://'' @ dir) (BuildConnectionStringFromConfig cfg)"

definition migrations_New ::
    "(string \<Rightarrow> string \<Rightarrow> 'm result) \<Rightarrow> PostgresConfig \<Rightarrow> string \<Rightarrow> 'm GoMigrate result" where
  "migrations_New migrate_New cfg dir =
     (case getMigrator migrate_New cfg dir of
        Inl e \<Rightarrow> Inl e
      | Inr m \<Rightarrow> Inr \<lparr>migrator = m, migrationsDir = dir\<rparr>)"

text \<open>The command \<open>migrate up|down\<close>.\<close>

definition migrateCmd ::
    "(string \<Rightarrow> Config result) \<Rightarrow> (string \<Rightarrow> string \<Rightarrow> 'm result) \<Rightarrow>
     ('m \<Rightarrow> goerror option \<times> 'm) \<Rightarrow> ('m \<Rightarrow> goerror option \<times> 'm) \<Rightarrow> string \<Rightarrow> string \<Rightarrow> string \<Rightarrow>
     goerror option \<times> 'm option" where
  "migrateCmd config_new migrate_New mUp mDown configFile dir arg =
     (case config_new configFile of
        Inl e \<Rightarrow> (Some e, None)
      | Inr cfg \<Rightarrow>
          (case migrations_New migrate_New (cfg_Postgres cfg) dir of
             Inl e \<Rightarrow> (Some e, None)
           | Inr m \<Rightarrow>
               (case (if arg = ''up'' then Up mUp m else Down mDown m) of
                  ((applied, err), m') \<Rightarrow> (err, Some (migrator m')))))"

text \<open>A migrator with nothing to do makes the command succeed, any other error of it is the command's.\<close>

lemma migrateCmd_error:
  assumes "config_new configFile = Inr cfg"
    and "migrate_New (''file://'' @ dir) (BuildConnectionStringFromConfig (cfg_Postgres cfg)) = Inr m"
    and "(if arg = ''up'' then mUp m else mDown m) = (err, m')"
  shows "migrateCmd config_new migrate_New mUp mDown configFile dir arg =
    (if err = None \<or> errors_Is (the err) ErrNoChange then None else err, Some m')"
  using assms
  by (cases err) (auto simp: migrateCmd_def migrations_New_def getMigrator_def Up_def Down_def migration_result_def split: if_splits)

section \<open>Properties\<close>

lemma plain_value_append [simp]: "plain_value (v @ w) \<longleftrightarrow> plain_value v \<and> plain_value w"
  by (auto simp: plain_value_def)

lemma plain_value_Cons [simp]:
  "plain_value (c # w) \<longleftrightarrow> c \<noteq> conn_quote \<and> c \<noteq> CHR 0x5C \<and> plain_value w"
  by (auto simp: plain_value_def)

lemma plain_value_Nil [simp]: "plain_value []"
  by (simp add: plain_value_def)

lemma plain_value_subset: "plain_value v \<Longrightarrow> set w \<subseteq> set v \<Longrightarrow> plain_value w"
  by (auto simp: plain_value_def)

lemma digit_char_plain: "d < 10 \<Longrightarrow> digit_char d \<noteq> conn_quote \<and> digit_char d \<noteq> CHR 0x5C"
proof -
  assume "d < 10"
  then have "of_char (digit_char d) = 48 + d" by (rule of_char_digit_char)
  moreover have "of_char conn_quote = (39 :: nat)" "of_char (CHR 0x5C) = (92 :: nat)"
    by (simp_all add: conn_quote_def)
  ultimately have "(of_char (digit_char d) :: nat) \<noteq> of_char conn_quote"
      "(of_char (digit_char d) :: nat) \<noteq> of_char (CHR 0x5C)"
    using \<open>d < 10\<close> by linarith+
  then show ?thesis by (intro conjI notI) simp_all
qed

lemma format_nat_plain [simp]: "plain_value (format_nat n)"
  using format_nat_digits [of _ n] digit_char_plain unfolding plain_value_def by metis

lemma format_int_plain [simp]: "plain_value (format_int n)"
  by (simp add: format_int_def conn_quote_def)

lemma fmtFrac_plain [simp]: "plain_value (fmtFrac prec u)"
proof -
  have "plain_value (pad_zeros prec (format_nat (u mod 10 ^ prec)))"
    by (simp add: pad_zeros_def) (simp add: plain_value_def conn_quote_def)
  moreover have "set (rev (dropWhile P (rev v))) \<subseteq> set v" for P and v :: string
    using set_dropWhileD by fastforce
  ultimately have "plain_value (rev (dropWhile (\<lambda>c. c = CHR ''0'') (rev (pad_zeros prec (format_nat (u mod 10 ^ prec))))))"
    by (rule plain_value_subset)
  then show ?thesis by (simp add: fmtFrac_def Let_def conn_quote_def)
qed

lemma Duration_String_plain [simp]: "plain_value (Duration_String d)"
  by (simp add: Duration_String_def Duration_abs_String_def Let_def conn_quote_def)

text \<open>
  C40. What pgx reads from the connection string of the pool is the configuration: host, port, user, password and
  database name under their keywords, the pool sizes and lifetimes where they are positive, the SSL mode and the
  search path where they are set, and nothing else, when no text setting has a quote or a backslash.
\<close>

theorem conninfo_roundtrip:
  assumes "conninfo_law parse"
    and "list_all plain_value [pg_Host cfg, pg_Username cfg, pg_Password cfg, pg_DbName cfg, pg_SSLMode cfg, pg_Schema cfg]"
  shows "\<exists>m. parse (buildConnectionInfoFromConfig cfg) = Some m \<and>
    m ''host'' = Some (pg_Host cfg) \<and> m ''port'' = Some (format_int (pg_Port cfg)) \<and>
    m ''user'' = Some (pg_Username cfg) \<and> m ''password'' = Some (pg_Password cfg) \<and> m ''dbname'' = Some (pg_DbName cfg) \<and>
    m ''pool_max_conns'' = (if 0 < pg_PoolMaxConns cfg then Some (format_int (pg_PoolMaxConns cfg)) else None) \<and>
    m ''pool_min_conns'' = (if 0 < pg_PoolMinConns cfg then Some (format_int (pg_PoolMinConns cfg)) else None) \<and>
    m ''pool_max_conn_lifetime'' =
      (if 0 < sint (pg_PoolMaxConnLifetime cfg) then Some (Duration_String (pg_PoolMaxConnLifetime cfg)) else None) \<and>
    m ''pool_max_conn_idle_time'' =
      (if 0 < sint (pg_PoolMaxConnIdleTime cfg) then Some (Duration_String (pg_PoolMaxConnIdleTime cfg)) else None) \<and>
    m ''sslmode'' = (if pg_SSLMode cfg = [] then None else Some (pg_SSLMode cfg)) \<and>
    m ''search_path'' = (if pg_Schema cfg = [] then None else Some (pg_Schema cfg)) \<and>
    dom m \<subseteq> {''host'', ''port'', ''user'', ''password'', ''dbname'', ''pool_max_conns'', ''pool_min_conns'',
      ''pool_max_conn_lifetime'', ''pool_max_conn_idle_time'', ''sslmode'', ''search_path''}"
proof (intro exI conjI)
  let ?m = "map_of (conn_settings cfg)"
  have "distinct (map fst (conn_settings cfg))" "conn_settings cfg \<noteq> []" by (simp_all add: conn_settings_def)
  moreover have "\<forall>(k, v) \<in> set (conn_settings cfg). k \<noteq> [] \<and> CHR ''='' \<notin> set k \<and> CHR '' '' \<notin> set k \<and> plain_value v"
    using assms(2) by (simp add: conn_settings_def) auto
  ultimately show "parse (buildConnectionInfoFromConfig cfg) = Some ?m"
    using assms(1) unfolding conninfo_law_def conn_pair_text buildConnectionInfoFromConfig_def by blast
  show "dom ?m \<subseteq> {''host'', ''port'', ''user'', ''password'', ''dbname'', ''pool_max_conns'', ''pool_min_conns'',
      ''pool_max_conn_lifetime'', ''pool_max_conn_idle_time'', ''sslmode'', ''search_path''}"
    by (auto simp: dom_map_of_conv_image_fst conn_settings_def)
qed (simp_all add: conn_settings_def)

definition demo_pg :: PostgresConfig where
  "demo_pg = \<lparr>pg_Host = ''db'', pg_DbName = ''yhs'', pg_Username = ''u'', pg_Password = ''a b=c'',
     pg_PoolMaxConnLifetime = 90 * second, pg_PoolMaxConnIdleTime = 0, pg_Port = 5432, pg_PoolMaxConns = 4,
     pg_PoolMinConns = 0, pg_SSLMode = ''disable'', pg_Schema = ''''\<rparr>"

theorem conninfo_roundtrip_witness:
  "\<exists>ps. conninfo (buildConnectionInfoFromConfig demo_pg) = Some ps \<and> map_of ps ''user'' = Some ''u'' \<and>
     map_of ps ''password'' = Some ''a b=c'' \<and> map_of ps ''sslmode'' = Some ''disable'' \<and> map_of ps ''search_path'' = None"
proof -
  have "list_all plain_value [pg_Host demo_pg, pg_Username demo_pg, pg_Password demo_pg, pg_DbName demo_pg,
      pg_SSLMode demo_pg, pg_Schema demo_pg]"
    by (simp add: demo_pg_def conn_quote_def)
  from conninfo_roundtrip [OF conninfo_has_law this] show ?thesis by (auto simp: demo_pg_def)
qed

end
