(* ===== verification/Service.thy ===== *)
theory Service
  imports Sync_Storage Event_Stream Rest_Client Web_Service Postgres_Conn
begin

text \<open>
  \<open>internal/yunikorn/service.go\<close> and the wiring of \<open>cmd/.../commands/root.go\<close>: the service's
  construction, the loop that reconnects the event stream, the periodic data sync, and how the
  REST client provides the answers that the event handlers, the sync and the health check use. The event
  loop never ends by itself, so it is a function of the connections it makes.
\<close>

section \<open>The client of the service\<close>

text \<open>The interface \<open>Client\<close>: the calls of the data sync and those of the other parts, as answers of the moment.\<close>

record Client = yk_client +
  GetApplication_c :: app_client
  GetEventStream_c :: "http_resp result"
  Healthcheck_c :: "string result"

text \<open>\<open>var _ Client = &RESTClient{}\<close>: the methods of the REST client.\<close>

definition as_Client :: "decoders \<Rightarrow> transport \<Rightarrow> net_state \<Rightarrow> RESTClient \<Rightarrow> Client" where
  "as_Client D http s c =
     \<lparr>GetPartitions_c = fst (GetPartitions D http c s),
      GetPartitionQueues_c = (\<lambda>p. fst (GetPartitionQueues D http c p s)),
      GetApplications_c = (\<lambda>p q. fst (GetApplications D http c p q s)),
      GetPartitionNodes_c = (\<lambda>p. fst (GetPartitionNodes D http c p s)),
      GetNodeUtil_c = fst (GetNodeUtil D http c s),
      GetAppsHistory_c = fst (GetAppsHistory D http c s),
      GetContainersHistory_c = fst (GetContainersHistory_r D http c s),
      GetApplication_c = (\<lambda>p q a. fst (GetApplication D http c p q a s)),
      GetEventStream_c = fst (GetEventStream http c s),
      Healthcheck_c = fst (Healthcheck D http c s)\<rparr>"

section \<open>Construction\<close>

text \<open>\<open>EventHandler\<close>: what is called for an event, given the scheduler's answers at that time.\<close>

type_synonym 's EventHandler = "app_client \<Rightarrow> EventRecord \<Rightarrow> 's Service_state \<Rightarrow> goerror option \<times> 's Service_state"

record ('s, 'cl) yk_Service =
  svc_repo :: "'s Repository"
  svc_eventRepository :: InMemoryEventRepository
  svc_client :: 'cl
  svc_eventHandler :: "'s EventHandler"
  svc_appMap :: "string \<rightharpoonup> ApplicationDAOInfo option"
  syncInterval :: duration
  svc_workqueue :: "repo_job WorkQueue"

type_synonym ('s, 'cl) service_Option = "('s, 'cl) yk_Service \<Rightarrow> ('s, 'cl) yk_Service"

definition WithSyncInterval :: "duration \<Rightarrow> ('s, 'cl) service_Option" where
  "WithSyncInterval interval s = s\<lparr>syncInterval := interval\<rparr>"

definition NewService ::
    "si_names \<Rightarrow> 's Repository \<Rightarrow> InMemoryEventRepository \<Rightarrow> 'cl \<Rightarrow> ('s, 'cl) service_Option list \<Rightarrow>
     ('s, 'cl) yk_Service" where
  "NewService names repo events client opts = fold (\<lambda>opt s. opt s) opts
     \<lparr>svc_repo = repo, svc_eventRepository = events, svc_client = client,
      svc_eventHandler = (\<lambda>answers. handleEvent names answers (m_UpsertApplications repo)),
      svc_appMap = Map.empty, syncInterval = 5 * (60 * second),
      svc_workqueue = NewWorkQueue [WithName ''yunikorn_data_sync'']\<rparr>"

text \<open>The part of a new service that events change, on the state of its repository.\<close>

definition new_service_state :: "'r \<Rightarrow> 'r Service_state" where
  "new_service_state repo = \<lparr>appMap = Map.empty, svcRepo = repo, svcLog = []\<rparr>"

section \<open>The event collector\<close>

text \<open>One connection: the scheduler's answers during it, and the stream or the error of connecting.\<close>

type_synonym connection = "(nat \<Rightarrow> app_client) \<times> (string \<times> goerror) result"

definition collector_log :: "log_level \<Rightarrow> string \<Rightarrow> 'r Stream_state \<Rightarrow> 'r Stream_state" where
  "collector_log l m s = s\<lparr>service := logMsg l m (service s)\<rparr>"

text \<open>\<open>True\<close>: the loop returned; \<open>False\<close>: it is still running after these connections.\<close>

fun collector_loop ::
    "si_names \<Rightarrow> 'r app_upsert \<Rightarrow> (string \<Rightarrow> EventRecord result) \<Rightarrow> connection list \<Rightarrow> 'r Stream_state \<Rightarrow>
     bool \<times> 'r Stream_state" where
  "collector_loop names upsert unmarshal [] s = (False, s)"
| "collector_loop names upsert unmarshal ((clients, stream) # conns) s =
     (case ProcessEvents names clients upsert unmarshal stream s of
        (Some e, s') \<Rightarrow>
          if errors_Is e context_Canceled then
            (True, collector_log LWarn ''shutting down yunikorn event stream client'' s')
          else collector_loop names upsert unmarshal conns
            (collector_log LInfo ''reconnecting yunikorn event stream client''
              (collector_log LError (''error processing yunikorn events: '' @ error_text e) s'))
      | (None, s') \<Rightarrow> collector_loop names upsert unmarshal conns
          (collector_log LInfo ''reconnecting yunikorn event stream client'' s'))"

definition runEventCollector ::
    "si_names \<Rightarrow> 'r app_upsert \<Rightarrow> (string \<Rightarrow> EventRecord result) \<Rightarrow> connection list \<Rightarrow> 'r Stream_state \<Rightarrow>
     bool \<times> 'r Stream_state" where
  "runEventCollector names upsert unmarshal conns s =
     collector_loop names upsert unmarshal conns
       (collector_log LInfo ''starting yunikorn event stream client'' s)"

section \<open>The data sync loop\<close>

datatype sync_event = Tick | CtxDone
datatype sync_outcome = SyncReturned | SyncRunning | SyncPanic

primrec sync_loop :: "('s \<Rightarrow> 's) \<Rightarrow> sync_event list \<Rightarrow> 's \<Rightarrow> sync_outcome \<times> 's" where
  "sync_loop do_sync [] s = (SyncRunning, s)"
| "sync_loop do_sync (ev # evs) s =
     (case ev of CtxDone \<Rightarrow> (SyncReturned, s) | Tick \<Rightarrow> sync_loop do_sync evs (do_sync s))"

text \<open>
  \<open>runDataSync\<close>; \<open>do_sync\<close> is \<open>sync\<close> with its error logged, and \<open>time.NewTicker\<close> panics when
  the interval is not positive.
\<close>

definition runDataSync :: "duration \<Rightarrow> ('s \<Rightarrow> 's) \<Rightarrow> sync_event list \<Rightarrow> 's \<Rightarrow> sync_outcome \<times> 's" where
  "runDataSync interval do_sync evs s =
     (let s1 = do_sync s in
      if interval = 0 then (SyncReturned, s1)
      else if sint interval \<le> 0 then (SyncPanic, s1)
      else sync_loop do_sync evs s1)"

section \<open>The server\<close>

text \<open>
  What \<open>Run\<close> of \<open>commands/root.go\<close> builds from the configuration before it starts the two actors;
  \<open>new_pool\<close> is \<open>pgxpool.New\<close> on the connection string, \<open>now\<close> and \<open>v\<close> the time and the version.
  \<open>NewPostgresRepository\<close> does not fail; the branch that would panic is \<open>None\<close>.
\<close>

record server =
  srv_pool :: pgpool
  srv_service :: "(db, RESTClient) yk_Service"
  srv_web :: "(db, (RESTClient, pgpool) Component) WebService"

definition server_setup ::
    "si_names \<Rightarrow> (string \<Rightarrow> pgpool result) \<Rightarrow> int \<Rightarrow> string \<Rightarrow> Config \<Rightarrow> server result option" where
  "server_setup names new_pool now v cfg =
     (case NewConnectionPool new_pool (cfg_Postgres cfg) of
        Inl e \<Rightarrow> Some (Inl (Errorf_w ''cannot parse Postgres connection config: '' e))
      | Inr pool \<Rightarrow>
          (case NewPostgresRepository pool of
             Inl e \<Rightarrow> None
           | Inr mainRepository \<Rightarrow>
               (let eventRepository = NewInMemoryEventRepository;
                    client = NewRESTClient (cfg_Yunikorn cfg);
                    service = NewService names (as_Repository mainRepository) eventRepository client
                      [WithSyncInterval (yhs_DataSyncInterval (cfg_YHS cfg))];
                    healthService = health_New now v
                      [CYunikorn (NewYunikornComponent client), CPostgres (NewPostgresComponent pool)];
                    ws = NewWebService (cfg_YHS cfg) (as_Repository mainRepository) eventRepository healthService
                in Some (Inr \<lparr>srv_pool = pool, srv_service = service, srv_web = ws\<rparr>))))"

text \<open>
  What the checks of the server call: the REST client under a context, whose transport is a function of the
  time that is left, and \<open>Exec\<close> of the pool.
\<close>

definition server_dependencies ::
    "decoders \<Rightarrow> (nanos \<Rightarrow> nanos \<times> transport) \<Rightarrow> net_state \<Rightarrow> (pgpool \<Rightarrow> string \<Rightarrow> goerror option ctx_call) \<Rightarrow>
     (RESTClient, pgpool) dependencies" where
  "server_dependencies D net s exec =
     \<lparr>dep_Healthcheck = (\<lambda>c ctx. (fst (net ctx), Healthcheck_c (as_Client D (snd (net ctx)) s c))), dep_Exec = exec\<rparr>"

section \<open>Facts\<close>

text \<open>A connection whose context is cancelled: connecting or reading fails with that error.\<close>

definition cancelled_connection :: "connection \<Rightarrow> bool" where
  "cancelled_connection conn \<longleftrightarrow>
     (case snd conn of Inl e \<Rightarrow> errors_Is e context_Canceled
      | Inr (body, e) \<Rightarrow> body = [] \<and> errors_Is e context_Canceled)"

lemma context_Canceled_not_EOF: "errors_Is e context_Canceled \<Longrightarrow> \<not> errors_Is e io_EOF"
  by (induction e) (auto simp: context_Canceled_def io_EOF_def)

lemma ProcessEvents_cancelled:
  assumes "cancelled_connection (clients, stream)"
  shows "\<exists>e. ProcessEvents names clients upsert unmarshal stream s = (Some e, s) \<and> errors_Is e context_Canceled"
proof (cases stream)
  case (Inl e)
  with assms show ?thesis by (auto simp: ProcessEvents_def cancelled_connection_def)
next
  case (Inr p)
  obtain body e where p: "p = (body, e)" by fastforce
  with assms Inr have b: "body = []" "errors_Is e context_Canceled" by (auto simp: cancelled_connection_def)
  then show ?thesis
    using Inr p context_Canceled_not_EOF [OF b(2)]
    by (simp add: ProcessEvents_def stream_loop.simps [of _ _ _ _ _ _ "[]"] ReadBytes_def)
qed

lemma collector_stops:
  assumes "cancelled_connection conn"
  shows "fst (collector_loop names upsert unmarshal (pre @ conn # post) s) = True"
proof (induction pre arbitrary: s)
  case Nil
  obtain clients stream where c: "conn = (clients, stream)" by fastforce
  from ProcessEvents_cancelled [of clients stream names upsert unmarshal s] assms c show ?case by auto
next
  case (Cons x pre)
  obtain clients stream where x: "x = (clients, stream)" by fastforce
  obtain r s' where "ProcessEvents names clients upsert unmarshal stream s = (r, s')" by fastforce
  with Cons.IH show ?case by (cases r) (simp_all add: x)
qed

lemma collector_only_cancelled:
  assumes "fst (collector_loop names upsert unmarshal conns s)"
  shows "\<exists>pre clients stream post s1 e. conns = pre @ (clients, stream) # post \<and>
    fst (ProcessEvents names clients upsert unmarshal stream s1) = Some e \<and> errors_Is e context_Canceled"
  using assms
proof (induction conns arbitrary: s)
  case Nil
  then show ?case by simp
next
  case (Cons x conns)
  obtain clients stream where x: "x = (clients, stream)" by fastforce
  obtain r s' where p: "ProcessEvents names clients upsert unmarshal stream s = (r, s')" by fastforce
  show ?case
  proof (cases "\<exists>e. r = Some e \<and> errors_Is e context_Canceled")
    case True
    with p x show ?thesis by (metis append_Nil fst_conv)
  next
    case False
    then obtain s2 where "fst (collector_loop names upsert unmarshal conns s2)"
      using Cons.prems p x by (cases r) (auto split: if_splits)
    from Cons.IH [OF this] x show ?thesis by (metis append_Cons)
  qed
qed

lemma sync_loop_ticks:
  "sync_loop do_sync (replicate n Tick @ CtxDone # evs) s = (SyncReturned, (do_sync ^^ n) s)"
  by (induction n arbitrary: s) (simp_all add: funpow_swap1)

section \<open>Properties\<close>

text \<open>
  C34. The event collector reconnects until its context is cancelled: it returns at the latest with a
  connection whose context is cancelled, whatever the earlier connections did, and it returns only
  when processing a connection ended with the error of a cancelled context.
\<close>

theorem collector_returns_when_cancelled:
  "(cancelled_connection conn \<longrightarrow> fst (runEventCollector names upsert unmarshal (pre @ conn # post) s)) \<and>
   (fst (runEventCollector names upsert unmarshal conns s) \<longrightarrow>
     (\<exists>pre clients stream post s1 e. conns = pre @ (clients, stream) # post \<and>
        fst (ProcessEvents names clients upsert unmarshal stream s1) = Some e \<and> errors_Is e context_Canceled))"
  using collector_stops [of conn names upsert unmarshal pre post] collector_only_cancelled [of names upsert unmarshal conns]
  by (simp add: runEventCollector_def)

theorem collector_returns_when_cancelled_witness:
  "fst (runEventCollector demo_names (\<lambda>as r. (None, r @ as)) (\<lambda>l. Inl io_EOF)
     [(\<lambda>n p q i. Inr None, Inl io_EOF), (\<lambda>n p q i. Inr None, Inr ([], context_Canceled))]
     \<lparr>service = new_service_state [], eventRepository = NewInMemoryEventRepository\<rparr>)"
  using collector_returns_when_cancelled [of "(\<lambda>n p q i. Inr None, Inr ([], context_Canceled))" demo_names
      "\<lambda>as r. (None, r @ as)" "\<lambda>l. Inl io_EOF" "[(\<lambda>n p q i. Inr None, Inl io_EOF)]" "[]"]
  by (simp add: cancelled_connection_def context_Canceled_def)

end
