(* ===== verification/Contexts.thy ===== *)
theory Contexts
  imports Service
begin

text \<open>
  The contexts that the server threads through its calls: the logger they carry
  (\<open>internal/log/logger.go\<close>) and their cancellation. \<open>go_context\<close> is the chain that
  \<open>context.WithValue\<close> and \<open>context.WithCancel\<close> build; a chain is done when one of its cancel functions
  was called. zap is a parameter: how a logger is made from an encoder and a level, how fields are added to
  it, and the logger of \<open>zap.S\<close>.
\<close>

section \<open>Contexts of the standard library\<close>

datatype ctx_key = loggerKey | ForeignKey string
datatype 'l ctx_value = LoggerValue 'l | ForeignValue string

datatype 'l go_context =
    Background
  | WithValue "'l go_context" ctx_key "'l ctx_value"
  | WithCancel "'l go_context" nat

primrec ctx_Value :: "'l go_context \<Rightarrow> ctx_key \<Rightarrow> 'l ctx_value option" where
  "ctx_Value Background k = None"
| "ctx_Value (WithValue ctx k' v) k = (if k = k' then Some v else ctx_Value ctx k)"
| "ctx_Value (WithCancel ctx c) k = ctx_Value ctx k"

text \<open>\<open>C\<close>: the cancel functions that were called.\<close>

primrec ctx_Done :: "nat set \<Rightarrow> 'l go_context \<Rightarrow> bool" where
  "ctx_Done C Background \<longleftrightarrow> False"
| "ctx_Done C (WithValue ctx k v) \<longleftrightarrow> ctx_Done C ctx"
| "ctx_Done C (WithCancel ctx c) \<longleftrightarrow> c \<in> C \<or> ctx_Done C ctx"

section \<open>The logger\<close>

datatype log_encoder = ConsoleEncoder | JSONEncoder

record 'l zap =
  zap_New :: "log_encoder \<Rightarrow> zap_level option \<Rightarrow> 'l"
  zap_With :: "'l \<Rightarrow> string \<Rightarrow> string \<Rightarrow> 'l"
  zap_S :: 'l
  zap_ParseLevel :: "string \<Rightarrow> zap_level option"

definition ToContext :: "'l go_context \<Rightarrow> 'l \<Rightarrow> 'l go_context" where
  "ToContext ctx logger = WithValue ctx loggerKey (LoggerValue logger)"

text \<open>\<open>Logger\<close> is the package's variable, \<open>None\<close> before \<open>Init\<close>.\<close>

definition FromContext :: "'l zap \<Rightarrow> 'l option \<Rightarrow> 'l go_context \<Rightarrow> 'l" where
  "FromContext z Logger ctx =
     (case ctx_Value ctx loggerKey of
        Some (LoggerValue logger) \<Rightarrow> logger
      | _ \<Rightarrow> (case Logger of None \<Rightarrow> zap_S z | Some logger \<Rightarrow> logger))"

definition initialise :: "'l zap \<Rightarrow> LogConfig \<Rightarrow> 'l option" where
  "initialise z config =
     (let encoder = (if log_JSONFormat config then JSONEncoder else ConsoleEncoder)
      in Some (zap_New z encoder (parseLevel (zap_ParseLevel z) (log_LogLevel config))))"

text \<open>\<open>Init\<close> returns the variable it has set.\<close>

definition Init :: "'l zap \<Rightarrow> LogConfig \<Rightarrow> 'l option \<times> 'l option" where
  "Init z config = (let Logger = initialise z config in (Logger, Logger))"

section \<open>Who gets which context\<close>

text \<open>The first lines of every component: the logger of the context with a field, put back into it.\<close>

definition component_context :: "'l zap \<Rightarrow> 'l option \<Rightarrow> string \<Rightarrow> 'l go_context \<Rightarrow> 'l go_context" where
  "component_context z Logger name ctx = ToContext ctx (zap_With z (FromContext z Logger ctx) ''component'' name)"

definition collector_context :: "'l zap \<Rightarrow> 'l option \<Rightarrow> 'l go_context \<Rightarrow> 'l go_context" where
  "collector_context z Logger ctx = component_context z Logger ''yunikorn_event_collector'' ctx"

definition sync_context :: "'l zap \<Rightarrow> 'l option \<Rightarrow> 'l go_context \<Rightarrow> 'l go_context" where
  "sync_context z Logger ctx = component_context z Logger ''yunikorn_data_sync'' ctx"

text \<open>The context of the loop of \<open>WorkQueue.Run\<close>, with its cancel function \<open>c\<close>.\<close>

definition queue_context :: "'l zap \<Rightarrow> 'l option \<Rightarrow> nat \<Rightarrow> 'j WorkQueue \<Rightarrow> 'l go_context \<Rightarrow> 'l go_context" where
  "queue_context z Logger c w ctx =
     (let l1 = zap_With z (FromContext z Logger ctx) ''component'' ''workqueue'';
          l2 = (if wq_name w \<noteq> [] then zap_With z l1 ''workqueue'' (wq_name w) else l1)
      in WithCancel (ToContext ctx l2) c)"

text \<open>The context of the jobs, with its cancel function, which \<open>Run\<close> defers; and the logger of a job.\<close>

definition job_context :: "nat \<Rightarrow> 'l go_context" where
  "job_context jc = WithCancel Background jc"

definition job_logger :: "'l zap \<Rightarrow> 'l option \<Rightarrow> 'l go_context \<Rightarrow> string \<Rightarrow> string \<Rightarrow> 'l" where
  "job_logger z Logger ctx jobId jobName =
     (let l1 = zap_With z (FromContext z Logger ctx) ''jobId'' jobId
      in if jobName \<noteq> [] then zap_With z l1 ''jobName'' jobName else l1)"

text \<open>A request with its context; \<open>rid\<close> is the identifier that \<open>uuid.New\<close> draws.\<close>

record 'l ctx_request = http_request +
  req_Context :: "'l go_context"

definition enrichRequestContext :: "'l zap \<Rightarrow> 'l option \<Rightarrow> 'l go_context \<Rightarrow> string \<Rightarrow> 'l ctx_request \<Rightarrow> 'l ctx_request" where
  "enrichRequestContext z Logger ctx rid r =
     (let logger = zap_With z (FromContext z Logger ctx) ''request_id'' rid
      in r\<lparr>req_Context := ToContext ctx logger\<rparr>)"

text \<open>
  \<open>Start\<close>: \<open>init\<close> registers the routes, each of which enriches the request with the context of the web
  service before it calls its handler; then \<open>ListenAndServe\<close> serves until it fails.
\<close>

definition handled_request :: "'l zap \<Rightarrow> 'l option \<Rightarrow> 'l go_context \<Rightarrow> string \<Rightarrow> 'l ctx_request \<Rightarrow> 'l ctx_request" where
  "handled_request z Logger ctx rid r =
     enrichRequestContext z Logger (component_context z Logger ''webservice'' ctx) rid r"

text \<open>
  \<open>Run\<close> of \<open>commands/root.go\<close>: the logger is initialised, the context is the one that signals cancel
  (cancel function 0), and the context that \<open>log.ToContext\<close> returns is dropped.
\<close>

definition root_context :: "'l go_context" where
  "root_context = WithCancel Background 0"

section \<open>Facts\<close>

lemma FromContext_ToContext [simp]: "FromContext z Logger (ToContext ctx l) = l"
  by (simp add: FromContext_def ToContext_def)

lemma FromContext_WithCancel [simp]: "FromContext z Logger (WithCancel ctx c) = FromContext z Logger ctx"
  by (simp add: FromContext_def)

lemma FromContext_Background [simp]: "FromContext z (Some l) Background = l"
  by (simp add: FromContext_def)

lemma ctx_Done_ToContext [simp]: "ctx_Done C (ToContext ctx l) = ctx_Done C ctx"
  by (simp add: ToContext_def)

lemma ctx_Done_component [simp]: "ctx_Done C (component_context z Logger name ctx) = ctx_Done C ctx"
  by (simp add: component_context_def)

lemmas context_defs = collector_context_def sync_context_def queue_context_def job_context_def job_logger_def
  handled_request_def enrichRequestContext_def component_context_def root_context_def

section \<open>Properties\<close>

text \<open>
  Cancellation in the running server, with \<open>C\<close> the cancel functions called so far, 0 that of the
  signals, \<open>c\<close> that of the work queue and \<open>jc\<close> that of its jobs: a signal stops the collector, the sync and
  the loop of the work queue and reaches every request in flight; a job is stopped only when the loop of the
  work queue has returned. The context of a request is that of the server whatever context it came with, so
  a client that goes away does not stop its query.
\<close>

theorem server_cancellation:
  "ctx_Done C (collector_context z Logger root_context) = (0 \<in> C) \<and>
   ctx_Done C (sync_context z Logger root_context) = (0 \<in> C) \<and>
   ctx_Done C (queue_context z Logger c w root_context) = (c \<in> C \<or> 0 \<in> C) \<and>
   ctx_Done C (job_context jc) = (jc \<in> C) \<and>
   ctx_Done C (req_Context (handled_request z Logger root_context rid r)) = (0 \<in> C)"
  by (simp add: context_defs Let_def)

text \<open>
  The loggers, once \<open>Init\<close> has set the package's variable: a request logs with the fields of the web
  service and its identifier, the loop of the work queue with its name; a job logs with its identifier and
  without the fields of the work queue, because its context does not come from the queue's.
\<close>

theorem server_loggers:
  assumes "Init z config = (Logger, res)"
  shows "\<exists>l. Logger = Some l \<and> res = Some l \<and>
    FromContext z Logger (req_Context (handled_request z Logger root_context rid r)) =
      zap_With z (zap_With z l ''component'' ''webservice'') ''request_id'' rid \<and>
    FromContext z Logger (queue_context z Logger c (NewWorkQueue [WithName n]) root_context) =
      (let q = zap_With z l ''component'' ''workqueue'' in if n = [] then q else zap_With z q ''workqueue'' n) \<and>
    job_logger z Logger (job_context jc) jobId [] = zap_With z l ''jobId'' jobId"
proof -
  obtain l where l: "Logger = Some l" "res = Some l" using assms by (auto simp: Init_def initialise_def Let_def)
  then show ?thesis by (simp add: context_defs NewWorkQueue_def WithName_def Let_def)
qed

end
