(* ===== verification/App_Queries.thy ===== *)
theory App_Queries
  imports Web_Service
begin

text \<open>
  What the queries of \<open>application.go\<close> mean. \<open>read_select\<close> reads the part of SQL that the query builder
  writes for the table \<open>applications\<close>: words separated by spaces outside of quotes, conditions that compare
  a column with a placeholder or test whether an array overlaps with a list of literals, the order, the
  limit and the offset. A database \<open>run_sql\<close> that \<open>answers_sql\<close> returns the rows that a text asks for;
  which of the orders of rows with the same submission time it chooses is left open.
\<close>

section \<open>Words\<close>

fun sql_words :: "bool \<Rightarrow> string \<Rightarrow> string list" where
  "sql_words quoted [] = [[]]"
| "sql_words quoted (c # cs) =
     (if c = CHR '' '' \<and> \<not> quoted then [] # sql_words False cs
      else (case sql_words (if c = quote_sym then \<not> quoted else quoted) cs of
          [] \<Rightarrow> [[c]]
        | w # ws \<Rightarrow> (c # w) # ws))"

text \<open>A word: no space outside of quotes, and all quotes closed.\<close>

fun sql_word :: "bool \<Rightarrow> string \<Rightarrow> bool" where
  "sql_word quoted [] \<longleftrightarrow> \<not> quoted"
| "sql_word quoted (c # cs) \<longleftrightarrow>
     (quoted \<or> c \<noteq> CHR '' '') \<and> sql_word (if c = quote_sym then \<not> quoted else quoted) cs"

section \<open>Select statements\<close>

datatype sql_cond = Compare string string int | Overlap string "string list"

record sql_select =
  sel_conds :: "sql_cond list"
  sel_desc :: bool
  sel_limit :: "int option"
  sel_offset :: "int option"

definition sql_number :: "string \<Rightarrow> int option" where
  "sql_number w = (case ParseInt ''ParseInt'' 64 w of Inl e \<Rightarrow> None | Inr n \<Rightarrow> if n < 0 then None else Some n)"

definition sql_columns :: "string list" where
  "sql_columns = [''submission_time'', ''finished_time'', ''queue_name'', ''partition'', ''\"user\"'', ''groups'']"

definition read_cond :: "string \<Rightarrow> string \<Rightarrow> string \<Rightarrow> sql_cond option" where
  "read_cond col op x =
     (if col \<notin> set sql_columns then None
      else if op = ''&&'' then
        (if take 6 x = ''ARRAY['' \<and> drop (length x - 1) x = '']''
         then map_option (Overlap col) (sql_literals (drop 6 (butlast x))) else None)
      else if op \<in> {''='', ''>='', ''<=''} \<and> take 1 x = ''$'' then map_option (Compare col op) (sql_number (drop 1 x))
      else None)"

fun read_conds :: "string list \<Rightarrow> (sql_cond list \<times> string list) option" where
  "read_conds (col # op # x # ws) =
     (case read_cond col op x of
        None \<Rightarrow> None
      | Some c \<Rightarrow>
          if ws \<noteq> [] \<and> hd ws = ''AND'' then map_option (\<lambda>(cs, r). (c # cs, r)) (read_conds (tl ws))
          else Some ([c], ws))"
| "read_conds ws = None"

definition read_where :: "string list \<Rightarrow> (sql_cond list \<times> string list) option" where
  "read_where ws = (if ws \<noteq> [] \<and> hd ws = ''WHERE'' then read_conds (tl ws) else Some ([], ws))"

text \<open>An optional clause of a keyword and a number.\<close>

definition read_count :: "string \<Rightarrow> string list \<Rightarrow> (int option \<times> string list) option" where
  "read_count kw ws =
     (case ws of
        k # n # r \<Rightarrow> if k = kw then map_option (\<lambda>i. (Some i, r)) (sql_number n) else Some (None, ws)
      | _ \<Rightarrow> Some (None, ws))"

text \<open>The clauses after the table, whose name or alias may stand before the column.\<close>

definition read_order :: "string \<Rightarrow> string list \<Rightarrow> (bool \<times> string list) option" where
  "read_order alias ws =
     (case ws of
        o1 # by # col # dir # r \<Rightarrow>
          if o1 = ''ORDER'' \<and> by = ''BY'' \<and> col \<in> {''submission_time'', alias @ ''.submission_time''} \<and> dir \<in> {''ASC'', ''DESC''}
          then Some (dir = ''DESC'', r) else None
      | _ \<Rightarrow> None)"

definition read_clauses :: "string \<Rightarrow> string list \<Rightarrow> sql_select option" where
  "read_clauses alias ws =
     (case read_where ws of
        None \<Rightarrow> None
      | Some (cs, ws1) \<Rightarrow>
          (case read_order alias ws1 of
             None \<Rightarrow> None
           | Some (desc, ws2) \<Rightarrow>
               (case read_count ''LIMIT'' ws2 of
                  None \<Rightarrow> None
                | Some (l, ws3) \<Rightarrow>
                    (case read_count ''OFFSET'' ws3 of
                       Some (off, []) \<Rightarrow> Some \<lparr>sel_conds = cs, sel_desc = desc, sel_limit = l, sel_offset = off\<rparr>
                     | _ \<Rightarrow> None))))"

definition read_words :: "string list \<Rightarrow> sql_select option" where
  "read_words ws =
     (if take 4 ws \<noteq> [''SELECT'', ''*'', ''FROM'', ''applications''] then None
      else (case drop 4 ws of
          kw # alias # r \<Rightarrow> if kw = ''AS'' then read_clauses alias r else read_clauses ''applications'' (drop 4 ws)
        | r \<Rightarrow> read_clauses ''applications'' r))"

definition read_select :: "string \<Rightarrow> sql_select option" where
  "read_select text = read_words (sql_words False text)"

section \<open>What a select statement returns\<close>

datatype sql_value = IntValue int | TextValue string | ArrayValue "string list"

text \<open>The value of a column in a row, \<open>None\<close> for \<open>NULL\<close>.\<close>

definition column_value :: "string \<Rightarrow> AppRow \<Rightarrow> sql_value option" where
  "column_value col r =
     (let a = ar_info r in
      if col = ''submission_time'' then Some (IntValue (app_SubmissionTime a))
      else if col = ''finished_time'' then map_option IntValue (app_FinishedTime a)
      else if col = ''queue_name'' then Some (TextValue (app_QueueName a))
      else if col = ''partition'' then Some (TextValue (app_Partition a))
      else if col = ''\"user\"'' then Some (TextValue (app_User a))
      else if col = ''groups'' then map_option ArrayValue (app_Groups a)
      else None)"

text \<open>A comparison with \<open>NULL\<close> is not true.\<close>

definition compare_value :: "string \<Rightarrow> sql_value option \<Rightarrow> goarg \<Rightarrow> bool" where
  "compare_value op v arg =
     (case (v, arg) of
        (Some (IntValue a), AInt b) \<Rightarrow>
          if op = ''='' then a = b else if op = ''>='' then a \<ge> b else if op = ''<='' then a \<le> b else False
      | (Some (TextValue a), AText b) \<Rightarrow> op = ''='' \<and> a = b
      | _ \<Rightarrow> False)"

definition overlaps :: "sql_value option \<Rightarrow> string list \<Rightarrow> bool" where
  "overlaps v gs = (case v of Some (ArrayValue xs) \<Rightarrow> list_ex (\<lambda>x. x \<in> set gs) xs | _ \<Rightarrow> False)"

fun sql_holds :: "goarg list \<Rightarrow> AppRow \<Rightarrow> sql_cond \<Rightarrow> bool" where
  "sql_holds args r (Compare col op n) \<longleftrightarrow>
     0 < n \<and> nat n \<le> length args \<and> compare_value op (column_value col r) (args ! (nat n - 1))"
| "sql_holds args r (Overlap col gs) \<longleftrightarrow> overlaps (column_value col r) gs"

definition page :: "int option \<Rightarrow> int option \<Rightarrow> 'a list \<Rightarrow> 'a list" where
  "page limit offset xs =
     (let ys = (case offset of None \<Rightarrow> xs | Some n \<Rightarrow> drop (nat n) xs) in
      case limit of None \<Rightarrow> ys | Some n \<Rightarrow> take (nat n) ys)"

definition row_time :: "AppRow \<Rightarrow> int" where
  "row_time r = app_SubmissionTime (ar_info r)"

definition ordered_rows :: "bool \<Rightarrow> AppRow list \<Rightarrow> bool" where
  "ordered_rows desc rs = sorted_wrt (\<lambda>a b. if desc then row_time b \<le> row_time a else row_time a \<le> row_time b) rs"

definition sql_result :: "sql_select \<Rightarrow> goarg list \<Rightarrow> AppRow list \<Rightarrow> AppRow list \<Rightarrow> bool" where
  "sql_result sel args rows res \<longleftrightarrow>
     (\<exists>rs. mset rs = mset (filter (\<lambda>r. list_all (sql_holds args r) (sel_conds sel)) rows) \<and>
        ordered_rows (sel_desc sel) rs \<and> res = page (sel_limit sel) (sel_offset sel) rs)"

definition answers_sql :: "sql_answer \<Rightarrow> bool" where
  "answers_sql run_sql \<longleftrightarrow> (\<forall>text args d sel. read_select text = Some sel \<longrightarrow>
     (\<exists>res. run_sql text args d = Inr res \<and> sql_result sel args (applications_t d) res))"

text \<open>A database that does this: it sorts stably.\<close>

definition stable_sql :: sql_answer where
  "stable_sql text args d =
     (case read_select text of
        None \<Rightarrow> Inl (ErrorText ''syntax error'')
      | Some sel \<Rightarrow> Inr (page (sel_limit sel) (sel_offset sel)
          (sort_key (\<lambda>r. if sel_desc sel then - row_time r else row_time r)
            (filter (\<lambda>r. list_all (sql_holds args r) (sel_conds sel)) (applications_t d)))))"

lemma ordered_sort_key: "ordered_rows desc (sort_key (\<lambda>r. if desc then - row_time r else row_time r) rs)"
  using sorted_sort_key [of "\<lambda>r. if desc then - row_time r else row_time r" rs]
  by (cases desc) (auto simp: ordered_rows_def sorted_map elim: sorted_wrt_mono_rel [rotated])

lemma answers_stable_sql: "answers_sql stable_sql"
  unfolding answers_sql_def sql_result_def
proof (intro allI impI exI conjI)
  fix t args and sel :: sql_select and d :: db
  let ?rows = "filter (\<lambda>r. list_all (sql_holds args r) (sel_conds sel)) (applications_t d)"
  let ?rs = "sort_key (\<lambda>r. if sel_desc sel then - row_time r else row_time r) ?rows"
  assume "read_select t = Some sel"
  then show "stable_sql t args d = Inr (page (sel_limit sel) (sel_offset sel) ?rs)" by (simp add: stable_sql_def)
  show "page (sel_limit sel) (sel_offset sel) ?rs = page (sel_limit sel) (sel_offset sel) ?rs" ..
  show "mset ?rs = mset ?rows" by simp
  show "ordered_rows (sel_desc sel) ?rs" by (rule ordered_sort_key)
qed

section \<open>Reading what the builder writes\<close>

lemma sql_words_nonempty [simp]: "sql_words quoted s \<noteq> []"
  by (induction quoted s rule: sql_words.induct) (auto split: list.split)

lemma sql_words_word:
  "sql_word quoted w \<Longrightarrow> sql_words quoted w = [w]"
  "sql_word quoted w \<Longrightarrow> sql_words quoted (w @ CHR '' '' # s) = w # sql_words False s"
  by (induction quoted w rule: sql_word.induct) auto

text \<open>A text that is read as a list of words, wherever it stands.\<close>

definition reads_as :: "string \<Rightarrow> string list \<Rightarrow> bool" where
  "reads_as s ws \<longleftrightarrow> sql_words False s = ws \<and> (\<forall>t. sql_words False (s @ CHR '' '' # t) = ws @ sql_words False t)"

lemma reads_as_word: "sql_word False w \<Longrightarrow> reads_as w [w]"
  by (simp add: reads_as_def sql_words_word)

lemma reads_as_append: "reads_as s ws \<Longrightarrow> reads_as t vs \<Longrightarrow> reads_as (s @ CHR '' '' # t) (ws @ vs)"
  by (simp add: reads_as_def)

lemma reads_as_Cons: "sql_word False w \<Longrightarrow> reads_as t vs \<Longrightarrow> reads_as (w @ CHR '' '' # t) (w # vs)"
  using reads_as_append [OF reads_as_word] by simp

lemma sql_word_append: "sql_word quoted u \<Longrightarrow> sql_word False v \<Longrightarrow> sql_word quoted (u @ v)"
  by (induction quoted u rule: sql_word.induct) auto

lemma sql_word_plain: "\<forall>c \<in> set w. c \<noteq> CHR '' '' \<and> c \<noteq> quote_sym \<Longrightarrow> sql_word False w"
  by (induction w) auto

lemma sql_word_literal: "quote_sym \<notin> set w \<Longrightarrow> sql_word True (w @ [quote_sym])"
  by (induction w) auto

lemma sql_word_literals:
  "\<forall>x \<in> set xs. quote_sym \<notin> set x \<Longrightarrow> sql_word False (join '','' (map (\<lambda>s. quote_sym # s @ [quote_sym]) xs))"
proof (induction xs)
  case (Cons x xs)
  have q: "sql_word False (quote_sym # x @ [quote_sym])"
    using Cons.prems sql_word_literal [of x] by (simp add: quote_sym_def)
  have "sql_word False (CHR '','' # join '','' (map (\<lambda>s. quote_sym # s @ [quote_sym]) xs))"
    using Cons by simp
  from sql_word_append [OF q this] q show ?case by simp
qed simp

lemma digit_char_word: "d < 10 \<Longrightarrow> digit_char d \<noteq> CHR '' '' \<and> digit_char d \<noteq> quote_sym"
  using of_char_digit_char [of d] by (auto simp: quote_sym_def)

lemma sql_word_number: "0 \<le> n \<Longrightarrow> sql_word False (format_int n)"
  using digit_char_word by (auto simp: format_int_def intro!: sql_word_plain dest!: format_nat_digits)

lemma sql_number_format: "0 \<le> n \<Longrightarrow> n < 2 ^ 63 \<Longrightarrow> sql_number (format_int n) = Some n"
  by (simp add: sql_number_def ParseInt_format_int)

lemma format_nat_int: "format_nat n = format_int (int n)"
  by (simp add: format_int_def)

section \<open>Conditions\<close>

definition cond_text :: "string \<Rightarrow> sql_cond \<Rightarrow> bool" where
  "cond_text t c \<longleftrightarrow> (\<exists>col op x. reads_as t [col, op, x] \<and> read_cond col op x = Some c)"

lemma read_conds_join:
  assumes "list_all2 cond_text ts cs" and "ts \<noteq> []" and "ws = [] \<or> hd ws \<noteq> ''AND''"
  shows "\<exists>vs. reads_as (join '' AND '' ts) vs \<and> read_conds (vs @ ws) = Some (cs, ws)"
  using assms(1,2)
proof (induction rule: list_all2_induct)
  case (Cons t ts c cs)
  obtain col op x where t: "reads_as t [col, op, x]" "read_cond col op x = Some c"
    using Cons.hyps(1) by (auto simp: cond_text_def)
  show ?case
  proof (cases "ts = []")
    case True
    with Cons.hyps(2) t assms(3) show ?thesis by (intro exI [of _ "[col, op, x]"]) auto
  next
    case False
    then obtain vs where vs: "reads_as (join '' AND '' ts) vs" "read_conds (vs @ ws) = Some (cs, ws)"
      using Cons.IH by blast
    have "reads_as (''AND'' @ CHR '' '' # join '' AND '' ts) (''AND'' # vs)"
      by (intro reads_as_Cons vs(1)) (simp add: quote_sym_def)
    from reads_as_append [OF t(1) this] False vs(2) t(2) show ?thesis
      by (intro exI [of _ "[col, op, x] @ ''AND'' # vs"]) simp
  qed
qed simp

fun ok_call :: "bop \<Rightarrow> bool" where
  "ok_call (CConditionp l op v) \<longleftrightarrow> l \<in> set sql_columns \<and> op \<in> {''='', ''>='', ''<=''}"
| "ok_call (CConditionf f as) \<longleftrightarrow> (\<exists>gs. gs \<noteq> [] \<and> (\<forall>g \<in> set gs. quote_sym \<notin> set g) \<and>
     f = ''groups && ARRAY[%s]'' \<and> as = [AText (SliceToCommaSeparated gs True)])"
| "ok_call (CCondition e) \<longleftrightarrow> False"
| "ok_call c \<longleftrightarrow> True"

definition literals_of :: "goarg list \<Rightarrow> string list" where
  "literals_of as = (case as of [AText s] \<Rightarrow> (case sql_literals s of Some gs \<Rightarrow> gs | None \<Rightarrow> []) | _ \<Rightarrow> [])"

fun call_conds :: "nat \<Rightarrow> bop list \<Rightarrow> sql_cond list" where
  "call_conds k [] = []"
| "call_conds k (CConditionp l op v # cs) = Compare l op (int (Suc k)) # call_conds (Suc k) cs"
| "call_conds k (CConditionf f as # cs) = Overlap ''groups'' (literals_of as) # call_conds k cs"
| "call_conds k (c # cs) = call_conds k cs"

lemma column_word: "l \<in> set sql_columns \<Longrightarrow> sql_word False l"
  by (auto simp: sql_columns_def quote_sym_def)

lemma cond_text_compare:
  assumes "ok_call (CConditionp l op v)" and "int k < 2 ^ 63"
  shows "cond_text (l @ '' '' @ op @ '' $'' @ format_nat k) (Compare l op (int k))"
proof -
  have w: "sql_word False l" "sql_word False op" "sql_word False (CHR ''$'' # format_nat k)"
    using assms(1) column_word sql_word_number [of "int k"] by (auto simp: format_nat_int quote_sym_def)
  have "reads_as (l @ CHR '' '' # op @ CHR '' '' # CHR ''$'' # format_nat k) [l, op, CHR ''$'' # format_nat k]"
    using reads_as_Cons [OF w(1) reads_as_Cons [OF w(2) reads_as_word [OF w(3)]]] by simp
  moreover have "read_cond l op (CHR ''$'' # format_nat k) = Some (Compare l op (int k))"
    using assms by (auto simp: read_cond_def format_nat_int sql_number_format)
  ultimately show ?thesis unfolding cond_text_def by auto
qed

lemma cond_text_groups:
  assumes "gs \<noteq> []" and "\<forall>g \<in> set gs. quote_sym \<notin> set g"
  shows "cond_text (sprintf ''groups && ARRAY[%s]'' [AText (SliceToCommaSeparated gs True)])
    (Overlap ''groups'' (literals_of [AText (SliceToCommaSeparated gs True)]))"
proof -
  let ?s = "SliceToCommaSeparated gs True"
  have l: "sql_literals ?s = Some gs"
    using assms by (simp add: SliceToCommaSeparated_def quote_items_eq sql_literals_join)
  have "sql_word False (?s @ '']'')"
    using sql_word_append [OF sql_word_literals [OF assms(2)], of "'']''"]
    by (simp add: SliceToCommaSeparated_def quote_items_eq quote_sym_def)
  then have w: "sql_word False (''ARRAY['' @ ?s @ '']'')" by (simp add: quote_sym_def)
  have "sql_word False ''groups''" "sql_word False ''&&''" by (simp_all add: quote_sym_def)
  from reads_as_Cons [OF this(1) reads_as_Cons [OF this(2) reads_as_word [OF w]]]
  have "reads_as (''groups && ARRAY['' @ ?s @ '']'') [''groups'', ''&&'', ''ARRAY['' @ ?s @ '']'']" by simp
  moreover have "read_cond ''groups'' ''&&'' (''ARRAY['' @ ?s @ '']'') = Some (Overlap ''groups'' gs)"
    using l by (simp add: read_cond_def sql_columns_def butlast_append)
  ultimately show ?thesis using l by (auto simp: cond_text_def literals_of_def extra_args_def)
qed

lemma call_conds_read:
  "list_all ok_call cs \<Longrightarrow> int (k + length cs) < 2 ^ 63 \<Longrightarrow> list_all2 cond_text (call_conditions k cs) (call_conds k cs)"
proof (induction k cs rule: call_conditions.induct)
  case (2 k f as cs)
  then show ?case using cond_text_groups by auto
next
  case (4 k l op v cs)
  then show ?case using cond_text_compare [of l op v "Suc k"] by (simp del: ok_call.simps)
qed simp_all

section \<open>The texts of the two queries\<close>

lemma filter_calls_last [simp]:
  "last_select (filter_calls f) = []" "last_order (filter_calls f) = []"
  "last_limit (filter_calls f) = (case filter_Limit f of None \<Rightarrow> [] | Some n \<Rightarrow> ''LIMIT '' @ format_int n)"
  "last_offset (filter_calls f) = (case filter_Offset f of None \<Rightarrow> [] | Some n \<Rightarrow> ''OFFSET '' @ format_int n)"
proof -
  have [simp]: "last_select (opt_call x (\<lambda>v. CConditionp l op (g v))) = []" "last_order (opt_call x (\<lambda>v. CConditionp l op (g v))) = []"
    "last_limit (opt_call x (\<lambda>v. CConditionp l op (g v))) = []" "last_offset (opt_call x (\<lambda>v. CConditionp l op (g v))) = []"
    for x :: "'x option" and l op g
    by (simp_all add: opt_call_def split: option.split)
  have [simp]: "last_select (opt_call x CLimit) = []" "last_order (opt_call x CLimit) = []" "last_offset (opt_call x CLimit) = []"
    "last_select (opt_call x COffset) = []" "last_order (opt_call x COffset) = []" "last_limit (opt_call x COffset) = []"
    "last_limit (opt_call x CLimit) = (case x of None \<Rightarrow> [] | Some n \<Rightarrow> ''LIMIT '' @ format_int n)"
    "last_offset (opt_call x COffset) = (case x of None \<Rightarrow> [] | Some n \<Rightarrow> ''OFFSET '' @ format_int n)" for x
    by (simp_all add: opt_call_def split: option.split)
  show "last_select (filter_calls f) = []" "last_order (filter_calls f) = []"
    "last_limit (filter_calls f) = (case filter_Limit f of None \<Rightarrow> [] | Some n \<Rightarrow> ''LIMIT '' @ format_int n)"
    "last_offset (filter_calls f) = (case filter_Offset f of None \<Rightarrow> [] | Some n \<Rightarrow> ''OFFSET '' @ format_int n)"
    by (simp_all add: filter_calls_def spec_append split: option.split)
qed

text \<open>The clauses after the conditions.\<close>

definition tail_text :: "string \<Rightarrow> ApplicationFilters \<Rightarrow> string" where
  "tail_text col f = ''ORDER BY '' @ col @ '' DESC'' @
     (case filter_Limit f of None \<Rightarrow> [] | Some n \<Rightarrow> '' LIMIT '' @ format_int n) @
     (case filter_Offset f of None \<Rightarrow> [] | Some n \<Rightarrow> '' OFFSET '' @ format_int n)"

definition queue_calls :: "string \<Rightarrow> string \<Rightarrow> ApplicationFilters \<Rightarrow> bop list" where
  "queue_calls p q f = CConditionp ''queue_name'' ''='' (AText q) # CConditionp ''partition'' ''='' (AText p) # filter_calls f"

lemma queue_apps_text:
  "Args (queue_apps_builder p q f) = call_args (queue_calls p q f)"
  "Query (queue_apps_builder p q f) =
     ''SELECT * FROM applications WHERE '' @ join '' AND '' (call_conditions 0 (queue_calls p q f)) @ '' '' @ tail_text ''submission_time'' f"
  using simulates_run_calls [of "[CSelectAll ''applications'' '''',
     CConditionp ''queue_name'' ''='' (AText q), CConditionp ''partition'' ''='' (AText p),
     COrderBy ''submission_time'' OrderByDescending] @ filter_calls f"]
  unfolding queue_apps_builder_calls simulates_def Query_def Args_def queue_calls_def tail_text_def
  by (simp_all add: where_spec_def split: option.split)

lemma all_apps_text:
  "Args (all_apps_builder f) = call_args (filter_calls f)"
  "Query (all_apps_builder f) = ''SELECT * FROM applications AS a '' @
     (if call_conditions 0 (filter_calls f) = [] then [] else ''WHERE '' @ join '' AND '' (call_conditions 0 (filter_calls f)) @ '' '') @
     tail_text ''a.submission_time'' f"
  using simulates_run_calls [of "[CSelectAll ''applications'' ''a'',
     COrderBy ''a.submission_time'' OrderByDescending] @ filter_calls f"]
  unfolding all_apps_builder_calls simulates_def Query_def Args_def tail_text_def
  by (simp_all add: where_spec_def split: option.split)

section \<open>What the conditions mean\<close>

fun call_holds :: "AppRow \<Rightarrow> bop \<Rightarrow> bool" where
  "call_holds r (CConditionp l op v) \<longleftrightarrow> compare_value op (column_value l r) v"
| "call_holds r (CConditionf f as) \<longleftrightarrow> overlaps (column_value ''groups'' r) (literals_of as)"
| "call_holds r c \<longleftrightarrow> True"

lemma call_conds_hold:
  "length pre = k \<Longrightarrow> list_all ok_call cs \<Longrightarrow>
     list_all (sql_holds (pre @ call_args cs) r) (call_conds k cs) = list_all (call_holds r) cs"
proof (induction k cs arbitrary: pre rule: call_conds.induct)
  case (2 k l op v cs)
  have "list_all (sql_holds ((pre @ [v]) @ call_args cs) r) (call_conds (Suc k) cs) = list_all (call_holds r) cs"
    using 2 by (intro "2.IH") simp_all
  moreover have "nat (1 + int k) = Suc k" by simp
  ultimately show ?case using 2(2) by (simp add: nth_append)
qed simp_all

text \<open>An application that a set of filters asks for.\<close>

definition within :: "int option \<Rightarrow> int option \<Rightarrow> int option \<Rightarrow> bool" where
  "within lo hi x \<longleftrightarrow> (case lo of None \<Rightarrow> True | Some l \<Rightarrow> (case x of None \<Rightarrow> False | Some t \<Rightarrow> l \<le> t)) \<and>
     (case hi of None \<Rightarrow> True | Some h \<Rightarrow> (case x of None \<Rightarrow> False | Some t \<Rightarrow> t \<le> h))"

definition app_matches :: "ApplicationFilters \<Rightarrow> ApplicationDAOInfo \<Rightarrow> bool" where
  "app_matches f a \<longleftrightarrow>
     within (SubmissionStartTime f) (SubmissionEndTime f) (Some (app_SubmissionTime a)) \<and>
     within (FinishedStartTime f) (FinishedEndTime f) (app_FinishedTime a) \<and>
     (slice_list (filter_Groups f) = [] \<or> (\<exists>g \<in> set (slice_list (filter_Groups f)). g \<in> set (slice_list (app_Groups a)))) \<and>
     (case filter_User f of None \<Rightarrow> True | Some u \<Rightarrow> app_User a = u)"

definition plain_groups :: "ApplicationFilters \<Rightarrow> bool" where
  "plain_groups f \<longleftrightarrow> (\<forall>g \<in> set (slice_list (filter_Groups f)). quote_sym \<notin> set g)"

lemma list_all_opt_call: "list_all P (opt_call x g) = (case x of None \<Rightarrow> True | Some v \<Rightarrow> P (g v))"
  by (cases x) (simp_all add: opt_call_def)

lemma literals_of_groups:
  assumes "gs \<noteq> []" and "\<forall>g \<in> set gs. quote_sym \<notin> set g"
  shows "literals_of [AText (SliceToCommaSeparated gs True)] = gs"
  using assms by (simp add: literals_of_def SliceToCommaSeparated_def quote_items_eq sql_literals_join)

lemma filter_calls_ok: "plain_groups f \<Longrightarrow> list_all ok_call (filter_calls f)"
  by (auto simp: filter_calls_def list_all_opt_call sql_columns_def plain_groups_def split: option.split)

lemma call_holds_filters:
  "call_holds r (CConditionp ''submission_time'' ''>='' (AInt t)) \<longleftrightarrow> t \<le> app_SubmissionTime (ar_info r)"
  "call_holds r (CConditionp ''submission_time'' ''<='' (AInt t)) \<longleftrightarrow> app_SubmissionTime (ar_info r) \<le> t"
  "call_holds r (CConditionp ''finished_time'' ''>='' (AInt t)) \<longleftrightarrow>
     (case app_FinishedTime (ar_info r) of None \<Rightarrow> False | Some x \<Rightarrow> t \<le> x)"
  "call_holds r (CConditionp ''finished_time'' ''<='' (AInt t)) \<longleftrightarrow>
     (case app_FinishedTime (ar_info r) of None \<Rightarrow> False | Some x \<Rightarrow> x \<le> t)"
  "call_holds r (CConditionp ''\"user\"'' ''='' (AText u)) \<longleftrightarrow> app_User (ar_info r) = u"
  "call_holds r (CConditionp ''queue_name'' ''='' (AText u)) \<longleftrightarrow> app_QueueName (ar_info r) = u"
  "call_holds r (CConditionp ''partition'' ''='' (AText u)) \<longleftrightarrow> app_Partition (ar_info r) = u"
  by (simp_all add: column_value_def compare_value_def split: option.split)

lemma call_holds_groups:
  assumes "gs \<noteq> []" and "\<forall>g \<in> set gs. quote_sym \<notin> set g"
  shows "call_holds r (CConditionf fmt [AText (SliceToCommaSeparated gs True)]) \<longleftrightarrow>
    (\<exists>g \<in> set gs. g \<in> set (slice_list (app_Groups (ar_info r))))"
  using literals_of_groups [OF assms]
  by (auto simp: column_value_def overlaps_def slice_list_def list_ex_iff split: option.split)

lemma filter_calls_hold:
  assumes "plain_groups f"
  shows "list_all (call_holds r) (filter_calls f) = app_matches f (ar_info r)"
proof -
  let ?gs = "slice_list (filter_Groups f)"
  have g: "list_all (call_holds r) (if ?gs = [] then [] else
      [CConditionf ''groups && ARRAY[%s]'' [AText (SliceToCommaSeparated ?gs True)]]) \<longleftrightarrow>
      ?gs = [] \<or> (\<exists>g \<in> set ?gs. g \<in> set (slice_list (app_Groups (ar_info r))))"
    using call_holds_groups [of ?gs r] assms by (simp add: plain_groups_def del: call_holds.simps)
  show ?thesis
    unfolding filter_calls_def list_all_append g list_all_opt_call app_matches_def within_def call_holds_filters
    by (simp split: option.split)
qed

section \<open>Reading the whole text\<close>

definition count_ok :: "int option \<Rightarrow> bool" where
  "count_ok x \<longleftrightarrow> (case x of None \<Rightarrow> True | Some n \<Rightarrow> 0 \<le> n \<and> n < 2 ^ 63)"

definition count_words :: "string \<Rightarrow> int option \<Rightarrow> string list" where
  "count_words kw x = (case x of None \<Rightarrow> [] | Some n \<Rightarrow> [kw, format_int n])"

lemma reads_as_count:
  assumes "reads_as s ws" and "count_ok x" and "sql_word False kw"
  shows "reads_as (s @ (case x of None \<Rightarrow> [] | Some n \<Rightarrow> CHR '' '' # kw @ CHR '' '' # format_int n)) (ws @ count_words kw x)"
proof (cases x)
  case (Some n)
  then have "reads_as (kw @ CHR '' '' # format_int n) [kw, format_int n]"
    using assms(2,3) by (auto simp: count_ok_def intro: reads_as_Cons reads_as_word sql_word_number)
  from reads_as_append [OF assms(1) this] Some show ?thesis by (simp add: count_words_def)
qed (use assms(1) in \<open>simp add: count_words_def\<close>)

lemma reads_tail:
  assumes "sql_word False col" and "count_ok (filter_Limit f)" and "count_ok (filter_Offset f)"
  shows "reads_as (tail_text col f) ([''ORDER'', ''BY'', col, ''DESC''] @ count_words ''LIMIT'' (filter_Limit f) @
    count_words ''OFFSET'' (filter_Offset f))"
proof -
  have w: "sql_word False ''ORDER''" "sql_word False ''BY''" "sql_word False ''DESC''" "sql_word False ''LIMIT''"
      "sql_word False ''OFFSET''" by (simp_all add: quote_sym_def)
  have o: "reads_as (''ORDER BY '' @ col @ '' DESC'') [''ORDER'', ''BY'', col, ''DESC'']"
    using reads_as_Cons [OF w(1) reads_as_Cons [OF w(2) reads_as_Cons [OF assms(1) reads_as_word [OF w(3)]]]] by simp
  from reads_as_count [OF reads_as_count [OF o assms(2) w(4)] assms(3) w(5)] show ?thesis
    by (simp add: tail_text_def cong: option.case_cong)
qed

lemma read_count_words:
  assumes "count_ok x" and "ws = [] \<or> hd ws \<noteq> kw"
  shows "read_count kw (count_words kw x @ ws) = Some (x, ws)"
proof (cases x)
  case None
  with assms(2) show ?thesis by (auto simp: read_count_def count_words_def split: list.split)
next
  case (Some n)
  with assms(1) show ?thesis by (simp add: read_count_def count_words_def count_ok_def sql_number_format)
qed

lemma read_clauses_eq:
  assumes "read_where ws = Some (cs, [''ORDER'', ''BY'', col, ''DESC''] @ count_words ''LIMIT'' l @ count_words ''OFFSET'' off)"
    and "col \<in> {''submission_time'', alias @ ''.submission_time''}" and "count_ok l" and "count_ok off"
  shows "read_clauses alias ws = Some \<lparr>sel_conds = cs, sel_desc = True, sel_limit = l, sel_offset = off\<rparr>"
proof -
  have "count_words ''OFFSET'' off = [] \<or> hd (count_words ''OFFSET'' off) \<noteq> ''LIMIT''"
    by (simp add: count_words_def split: option.split)
  from read_count_words [OF assms(3) this] read_count_words [OF assms(4), of "[]" "''OFFSET''"] assms(1,2)
  show ?thesis by (auto simp: read_clauses_def read_order_def)
qed

lemma length_opt_call: "length (opt_call x g) \<le> 1"
  by (cases x) (simp_all add: opt_call_def)

lemma length_filter_calls: "length (filter_calls f) \<le> 8"
proof -
  have "length (filter_calls f) \<le> 1 + (1 + (1 + (1 + (1 + (1 + (1 + 1))))))"
    unfolding filter_calls_def length_append by (intro add_mono length_opt_call) simp
  then show ?thesis by simp
qed

text \<open>The conditions of calls, read back in front of the other clauses.\<close>

lemma reads_where:
  assumes "list_all ok_call cs" and "length cs \<le> 10" and "call_conditions 0 cs \<noteq> []"
    and "reads_as t ws" and "hd ws = ''ORDER''"
  shows "\<exists>vs. reads_as (''WHERE '' @ join '' AND '' (call_conditions 0 cs) @ '' '' @ t) vs \<and>
    read_where vs = Some (call_conds 0 cs, ws)"
proof -
  have "list_all2 cond_text (call_conditions 0 cs) (call_conds 0 cs)"
    using call_conds_read [OF assms(1), of 0] assms(2) by simp
  moreover have "ws = [] \<or> hd ws \<noteq> ''AND''" using assms(5) by simp
  ultimately obtain vs where vs: "reads_as (join '' AND '' (call_conditions 0 cs)) vs"
      "read_conds (vs @ ws) = Some (call_conds 0 cs, ws)"
    using read_conds_join [OF _ assms(3)] by blast
  have "sql_word False ''WHERE''" by (simp add: quote_sym_def)
  from reads_as_Cons [OF this reads_as_append [OF vs(1) assms(4)]] vs(2) show ?thesis
    by (intro exI [of _ "''WHERE'' # vs @ ws"]) (simp add: read_where_def)
qed

lemma read_queue_query:
  assumes "plain_groups f" and "count_ok (filter_Limit f)" and "count_ok (filter_Offset f)"
  shows "read_select (Query (queue_apps_builder p q f)) =
    Some \<lparr>sel_conds = call_conds 0 (queue_calls p q f), sel_desc = True, sel_limit = filter_Limit f, sel_offset = filter_Offset f\<rparr>"
proof -
  let ?cs = "queue_calls p q f" and ?t = "tail_text ''submission_time'' f"
  have ok: "list_all ok_call ?cs" "length ?cs \<le> 10" "call_conditions 0 ?cs \<noteq> []"
    using filter_calls_ok [OF assms(1)] length_filter_calls [of f] by (simp_all add: queue_calls_def sql_columns_def)
  have "sql_word False ''submission_time''" by (simp add: quote_sym_def)
  note t = reads_tail [OF this assms(2,3)]
  obtain vs where vs: "reads_as (''WHERE '' @ join '' AND '' (call_conditions 0 ?cs) @ '' '' @ ?t) vs"
      "read_where vs = Some (call_conds 0 ?cs, [''ORDER'', ''BY'', ''submission_time'', ''DESC''] @
        count_words ''LIMIT'' (filter_Limit f) @ count_words ''OFFSET'' (filter_Offset f))"
    using reads_where [OF ok t] by auto
  have w: "sql_word False ''SELECT''" "sql_word False ''*''" "sql_word False ''FROM''" "sql_word False ''applications''"
    by (simp_all add: quote_sym_def)
  have "reads_as (Query (queue_apps_builder p q f)) ([''SELECT'', ''*'', ''FROM'', ''applications''] @ vs)"
    unfolding queue_apps_text(2)
    using reads_as_Cons [OF w(1) reads_as_Cons [OF w(2) reads_as_Cons [OF w(3) reads_as_Cons [OF w(4) vs(1)]]]] by simp
  moreover have "hd vs \<noteq> ''AS''" "vs \<noteq> []"
    using vs(2) by (auto simp: read_where_def split: if_splits)
  ultimately show ?thesis
    using read_clauses_eq [OF vs(2) _ assms(2,3), of "''applications''"]
    by (auto simp: read_select_def reads_as_def read_words_def split: list.split)
qed

lemma read_all_query:
  assumes "plain_groups f" and "count_ok (filter_Limit f)" and "count_ok (filter_Offset f)"
  shows "read_select (Query (all_apps_builder f)) =
    Some \<lparr>sel_conds = call_conds 0 (filter_calls f), sel_desc = True, sel_limit = filter_Limit f, sel_offset = filter_Offset f\<rparr>"
proof -
  let ?cs = "filter_calls f" and ?t = "tail_text ''a.submission_time'' f"
  have ok: "list_all ok_call ?cs" "length ?cs \<le> 10"
    using filter_calls_ok [OF assms(1)] length_filter_calls [of f] by simp_all
  have "sql_word False ''a.submission_time''" by (simp add: quote_sym_def)
  note t = reads_tail [OF this assms(2,3)]
  have "\<exists>vs. reads_as ((if call_conditions 0 ?cs = [] then [] else ''WHERE '' @ join '' AND '' (call_conditions 0 ?cs) @ '' '') @ ?t) vs \<and>
      read_where vs = Some (call_conds 0 ?cs, [''ORDER'', ''BY'', ''a.submission_time'', ''DESC''] @
        count_words ''LIMIT'' (filter_Limit f) @ count_words ''OFFSET'' (filter_Offset f))"
  proof (cases "call_conditions 0 ?cs = []")
    case True
    then have "call_conds 0 ?cs = []" using list_all2_lengthD [OF call_conds_read [OF ok(1), of 0]] ok(2) by simp
    with True t show ?thesis by (intro exI conjI) (simp, simp add: read_where_def)
  next
    case False
    with reads_where [OF ok False t] show ?thesis by simp
  qed
  then obtain vs where vs: "reads_as ((if call_conditions 0 ?cs = [] then [] else
        ''WHERE '' @ join '' AND '' (call_conditions 0 ?cs) @ '' '') @ ?t) vs"
      "read_where vs = Some (call_conds 0 ?cs, [''ORDER'', ''BY'', ''a.submission_time'', ''DESC''] @
        count_words ''LIMIT'' (filter_Limit f) @ count_words ''OFFSET'' (filter_Offset f))" by blast
  have w: "sql_word False ''SELECT''" "sql_word False ''*''" "sql_word False ''FROM''" "sql_word False ''applications''"
      "sql_word False ''AS''" "sql_word False ''a''" by (simp_all add: quote_sym_def)
  have "reads_as (Query (all_apps_builder f)) ([''SELECT'', ''*'', ''FROM'', ''applications'', ''AS'', ''a''] @ vs)"
    unfolding all_apps_text(2)
    using reads_as_Cons [OF w(1) reads_as_Cons [OF w(2) reads_as_Cons [OF w(3) reads_as_Cons [OF w(4)
      reads_as_Cons [OF w(5) reads_as_Cons [OF w(6) vs(1)]]]]]] by simp
  then show ?thesis
    using read_clauses_eq [OF vs(2) _ assms(2,3), of "''a''"] by (simp add: read_select_def reads_as_def read_words_def)
qed

text \<open>What a database that answers SQL returns for the conditions of calls.\<close>

lemma sql_result_calls:
  assumes "sql_result \<lparr>sel_conds = call_conds 0 cs, sel_desc = True, sel_limit = l, sel_offset = off\<rparr> (call_args cs) rows res"
    and "list_all ok_call cs" and "\<And>r. list_all (call_holds r) cs = P r"
  shows "\<exists>rs. mset rs = mset (filter P rows) \<and> sorted_wrt (\<lambda>a b. row_time b \<le> row_time a) rs \<and> res = page l off rs"
proof -
  have "list_all (sql_holds (call_args cs) r) (call_conds 0 cs) = P r" for r
    using call_conds_hold [of "[]" 0 cs r] assms(2,3) by simp
  with assms(1) show ?thesis by (simp add: sql_result_def ordered_rows_def)
qed

theorem GetAllApplications_correct:
  assumes "healthy_env env" and "answers_sql run_sql"
    and "plain_groups f" and "count_ok (filter_Limit f)" and "count_ok (filter_Offset f)"
  shows "\<exists>rs. fst (GetAllApplications run_sql env f d) = Inr (page (filter_Limit f) (filter_Offset f) rs) \<and>
    mset rs = mset (filter (\<lambda>r. app_matches f (ar_info r)) (applications_t d)) \<and>
    sorted_wrt (\<lambda>a b. row_time b \<le> row_time a) rs"
proof -
  let ?d = "d\<lparr>stmtCtr := Suc (stmtCtr d)\<rparr>"
  obtain res where res: "run_sql (Query (all_apps_builder f)) (Args (all_apps_builder f)) ?d = Inr res"
      "sql_result \<lparr>sel_conds = call_conds 0 (filter_calls f), sel_desc = True, sel_limit = filter_Limit f,
        sel_offset = filter_Offset f\<rparr> (call_args (filter_calls f)) (applications_t ?d) res"
    using assms(2) read_all_query [OF assms(3-5)] unfolding answers_sql_def all_apps_text(1) by blast
  from sql_result_calls [OF res(2) filter_calls_ok [OF assms(3)] filter_calls_hold [OF assms(3)]] assms(1) res(1)
  show ?thesis by (auto simp: GetAllApplications_def Let_def)
qed

definition queue_row :: "string \<Rightarrow> string \<Rightarrow> AppRow \<Rightarrow> bool" where
  "queue_row p q r \<longleftrightarrow> app_Partition (ar_info r) = p \<and> app_QueueName (ar_info r) = q"

lemma GetAppsPerPartitionPerQueue_answer:
  assumes "healthy_env env" and "answers_sql run_sql"
    and "plain_groups f" and "count_ok (filter_Limit f)" and "count_ok (filter_Offset f)"
  shows "\<exists>rs d'. GetAppsPerPartitionPerQueue run_sql env p q f d = (Inr (page (filter_Limit f) (filter_Offset f) rs), d') \<and>
    mset rs = mset (filter (\<lambda>r. queue_row p q r \<and> app_matches f (ar_info r)) (applications_t d)) \<and>
    sorted_wrt (\<lambda>a b. row_time b \<le> row_time a) rs"
proof -
  let ?d = "d\<lparr>stmtCtr := Suc (stmtCtr d)\<rparr>" and ?cs = "queue_calls p q f"
  obtain res where res: "run_sql (Query (queue_apps_builder p q f)) (Args (queue_apps_builder p q f)) ?d = Inr res"
      "sql_result \<lparr>sel_conds = call_conds 0 ?cs, sel_desc = True, sel_limit = filter_Limit f,
        sel_offset = filter_Offset f\<rparr> (call_args ?cs) (applications_t ?d) res"
    using assms(2) read_queue_query [OF assms(3-5)] unfolding answers_sql_def queue_apps_text(1) by blast
  note res(2)
  moreover have "list_all ok_call ?cs"
    using filter_calls_ok [OF assms(3)] by (simp add: queue_calls_def sql_columns_def)
  moreover have "list_all (call_holds r) ?cs = (queue_row p q r \<and> app_matches f (ar_info r))" for r
    unfolding queue_calls_def list.pred_inject(2) call_holds_filters filter_calls_hold [OF assms(3)] queue_row_def by auto
  ultimately have "\<exists>rs. mset rs = mset (filter (\<lambda>r. queue_row p q r \<and> app_matches f (ar_info r)) (applications_t ?d)) \<and>
      sorted_wrt (\<lambda>a b. row_time b \<le> row_time a) rs \<and>
      res = page (filter_Limit f) (filter_Offset f) rs"
    by (rule sql_result_calls)
  with assms(1) res(1) show ?thesis by (auto simp: GetAppsPerPartitionPerQueue_def Let_def)
qed

section \<open>Properties\<close>

text \<open>
  C8. The applications endpoint returns what it is asked for. When the connection works and the database
  answers SQL, a request that states filters (64-bit numbers, groups without commas and quotes, no negative
  limit or offset) gets status 200 with the applications of the queue of the path that match the filters,
  all of them and no others, the latest submission first, cut to the limit after the offset.
\<close>

theorem applications_endpoint_correct:
  assumes "healthy_env env" and "answers_sql run_sql" and "api_filters f" and "plain_groups f"
    and "\<forall>n. filter_Limit f = Some n \<or> filter_Offset f = Some n \<longrightarrow> 0 \<le> n" and "req_Query r = filters_query f"
    and "ws_repository ws = pg_repository run_sql int8 env"
  shows "\<exists>rs. fst (getAppsPerPartitionPerQueue ws r d) =
      jsonResponse (AppsJ (page (filter_Limit f) (filter_Offset f) rs)) \<and>
    mset rs = mset (filter (\<lambda>x. queue_row (req_Params r ''partition_name'') (req_Params r ''queue_name'') x \<and>
      app_matches f (ar_info x)) (applications_t d)) \<and>
    sorted_wrt (\<lambda>a b. row_time b \<le> row_time a) rs"
proof -
  have "count_ok (filter_Limit f)" "count_ok (filter_Offset f)"
    using assms(3,5) by (auto simp: count_ok_def api_filters_def int64_opt_def split: option.splits)
  from GetAppsPerPartitionPerQueue_answer [OF assms(1,2,4) this, of "req_Params r ''partition_name''" "req_Params r ''queue_name''" d]
    parse_filters_query [OF assms(3,6)]
  show ?thesis by (auto simp: getAppsPerPartitionPerQueue_def assms(7) respond_def Let_def)
qed

text \<open>A web service on Postgres, and two applications of two queues.\<close>

definition demo_web :: "(db, (string, string) Component) WebService" where
  "demo_web = NewWebService
     \<lparr>yhs_Port = 8989, yhs_AssetsDir = ''assets'', yhs_DataSyncInterval = 300 * second,
      yhs_CORSConfig = \<lparr>AllowedOrigins = [], AllowedMethods = [], AllowedHeaders = []\<rparr>\<rparr>
     (pg_repository stable_sql demo_int8 demo_env) NewInMemoryEventRepository demo_health"

lemma demo_web_repository: "ws_repository demo_web = pg_repository stable_sql demo_int8 demo_env"
  by (simp add: demo_web_def NewWebService_def)


definition demo_apps_db :: db where
  "demo_apps_db = empty_db\<lparr>applications_t :=
     [\<lparr>ar_id = ''1'', ar_queue_id = ''0'', ar_info = demo_app\<lparr>app_QueueName := ''root.a'', app_Groups := Some [''dev'']\<rparr>\<rparr>,
      \<lparr>ar_id = ''2'', ar_queue_id = ''0'', ar_info = demo_app\<lparr>app_Groups := Some [''dev'']\<rparr>\<rparr>]\<rparr>"

definition demo_request :: "(string \<Rightarrow> string) \<Rightarrow> http_request" where
  "demo_request q = \<lparr>req_Method = ''GET'', req_Path = ''/'', req_Header = (\<lambda>_. []), req_Query = q,
     req_Params = (\<lambda>nm. if nm = ''partition_name'' then ''default'' else if nm = ''queue_name'' then ''root'' else [])\<rparr>"

theorem applications_endpoint_correct_witness:
  "answers_sql stable_sql \<and>
   fst (getAppsPerPartitionPerQueue demo_web (demo_request (filters_query demo_filters)) demo_apps_db) =
     jsonResponse (AppsJ [applications_t demo_apps_db ! 1])"
proof -
  have "api_filters demo_filters" "plain_groups demo_filters"
      "\<forall>n. filter_Limit demo_filters = Some n \<or> filter_Offset demo_filters = Some n \<longrightarrow> 0 \<le> n"
    by (simp_all add: api_filters_def plain_groups_def demo_filters_def empty_filters_def int64_opt_def slice_list_def quote_sym_def)
  from applications_endpoint_correct [OF healthy_demo_env answers_stable_sql this _ demo_web_repository,
      of "demo_request (filters_query demo_filters)" demo_apps_db]
  obtain rs where rs: "fst (getAppsPerPartitionPerQueue demo_web (demo_request (filters_query demo_filters)) demo_apps_db) =
        jsonResponse (AppsJ (page (filter_Limit demo_filters) (filter_Offset demo_filters) rs))"
      "mset rs = mset (filter (\<lambda>x. queue_row ''default'' ''root'' x \<and> app_matches demo_filters (ar_info x)) (applications_t demo_apps_db))"
    by (auto simp: demo_request_def)
  have "filter (\<lambda>x. queue_row ''default'' ''root'' x \<and> app_matches demo_filters (ar_info x)) (applications_t demo_apps_db) =
      [applications_t demo_apps_db ! 1]"
    by (simp add: demo_apps_db_def queue_row_def app_matches_def within_def demo_filters_def empty_filters_def demo_app_def slice_list_def)
  with rs(2) have "rs = [applications_t demo_apps_db ! 1]" by simp
  with rs(1) answers_stable_sql show ?thesis by (simp add: page_def demo_filters_def empty_filters_def)
qed

text \<open>
  C25. A request without parameters does not get the applications of the queue: the missing groups
  parameter is split into one group with the empty name, so when no stored application has such a group the
  answer is an empty list, whatever is stored.
\<close>

theorem request_without_parameters_empty:
  assumes "healthy_env env" and "answers_sql run_sql" and "req_Query r = (\<lambda>nm. [])"
    and "\<forall>x \<in> set (applications_t d). [] \<notin> set (slice_list (app_Groups (ar_info x)))"
    and "ws_repository ws = pg_repository run_sql int8 env"
  shows "fst (getAppsPerPartitionPerQueue ws r d) = jsonResponse (AppsJ [])"
proof -
  let ?f = "empty_filters\<lparr>filter_Groups := Some [[]]\<rparr>"
  have f: "api_filters ?f" "plain_groups ?f" "count_ok (filter_Limit ?f)" "count_ok (filter_Offset ?f)"
    by (simp_all add: api_filters_def plain_groups_def empty_filters_def int64_opt_def slice_list_def count_ok_def)
  have "req_Query r = filters_query ?f"
    using assms(3) by (simp add: filters_query_def shown_def empty_filters_def slice_list_def fun_eq_iff)
  note p = parse_filters_query [OF f(1) this]
  have "\<not> app_matches ?f (ar_info x)" if "x \<in> set (applications_t d)" for x
    using assms(4) that by (auto simp: app_matches_def slice_list_def)
  then have none: "filter (\<lambda>x. queue_row p q x \<and> app_matches ?f (ar_info x)) (applications_t d) = []" for p q
    by (auto simp: filter_empty_conv)
  let ?p = "req_Params r ''partition_name''" and ?q = "req_Params r ''queue_name''"
  obtain rs d' where a: "GetAppsPerPartitionPerQueue run_sql env ?p ?q ?f d = (Inr (page (filter_Limit ?f) (filter_Offset ?f) rs), d')"
      "mset rs = mset (filter (\<lambda>x. queue_row ?p ?q x \<and> app_matches ?f (ar_info x)) (applications_t d))"
    using GetAppsPerPartitionPerQueue_answer [OF assms(1,2) f(2-4), of ?p ?q d] by blast
  from a(2) have "rs = []" unfolding none by simp
  with a(1) p show ?thesis by (simp add: getAppsPerPartitionPerQueue_def assms(5) respond_def page_def empty_filters_def)
qed

theorem request_without_parameters_empty_witness:
  "answers_sql stable_sql \<and> length (applications_t demo_apps_db) = 2 \<and>
   fst (getAppsPerPartitionPerQueue demo_web (demo_request (\<lambda>nm. [])) demo_apps_db) = jsonResponse (AppsJ [])"
  using request_without_parameters_empty [OF healthy_demo_env answers_stable_sql _ _ demo_web_repository,
      of "demo_request (\<lambda>nm. [])" demo_apps_db]
    answers_stable_sql
  by (simp add: demo_request_def demo_apps_db_def slice_list_def)

text \<open>Whether the place after a text is inside of a string literal; a doubled quote stays inside.\<close>

fun inside_literal :: "bool \<Rightarrow> string \<Rightarrow> bool" where
  "inside_literal b [] = b"
| "inside_literal b (c # cs) = inside_literal (if c = quote_sym then \<not> b else b) cs"

lemma inside_literal_append [simp]: "inside_literal b (s @ t) = inside_literal (inside_literal b s) t"
  by (induction b s rule: inside_literal.induct) auto

lemma inside_literal_plain: "quote_sym \<notin> set s \<Longrightarrow> inside_literal b s = b"
  by (induction s) auto

text \<open>
  C36. The groups of a request reach the query text with quotes around them and nothing escaped. Let a request ask for
  one group whose name is a part \<open>g\<close> without quotes, then a quote, a bracket and a text \<open>t\<close>. Its query text has a complete
  condition for the group \<open>g\<close>, which is not the group asked for, directly followed by \<open>t\<close>, which stands outside of every
  string literal of the query.
\<close>

theorem groups_parameter_injected:
  assumes "req_Query r = (\<lambda>nm. if nm = ''groups'' then g @ [quote_sym] @ '']'' @ t else [])"
    and "CHR '','' \<notin> set g" and "CHR '','' \<notin> set t" and "quote_sym \<notin> set g"
  shows "\<exists>f before after array. parseApplicationFilters r = Inr f \<and> filter_Groups f = Some [g @ [quote_sym] @ '']'' @ t] \<and>
    Query (queue_apps_builder p q f) = before @ ''groups && '' @ array @ t @ after \<and>
    read_cond ''groups'' ''&&'' array = Some (Overlap ''groups'' [g]) \<and> g \<noteq> g @ [quote_sym] @ '']'' @ t \<and>
    \<not> inside_literal False (before @ ''groups && '' @ array)"
proof -
  let ?x = "g @ [quote_sym] @ '']'' @ t" and ?a = "''ARRAY['' @ [quote_sym] @ g @ [quote_sym] @ '']''"
  let ?b = "''SELECT * FROM applications WHERE queue_name = $1 AND partition = $2 AND ''"
  have s: "split_on (CHR '','') ?x = [?x]"
    using split_on_join [of "[?x]" "CHR '',''"] assms(2,3) by (simp add: quote_sym_def)
  obtain f where f: "parseApplicationFilters r = Inr f" "filter_Groups f = Some [?x]"
      "Query (queue_apps_builder p q f) = ?b @ ''groups && '' @ ?a @ t @ [quote_sym] @ ''] ORDER BY submission_time DESC''"
    using groups_only_query [OF assms(1), of p q] unfolding s by (auto simp: SliceToCommaSeparated_def)
  have "sql_literals ([quote_sym] @ g @ [quote_sym]) = Some [g]"
    using sql_literals_join [of "[g]"] assms(4) by simp
  then have "read_cond ''groups'' ''&&'' ?a = Some (Overlap ''groups'' [g])"
    by (simp add: read_cond_def sql_columns_def butlast_append)
  moreover have "\<not> inside_literal False (?b @ ''groups && '' @ ?a)"
    using inside_literal_plain [OF assms(4)] by (simp add: quote_sym_def)
  moreover have "g \<noteq> ?x" by simp
  ultimately show ?thesis using f
    by (intro exI [of _ f] exI [of _ ?b] exI [of _ "[quote_sym] @ ''] ORDER BY submission_time DESC''"] exI [of _ ?a] conjI)
qed

theorem groups_parameter_injected_witness:
  "\<exists>f before after array.
     parseApplicationFilters (demo_request (\<lambda>nm. if nm = ''groups'' then ''x'' @ [quote_sym] @ '']'' @ '' OR true --'' else [])) = Inr f \<and>
     Query (queue_apps_builder ''default'' ''root'' f) = before @ ''groups && '' @ array @ '' OR true --'' @ after \<and>
     read_cond ''groups'' ''&&'' array = Some (Overlap ''groups'' [''x'']) \<and> \<not> inside_literal False (before @ ''groups && '' @ array)"
  using groups_parameter_injected [of "demo_request (\<lambda>nm. if nm = ''groups'' then ''x'' @ [quote_sym] @ '']'' @ '' OR true --'' else [])"
      "''x''" "'' OR true --''" "''default''" "''root''"]
  by (simp add: demo_request_def quote_sym_def) blast

end
