(* ===== verification/Job_Interleaving.thy ===== *)
theory Job_Interleaving
  imports Sync_Storage
begin

text \<open>
  The work queue starts every job in a goroutine of its own, so the statements of different jobs
  interleave. Here an attempt of a job is a list of items, each of which sends one statement; the lookup
  and the write of a queue or an application are two items, and anything may happen between them. Run
  without interruption, an attempt is what \<open>run_job\<close> does; interleaved in any way, the attempts keep the
  invariant of the database, because no statement of the server removes the row of a queue or changes
  its identifier.
\<close>

section \<open>Items\<close>

datatype db_item =
    PutPartition PartitionInfo
  | PutNode NodeDAOInfo string
  | PutUtil string PartitionNodesUtilDAOInfo
  | PutHistory history_type string "string \<times> int"
  | FindParent PartitionQueueDAOInfo
  | PutQueue PartitionQueueDAOInfo "string option"
  | FindQueue ApplicationDAOInfo
  | PutApp ApplicationDAOInfo "string option"

text \<open>The write of \<open>UpsertQueues\<close> and of \<open>UpsertApplications\<close> once the lookup has its answer.\<close>

definition write_queue :: "pgenv \<Rightarrow> PartitionQueueDAOInfo \<Rightarrow> string option \<Rightarrow> db \<Rightarrow> goerror option \<times> db" where
  "write_queue env q parentId d =
     (case new_uuid env d of (u, d1) \<Rightarrow>
        (case pg_exec env (upsert_queue_stmt (new_queue_row u parentId (unix_now env d1) q)) d1 of
           (Some e, d2) \<Rightarrow> (Some (Errorf_v ''could not insert/update queue into DB: '' e), d2)
         | (None, d2) \<Rightarrow> (None, d2)))"

definition write_app :: "pgenv \<Rightarrow> ApplicationDAOInfo \<Rightarrow> string option \<Rightarrow> db \<Rightarrow> goerror option \<times> db" where
  "write_app env a queueId d = (case new_uuid env d of (u, d1) \<Rightarrow> pg_exec env (upsert_app_stmt u queueId a) d1)"

definition written :: "goerror option \<times> db \<Rightarrow> db_item list result \<times> db" where
  "written res = (case res of (None, d) \<Rightarrow> (Inr [], d) | (Some e, d) \<Rightarrow> (Inl e, d))"

text \<open>One statement: an error, or the items that are to do instead of this one.\<close>

primrec item_step :: "int8_codec \<Rightarrow> pgenv \<Rightarrow> db_item \<Rightarrow> db \<Rightarrow> db_item list result \<times> db" where
  "item_step int8 env (PutPartition p) d = written (UpsertPartition env p d)"
| "item_step int8 env (PutNode n p) d = written (UpsertNode env (n, p) d)"
| "item_step int8 env (PutUtil u nu) d = written (InsertNodeUtilization env u nu d)"
| "item_step int8 env (PutHistory ty msg x) d = written (insert_history int8 env ty msg x d)"
| "item_step int8 env (FindParent q) d =
     (case getQueueID env (queue_Parent (qinfo q)) (queue_Partition (qinfo q)) d of
        (Inl e, d1) \<Rightarrow> (Inl (Errorf_v ''could not get parent queue from DB: '' e), d1)
      | (Inr parentId, d1) \<Rightarrow> (Inr [PutQueue q parentId], d1))"
| "item_step int8 env (PutQueue q parentId) d = written (write_queue env q parentId d)"
| "item_step int8 env (FindQueue a) d =
     (case getQueueID env (app_QueueName a) (app_Partition a) d of
        (Inl e, d1) \<Rightarrow> (Inl (Errorf_v ''could not get queue_id from DB: '' e), d1)
      | (Inr queueId, d1) \<Rightarrow> (Inr [PutApp a queueId], d1))"
| "item_step int8 env (PutApp a queueId) d = written (write_app env a queueId d)"

text \<open>The items of an attempt; \<open>uuid.New()\<close> of a utilization job is drawn when the attempt starts.\<close>

primrec start_job :: "pgenv \<Rightarrow> repo_job \<Rightarrow> db \<Rightarrow> db_item list \<times> db" where
  "start_job env (JPartitions ps) d = (map PutPartition ps, d)"
| "start_job env (JQueues qs) d = (map FindParent qs, d)"
| "start_job env (JNodes ns p) d = (map (\<lambda>n. PutNode n p) ns, d)"
| "start_job env (JApplications as) d = (map FindQueue as, d)"
| "start_job env (JNodeUtil nus) d = (case new_uuid env d of (u, d1) \<Rightarrow> (map (PutUtil u) nus, d1))"
| "start_job env (JHistory as cs) d =
     (map (\<lambda>a. PutHistory Hist_application ''could not update applications history into DB: ''
             (hist_TotalApplications a, hist_Timestamp a)) as @
      map (\<lambda>c. PutHistory Hist_container ''could not update containers history into DB: ''
             (chist_TotalContainers c, chist_Timestamp c)) cs, d)"

section \<open>An attempt on its own\<close>

primrec item_weight :: "db_item \<Rightarrow> nat" where
  "item_weight (PutPartition p) = 1"
| "item_weight (PutNode n p) = 1"
| "item_weight (PutUtil u nu) = 1"
| "item_weight (PutHistory ty msg x) = 1"
| "item_weight (FindParent q) = 2"
| "item_weight (PutQueue q pid) = 1"
| "item_weight (FindQueue a) = 2"
| "item_weight (PutApp a qid) = 1"

lemma item_step_weight:
  "item_step int8 env it d = (Inr js, d') \<Longrightarrow> sum_list (map item_weight js) < item_weight it"
  by (cases it) (auto simp: written_def split: prod.splits option.splits sum.splits)

function run_items :: "int8_codec \<Rightarrow> pgenv \<Rightarrow> db_item list \<Rightarrow> db \<Rightarrow> goerror option \<times> db" where
  "run_items int8 env [] d = (None, d)"
| "run_items int8 env (it # its) d =
     (case item_step int8 env it d of
        (Inl e, d1) \<Rightarrow> (Some e, d1)
      | (Inr js, d1) \<Rightarrow> run_items int8 env (js @ its) d1)"
  by pat_completeness auto
termination
  by (relation "measure (\<lambda>(int8, env, its, d). sum_list (map item_weight its))")
     (auto dest!: item_step_weight [OF sym])

lemma run_items_written:
  assumes "\<And>x d. item_step int8 env (f x) d = written (op x d)"
  shows "run_items int8 env (map f xs @ its) d =
    (case for_each op xs d of (Some e, d1) \<Rightarrow> (Some e, d1) | (None, d1) \<Rightarrow> run_items int8 env its d1)"
proof (induction xs arbitrary: d)
  case (Cons x xs)
  obtain r d1 where "op x d = (r, d1)" by fastforce
  with Cons show ?case by (cases r) (simp_all add: assms written_def)
qed simp

lemma run_items_history:
  "run_items int8 env (map (\<lambda>x. PutHistory ty msg (g x)) xs @ its) d =
    (case for_each (insert_history int8 env ty msg) (map g xs) d of
       (Some e, d1) \<Rightarrow> (Some e, d1) | (None, d1) \<Rightarrow> run_items int8 env its d1)"
  using run_items_written [of int8 env "PutHistory ty msg" "insert_history int8 env ty msg" "map g xs" its d]
  by (simp add: comp_def)

lemma run_items_history_only:
  "run_items int8 env (map (\<lambda>x. PutHistory ty msg (g x)) xs) d = for_each (insert_history int8 env ty msg) (map g xs) d"
  using run_items_history [of int8 env ty msg g xs "[]" d] by (auto split: prod.splits option.splits)

lemma run_items_queues: "run_items int8 env (map FindParent qs) d = UpsertQueues env qs d"
proof (induction qs arbitrary: d)
  case (Cons q qs)
  have u: "UpsertQueue env q d = (case getQueueID env (queue_Parent (qinfo q)) (queue_Partition (qinfo q)) d of
      (Inl e, d1) \<Rightarrow> (Some (Errorf_v ''could not get parent queue from DB: '' e), d1)
    | (Inr parentId, d1) \<Rightarrow> write_queue env q parentId d1)"
    unfolding UpsertQueue_def write_queue_def ..
  show ?case
    using Cons.IH unfolding UpsertQueues_def
    by (auto simp: u written_def split: prod.splits sum.splits option.splits)
qed (simp add: UpsertQueues_def)

lemma run_items_apps: "run_items int8 env (map FindQueue as) d = UpsertApplications env as d"
proof (induction as arbitrary: d)
  case (Cons a as)
  have u: "UpsertApplication env a d = (case getQueueID env (app_QueueName a) (app_Partition a) d of
      (Inl e, d1) \<Rightarrow> (Some (Errorf_v ''could not get queue_id from DB: '' e), d1)
    | (Inr queueId, d1) \<Rightarrow> write_app env a queueId d1)"
    unfolding UpsertApplication_def write_app_def ..
  show ?case
    using Cons.IH unfolding UpsertApplications_def
    by (auto simp: u written_def split: prod.splits sum.splits option.splits)
qed (simp add: UpsertApplications_def)

lemma run_items_job: "(case start_job env job d of (its, d1) \<Rightarrow> run_items int8 env its d1) = run_job int8 env job d"
proof (cases job)
  case (JPartitions ps)
  then show ?thesis
    using run_items_written [of int8 env PutPartition "UpsertPartition env" ps "[]" d]
    by (auto simp: run_job_def UpsertPartitions_def split: prod.splits option.splits)
next
  case (JNodes ns p)
  then show ?thesis
    using run_items_written [of int8 env "\<lambda>x. PutNode (fst x) (snd x)" "UpsertNode env" "map (\<lambda>n. (n, p)) ns" "[]" d]
    by (auto simp: run_job_def UpsertNodes_def comp_def split: prod.splits option.splits)
next
  case (JNodeUtil nus)
  obtain u d1 where u: "new_uuid env d = (u, d1)" by fastforce
  show ?thesis
    using run_items_written [of int8 env "PutUtil u" "InsertNodeUtilization env u" nus "[]" d1] JNodeUtil u
    by (auto simp: run_job_def InsertNodeUtilizations_def split: prod.splits option.splits)
next
  case (JHistory as cs)
  then show ?thesis
    by (auto simp: run_job_def UpdateHistory_def run_items_history run_items_history_only
        split: prod.splits option.splits)
qed (simp_all add: run_job_def run_items_queues run_items_apps)

section \<open>Attempts interleaved\<close>

text \<open>
  The database and the items that the running attempts still have to do. \<open>launch\<close> is the start of a job
  or of one of its retries, and of an event's \<open>UpsertApplications\<close>; \<open>statement\<close> is the next statement of
  one of the attempts, and an error ends the attempt.
\<close>

record job_sys =
  sys_db :: db
  attempts_of :: "db_item list list"

inductive sys_step :: "int8_codec \<Rightarrow> pgenv \<Rightarrow> job_sys \<Rightarrow> job_sys \<Rightarrow> bool" for int8 env where
  launch: "start_job env job (sys_db s) = (its, d) \<Longrightarrow>
    sys_step int8 env s \<lparr>sys_db = d, attempts_of = attempts_of s @ [its]\<rparr>"
| statement: "i < length (attempts_of s) \<Longrightarrow> attempts_of s ! i = it # its \<Longrightarrow>
    item_step int8 env it (sys_db s) = (r, d) \<Longrightarrow>
    sys_step int8 env s \<lparr>sys_db = d, attempts_of = (attempts_of s)[i := (case r of Inl e \<Rightarrow> [] | Inr js \<Rightarrow> js @ its)]\<rparr>"

inductive sys_reach :: "int8_codec \<Rightarrow> pgenv \<Rightarrow> job_sys \<Rightarrow> bool" for int8 env where
  init: "sys_reach int8 env \<lparr>sys_db = empty_db, attempts_of = []\<rparr>"
| step: "sys_reach int8 env s \<Longrightarrow> sys_step int8 env s s' \<Longrightarrow> sys_reach int8 env s'"

text \<open>What an item relies on: the identifiers it carries are those of rows that are still there.\<close>

definition row_there :: "db \<Rightarrow> string \<Rightarrow> string \<times> string \<Rightarrow> bool" where
  "row_there d i k \<longleftrightarrow> (\<exists>r \<in> set (queues_t d). qr_id r = i \<and> queue_key r = k)"

fun item_ok :: "pgenv \<Rightarrow> db \<Rightarrow> db_item \<Rightarrow> bool" where
  "item_ok env d (PutUtil u nu) \<longleftrightarrow> u \<in> drawn env d"
| "item_ok env d (PutQueue q parentId) \<longleftrightarrow>
     (case parentId of
        None \<Rightarrow> queue_Parent (qinfo q) = []
      | Some i \<Rightarrow> queue_Parent (qinfo q) \<noteq> [] \<and> row_there d i (queue_Partition (qinfo q), queue_Parent (qinfo q)))"
| "item_ok env d (PutApp a queueId) \<longleftrightarrow>
     (case queueId of None \<Rightarrow> True | Some i \<Rightarrow> row_there d i (app_Partition a, app_QueueName a))"
| "item_ok env d it \<longleftrightarrow> True"

text \<open>What every statement guarantees to the others.\<close>

definition stays :: "pgenv \<Rightarrow> db \<Rightarrow> db \<Rightarrow> bool" where
  "stays env d d' \<longleftrightarrow> drawn env d \<subseteq> drawn env d' \<and> (\<forall>i k. row_there d i k \<longrightarrow> row_there d' i k) \<and>
     (\<forall>k. live k (queues_t d) \<longrightarrow> live k (queues_t d')) \<and>
     app_key ` set (applications_t d) \<subseteq> app_key ` set (applications_t d')"

lemma item_ok_stays: "item_ok env d it \<Longrightarrow> stays env d d' \<Longrightarrow> item_ok env d' it"
  by (cases it) (auto simp: stays_def split: option.splits)

lemma keeps_stays:
  "keeps clear d d' \<Longrightarrow> queues_t d' = queues_t d \<Longrightarrow>
     app_key ` set (applications_t d) \<subseteq> app_key ` set (applications_t d') \<Longrightarrow> stays env d d'"
  by (simp add: stays_def row_there_def keeps_drawn)

lemma written_snd [simp]: "snd (written res) = snd res"
  by (simp add: written_def split: prod.split option.split)

lemma write_queue_cases:
  assumes "write_queue env q pid d = (res, d')"
  obtains (failed) e where "res = Some e" "queues_t d' = queues_t d" "keeps no_queues d d'"
    | (ok) now where "res = None" "keeps no_queues d d'" "uuidCtr d' = Suc (uuidCtr d)"
        "insert_on_conflict queue_key qr_id queue_merge
           (new_queue_row (freshUUID env (uuidCtr d)) pid now q) (queues_t d) = Inr (queues_t d')"
proof -
  obtain u d1 where u: "new_uuid env d = (u, d1)" by fastforce
  let ?new = "new_queue_row u pid (unix_now env d1) q"
  obtain r2 where x: "pg_exec env (upsert_queue_stmt ?new) d1 = (r2, d')"
    using assms u by (auto simp: write_queue_def split: prod.splits option.splits)
  have "keeps no_queues d1 d'"
    using x by (rule pg_exec_keeps)
      (auto simp: upsert_queue_stmt_def put_queues_def keeps_def clear_defs split: sum.splits if_splits)
  with new_uuid_keeps [OF u] have k: "keeps no_queues d d'" by (blast intro: keeps_trans)
  have d1: "queues_t d1 = queues_t d" "uuidCtr d1 = Suc (uuidCtr d)" "u = freshUUID env (uuidCtr d)"
    using u by (auto simp: new_uuid_def)
  from x show thesis
  proof (cases rule: pg_exec_cases)
    case (failed e)
    then show thesis using assms u x d1 k by (intro that(1)) (auto simp: write_queue_def)
  next
    case ok
    then show thesis using assms u x d1 k
      by (intro that(2) [of "unix_now env d1"])
        (auto simp: write_queue_def upsert_queue_stmt_def put_queues_def split: if_splits sum.splits)
  qed
qed

lemma upsert_rows_there:
  assumes "insert_on_conflict queue_key qr_id queue_merge new (queues_t d) = Inr (queues_t d')" and "row_there d i k"
  shows "row_there d' i k"
proof -
  obtain r where r: "r \<in> set (queues_t d)" "qr_id r = i" "queue_key r = k" using assms(2) by (auto simp: row_there_def)
  from assms(1) show ?thesis
  proof (cases rule: queue_tab.upsert_cases)
    case update
    let ?f = "\<lambda>r. if queue_key r = queue_key new then queue_merge r new else r"
    have "?f r \<in> set (queues_t d')" unfolding update(2) set_map using r(1) by (rule imageI)
    moreover have "qr_id (?f r) = i" "queue_key (?f r) = k" using same_linksD(1,2) [OF same_links_merge] r(2,3) by auto
    ultimately show ?thesis unfolding row_there_def by blast
  next
    case insert
    then show ?thesis using r by (auto simp: row_there_def)
  qed
qed

lemma upsert_live:
  assumes "insert_on_conflict queue_key qr_id queue_merge new rs = Inr rs'" and "live k rs"
  shows "live k rs'"
  using assms(1)
proof (cases rule: queue_tab.upsert_cases)
  case update
  obtain r where r: "r \<in> set rs" "queue_key r = k" "qr_deleted_at r = None"
    using assms(2) by (auto simp: live_def list_ex_iff)
  let ?f = "\<lambda>r. if queue_key r = queue_key new then queue_merge r new else r"
  have "?f r \<in> set rs'" unfolding update(2) set_map using r(1) by (rule imageI)
  moreover have "queue_key (?f r) = k" "qr_deleted_at (?f r) = None"
    using r(2,3) same_linksD(2) [OF same_links_merge] by (auto simp: queue_merge_def Let_def)
  ultimately show ?thesis unfolding live_def list_ex_iff by blast
next
  case insert
  then show ?thesis using assms(2) by (simp add: live_def)
qed

lemma apps_inv_stays:
  assumes "apps_inv env d" and "keeps no_queues d d'" and "stays env d d'"
  shows "apps_inv env d'"
  using assms keeps_fields(5) [OF assms(2)]
  by (auto simp: apps_inv_def app_refs_def stays_def row_there_def)

lemma write_queue_inv:
  assumes "write_queue env q pid d = (res, d')" and "inj (freshUUID env)" and "db_inv env d"
    and "item_ok env d (PutQueue q pid)"
  shows "db_inv env d' \<and> stays env d d'"
  using assms(1)
proof (cases rule: write_queue_cases)
  case (failed e)
  have "stays env d d'" using keeps_stays [OF failed(3,2)] keeps_fields(5) [OF failed(3)] by simp
  with failed assms(3) show ?thesis
    using invs_mono [OF keeps_drawn [OF failed(3)], of env] keeps_fields(5) [OF failed(3)]
    by (simp add: db_inv_def)
next
  case (ok now)
  let ?new = "new_queue_row (freshUUID env (uuidCtr d)) pid now q"
  have "parent_resolved (queues_t d) ?new"
    using assms(4) by (auto simp: parent_resolved_def row_there_def split: option.splits)
  then have "queue_inv env d'"
    using queue_inv_upsert [OF _ assms(2) ok(4) _ _ ok(3)] assms(3) by (simp add: db_inv_def)
  moreover have st: "stays env d d'"
    using upsert_rows_there [OF ok(4)] upsert_live [OF ok(4)] keeps_drawn [OF ok(2)] keeps_fields(5) [OF ok(2)]
    by (simp add: stays_def)
  moreover have "apps_inv env d'" using apps_inv_stays [OF _ ok(2) st] assms(3) by (simp add: db_inv_def)
  ultimately show ?thesis
    using assms(3) invs_mono [OF keeps_drawn [OF ok(2)], of env] keeps_fields(5) [OF ok(2)] by (simp add: db_inv_def)
qed

lemma write_app_keeps:
  assumes "write_app env a qid d = (res, d')"
  shows "keeps no_apps d d'"
proof -
  obtain u d1 where u: "new_uuid env d = (u, d1)" by fastforce
  have x: "pg_exec env (upsert_app_stmt u qid a) d1 = (res, d')" using assms u by (simp add: write_app_def)
  have "keeps no_apps d1 d'"
    using x by (rule pg_exec_keeps)
      (auto simp: upsert_app_stmt_def upsert_stmt_def put_apps_def keeps_def clear_defs split: sum.splits option.splits)
  with new_uuid_keeps [OF u] show ?thesis by (blast intro: keeps_trans)
qed

lemma write_app_keys:
  assumes "write_app env a qid d = (res, d')"
  shows "app_key ` set (applications_t d) \<subseteq> app_key ` set (applications_t d')"
    and "res = None \<Longrightarrow> dao_app_key a \<in> app_key ` set (applications_t d')"
proof -
  have "app_key ` set (applications_t d') = insert (dao_app_key a) (app_key ` set (applications_t d)) \<or>
      res \<noteq> None \<and> applications_t d' = applications_t d"
  proof (cases qid)
    case None
    then show ?thesis
      using assms by (auto simp: write_app_def new_uuid_def upsert_app_stmt_def elim!: pg_exec_cases)
  next
    case (Some i)
    then have "write_application env (i, a) d = (res, d')"
      using assms by (simp add: write_app_def write_application_def upsert_app_stmt_def [abs_def])
    then show ?thesis
    proof (cases rule: app_tab.op_cases)
      case ok
      from app_tab.upsert_keys [OF ok(3)] show ?thesis by simp
    qed simp
  qed
  then show "app_key ` set (applications_t d) \<subseteq> app_key ` set (applications_t d')"
    and "res = None \<Longrightarrow> dao_app_key a \<in> app_key ` set (applications_t d')" by auto
qed

lemma write_app_inv:
  assumes "write_app env a qid d = (res, d')" and "inj (freshUUID env)" and "db_inv env d"
    and "item_ok env d (PutApp a qid)"
  shows "db_inv env d' \<and> stays env d d'"
proof -
  note k = write_app_keeps [OF assms(1)]
  note f = keeps_fields(6) [OF k]
  have "apps_inv env d'"
  proof (cases qid)
    case None
    then have "applications_t d' = applications_t d"
      using assms(1) by (auto simp: write_app_def new_uuid_def upsert_app_stmt_def elim!: pg_exec_cases)
    then show ?thesis
      using assms(3) invs_mono(6) [OF keeps_drawn [OF k]] f by (simp add: db_inv_def)
  next
    case (Some i)
    then obtain r where r: "r \<in> set (queues_t d)" "qr_id r = i" "queue_key r = (app_Partition a, app_QueueName a)"
      using assms(4) by (auto simp: row_there_def)
    have w: "write_application env (i, a) d = (res, d')"
      using assms(1) Some by (simp add: write_app_def write_application_def upsert_app_stmt_def [abs_def])
    have inv: "table_wf app_key ar_id (applications_t d)" "app_tab.ids_drawn env d" "app_refs d"
      using assms(3) by (simp_all add: db_inv_def apps_inv_def app_tab.ids_drawn_def)
    have "app_refs d'"
      using w
    proof (cases rule: app_tab.op_cases)
      case (failed e)
      then show ?thesis using inv(3) f by (simp add: app_refs_def)
    next
      case ok
      then show ?thesis using app_refs_upsert [OF inv(3) r(1,3)] r(2) f by auto
    qed
    then show ?thesis
      using app_tab.op_keeps [OF w assms(2)] inv by (simp add: apps_inv_def app_tab.ids_drawn_def)
  qed
  moreover have "stays env d d'" using keeps_stays [OF k] f write_app_keys [OF assms(1)] by simp
  ultimately show ?thesis
    using assms(3) invs_mono [OF keeps_drawn [OF k], of env] f by (simp add: db_inv_def)
qed

lemma find_ok:
  assumes "getQueueID env n p d = (Inr r, d')"
  shows "(case r of None \<Rightarrow> n = [] | Some i \<Rightarrow> n \<noteq> [] \<and> row_there d' i (p, n))"
  using assms
proof (cases rule: getQueueID_cases)
  case (found x k)
  then show ?thesis using find_alive_queueD [OF found(4)] by (auto simp: row_there_def)
qed auto

lemma getQueueID_inv:
  assumes "getQueueID env n p d = (r, d')" and "db_inv env d"
  shows "db_inv env d' \<and> stays env d d'"
proof -
  have q: "queues_t d' = queues_t d" using assms(1) by (auto elim: getQueueID_cases)
  have "applications_t d' = applications_t d" "partitions_t d' = partitions_t d" "nodes_t d' = nodes_t d"
      "nodes_util_t d' = nodes_util_t d" "history_t d' = history_t d"
    using assms(1) by (auto elim: getQueueID_cases)
  moreover have k: "keeps no_queues d d'" using getQueueID_keeps [OF assms(1)] .
  ultimately show ?thesis
    using q assms(2) invs_mono [OF keeps_drawn [OF k], of env] keeps_stays [OF k q, of env] by (simp add: db_inv_def)
qed

lemma job_inv_stays:
  assumes "run_job int8 env job d = (x, d')" and "keeps clear d d'" and "queues_t d' = queues_t d"
    and "applications_t d' = applications_t d" and "inj (freshUUID env)" and "db_inv env d"
  shows "db_inv env d' \<and> stays env d d'"
  using run_job_inv [OF assms(5,6), of int8 job] keeps_stays [OF assms(2,3)] assms(1,4) by simp

lemma written_Inr: "written res = (Inr js, d') \<Longrightarrow> js = []"
  by (auto simp: written_def split: prod.splits option.splits)

lemma for_each_single: "snd (for_each f [x] d) = snd (f x d)"
  by (simp split: prod.split option.split)

text \<open>Every statement keeps the invariant and what the other items rely on.\<close>

lemma item_step_keeps:
  assumes "inj (freshUUID env)" and "db_inv env d" and "item_ok env d it"
  shows "db_inv env (snd (item_step int8 env it d)) \<and> stays env d (snd (item_step int8 env it d))"
proof (cases it)
  case (PutPartition p)
  obtain x d' where u: "UpsertPartitions env [p] d = (x, d')" by fastforce
  then have "snd (item_step int8 env it d) = d'"
    using for_each_single [of "UpsertPartition env" p d] by (simp add: PutPartition UpsertPartitions_def)
  with job_inv_stays [of int8 env "JPartitions [p]" d x d', OF _ UpsertPartitions_keeps [OF u] _ _ assms(1,2)]
    keeps_fields(1) [OF UpsertPartitions_keeps [OF u]] u
  show ?thesis by (simp add: run_job_def)
next
  case (PutNode n p)
  obtain x d' where u: "UpsertNodes env [n] p d = (x, d')" by fastforce
  then have "snd (item_step int8 env it d) = d'"
    using for_each_single [of "UpsertNode env" "(n, p)" d] by (simp add: PutNode UpsertNodes_def)
  with job_inv_stays [of int8 env "JNodes [n] p" d x d', OF _ UpsertNodes_keeps [OF u] _ _ assms(1,2)]
    keeps_fields(2) [OF UpsertNodes_keeps [OF u]] u
  show ?thesis by (simp add: run_job_def)
next
  case (PutUtil u nu)
  obtain x d' where i: "InsertNodeUtilizations env u [nu] d = (x, d')" by fastforce
  then have d': "snd (item_step int8 env it d) = d'"
    using for_each_single [of "InsertNodeUtilization env u" nu d] by (simp add: PutUtil InsertNodeUtilizations_def)
  note k = InsertNodeUtilizations_keeps [OF i]
  have "util_inv env d'" using insert_util_inv [OF i] assms(2,3) PutUtil by (simp add: db_inv_def)
  then show ?thesis
    using assms(2) keeps_fields(3) [OF k] invs_mono [OF keeps_drawn [OF k], of env] keeps_stays [OF k, of env] d'
    by (simp add: db_inv_def)
next
  case (PutHistory ty msg x)
  obtain y d' where i: "insert_history int8 env ty msg x d = (y, d')" by fastforce
  then have d': "snd (item_step int8 env it d) = d'" by (simp add: PutHistory)
  note k = insert_history_keeps [OF i]
  have "history_inv env d'" using insert_history_inv [OF i] assms(2) by (simp add: db_inv_def)
  then show ?thesis
    using assms(2) keeps_fields(4) [OF k] invs_mono [OF keeps_drawn [OF k], of env] keeps_stays [OF k, of env] d'
    by (simp add: db_inv_def)
next
  case (FindParent q)
  obtain x d1 where g: "getQueueID env (queue_Parent (qinfo q)) (queue_Partition (qinfo q)) d = (x, d1)" by fastforce
  then have "snd (item_step int8 env it d) = d1" by (cases x) (simp_all add: FindParent)
  with getQueueID_inv [OF g assms(2)] show ?thesis by simp
next
  case (PutQueue q pid)
  obtain x d1 where w: "write_queue env q pid d = (x, d1)" by fastforce
  then show ?thesis using write_queue_inv [OF w assms(1,2)] assms(3) PutQueue by simp
next
  case (FindQueue a)
  obtain x d1 where g: "getQueueID env (app_QueueName a) (app_Partition a) d = (x, d1)" by fastforce
  then have "snd (item_step int8 env it d) = d1" by (cases x) (simp_all add: FindQueue)
  with getQueueID_inv [OF g assms(2)] show ?thesis by simp
next
  case (PutApp a qid)
  obtain x d1 where w: "write_app env a qid d = (x, d1)" by fastforce
  then show ?thesis using write_app_inv [OF w assms(1,2)] assms(3) PutApp by simp
qed

text \<open>The items that replace an item are in order.\<close>

lemma item_step_items_ok:
  assumes "item_step int8 env it d = (Inr js, d')"
  shows "list_all (item_ok env d') js"
proof (cases it)
  case (FindParent q)
  with assms obtain pid where g: "getQueueID env (queue_Parent (qinfo q)) (queue_Partition (qinfo q)) d = (Inr pid, d')"
      "js = [PutQueue q pid]"
    by (auto split: prod.splits sum.splits)
  from find_ok [OF g(1)] g(2) show ?thesis by (auto split: option.splits)
next
  case (FindQueue a)
  with assms obtain qid where g: "getQueueID env (app_QueueName a) (app_Partition a) d = (Inr qid, d')"
      "js = [PutApp a qid]"
    by (auto split: prod.splits sum.splits)
  from find_ok [OF g(1)] g(2) show ?thesis by (auto split: option.splits)
qed (use assms in \<open>auto dest: written_Inr\<close>)

lemma start_job_ok:
  assumes "start_job env job d = (its, d')" and "db_inv env d"
  shows "db_inv env d' \<and> stays env d d' \<and> list_all (item_ok env d') its"
proof (cases job)
  case (JNodeUtil nus)
  obtain u d1 where u: "new_uuid env d = (u, d1)" by fastforce
  have d1: "d' = d1" "its = map (PutUtil u) nus" using assms(1) JNodeUtil u by simp_all
  have k: "keeps no_util d d1" using new_uuid_keeps [OF u] .
  have "u \<in> drawn env d1" using u by (auto simp: new_uuid_def drawn_def)
  moreover have "nodes_util_t d1 = nodes_util_t d" using u by (auto simp: new_uuid_def)
  ultimately show ?thesis
    using assms(2) keeps_fields(3) [OF k] invs_mono [OF keeps_drawn [OF k], of env] keeps_stays [OF k, of env] d1
    by (simp add: db_inv_def list_all_iff)
qed (use assms in \<open>auto simp: list_all_iff stays_def\<close>)

lemma list_all_update: "list_all P xs \<Longrightarrow> P x \<Longrightarrow> list_all P (xs[i := x])"
  by (cases "i < length xs") (auto simp: list_all_length nth_list_update)

definition sys_inv :: "pgenv \<Rightarrow> job_sys \<Rightarrow> bool" where
  "sys_inv env s \<longleftrightarrow> db_inv env (sys_db s) \<and> list_all (list_all (item_ok env (sys_db s))) (attempts_of s)"

lemma attempts_stay:
  "list_all (list_all (item_ok env d)) as \<Longrightarrow> stays env d d' \<Longrightarrow> list_all (list_all (item_ok env d')) as"
  by (auto simp: list_all_iff intro: item_ok_stays)

lemma sys_inv_step: "sys_step int8 env s s' \<Longrightarrow> inj (freshUUID env) \<Longrightarrow> sys_inv env s \<Longrightarrow> sys_inv env s'"
proof (induction rule: sys_step.induct)
  case (launch job s its d)
  then show ?case using start_job_ok [OF launch.hyps] attempts_stay by (auto simp: sys_inv_def)
next
  case (statement i s it its r d)
  have ok: "list_all (item_ok env (sys_db s)) (it # its)"
    using statement by (metis list_all_length sys_inv_def)
  have d: "db_inv env d" "stays env (sys_db s) d"
    using item_step_keeps [of env "sys_db s" it int8] statement ok by (simp_all add: sys_inv_def)
  have "list_all (item_ok env d) (case r of Inl e \<Rightarrow> [] | Inr js \<Rightarrow> js @ its)"
    using item_step_items_ok [of int8 env it "sys_db s" _ d] statement.hyps(3) ok item_ok_stays [OF _ d(2)]
    by (auto simp: list_all_iff split: sum.split)
  moreover have "list_all (list_all (item_ok env d)) (attempts_of s)"
    using statement.prems(2) attempts_stay d(2) by (auto simp: sys_inv_def)
  ultimately show ?case
    using d(1) by (simp add: sys_inv_def list_all_update)
qed

section \<open>Progress of an application attempt\<close>

definition queue_live :: "db \<Rightarrow> ApplicationDAOInfo \<Rightarrow> bool" where
  "queue_live d a \<longleftrightarrow> app_QueueName a \<noteq> [] \<and> live (app_Partition a, app_QueueName a) (queues_t d)"

definition app_stored :: "db \<Rightarrow> ApplicationDAOInfo \<Rightarrow> bool" where
  "app_stored d a \<longleftrightarrow> dao_app_key a \<in> app_key ` set (applications_t d)"

text \<open>How far an attempt to store \<open>as\<close> has come: an application is stored, or it is still to do.\<close>

definition app_items :: "ApplicationDAOInfo list \<Rightarrow> db_item list \<Rightarrow> bool" where
  "app_items rest its \<longleftrightarrow> its = map FindQueue rest \<or>
     (\<exists>a i rest'. rest = a # rest' \<and> its = PutApp a (Some i) # map FindQueue rest')"

definition app_progress :: "ApplicationDAOInfo list \<Rightarrow> db \<Rightarrow> db_item list \<Rightarrow> bool" where
  "app_progress as d its \<longleftrightarrow> list_all (queue_live d) as \<and>
     (\<exists>rest. app_items rest its \<and> set rest \<subseteq> set as \<and> (\<forall>a \<in> set as - set rest. app_stored d a))"

lemma queue_live_stays: "stays env d d' \<Longrightarrow> queue_live d a \<Longrightarrow> queue_live d' a"
  by (simp add: stays_def queue_live_def)

lemma app_stored_stays: "stays env d d' \<Longrightarrow> app_stored d a \<Longrightarrow> app_stored d' a"
  by (auto simp: stays_def app_stored_def)

lemma app_progress_stays: "stays env d d' \<Longrightarrow> app_progress as d its \<Longrightarrow> app_progress as d' its"
  unfolding app_progress_def list_all_iff by (metis app_stored_stays queue_live_stays)

lemma app_items_Cons:
  assumes "app_items rest (it # its)"
  obtains (find) a rest' where "rest = a # rest'" "it = FindQueue a" "its = map FindQueue rest'"
    | (put) a i rest' where "rest = a # rest'" "it = PutApp a (Some i)" "its = map FindQueue rest'"
  using assms unfolding app_items_def by (cases rest) auto

lemma FindQueue_finds:
  assumes "healthy_env env" and "queue_live d a"
  shows "\<exists>i d'. item_step int8 env (FindQueue a) d = (Inr [PutApp a (Some i)], d')"
proof -
  obtain r d1 where "getQueueID env (app_QueueName a) (app_Partition a) d = (Inr r, d1)"
    using getQueueID_live [OF assms(1)] assms(2) by (metis queue_live_def)
  with find_ok [OF this] assms(2) show ?thesis by (cases r) (auto simp: queue_live_def)
qed

lemma PutApp_writes:
  assumes "healthy_env env" and "apps_inv env d"
  shows "\<exists>d'. item_step int8 env (PutApp a (Some i)) d = (Inr [], d') \<and> app_stored d' a"
proof -
  have "app_tab.ids_drawn env d" using assms(2) by (simp add: apps_inv_def app_tab.ids_drawn_def)
  then obtain d' where "write_application env (i, a) d = (None, d')"
    by (rule app_tab.op_succeeds [OF assms(1)])
  then have "write_app env a (Some i) d = (None, d')"
    by (simp add: write_app_def write_application_def upsert_app_stmt_def [abs_def])
  with write_app_keys(2) [OF this] show ?thesis by (simp add: written_def app_stored_def)
qed

lemma app_progress_statement:
  assumes "healthy_env env" and "db_inv env d" and "app_progress as d (it # its)"
    and "list_all (item_ok env d) (it # its)"
  shows "\<exists>js d'. item_step int8 env it d = (Inr js, d') \<and> app_progress as d' (js @ its)"
proof -
  let ?d' = "snd (item_step int8 env it d)"
  have st: "stays env d ?d'"
    using item_step_keeps [OF _ assms(2), of it int8] assms(1,4) by (simp add: healthy_env_def)
  obtain rest where rest: "app_items rest (it # its)"
    "set rest \<subseteq> set as" "\<forall>a \<in> set as - set rest. app_stored d a" "list_all (queue_live d) as"
    using assms(3) unfolding app_progress_def by blast
  then have l': "list_all (queue_live ?d') as" "\<forall>a \<in> set as - set rest. app_stored ?d' a"
    using queue_live_stays [OF st] app_stored_stays [OF st] by (auto simp: list_all_iff)
  from rest(1) show ?thesis
  proof (cases rule: app_items_Cons)
    case (find a rest')
    obtain i d' where f: "item_step int8 env it d = (Inr [PutApp a (Some i)], d')"
      using FindQueue_finds [OF assms(1), of d a int8] rest(2,4) find by (auto simp: list_all_iff)
    have "app_items rest ([PutApp a (Some i)] @ its)" using find by (simp add: app_items_def)
    then have "app_progress as d' ([PutApp a (Some i)] @ its)"
      unfolding app_progress_def using l' rest(2) f by (intro conjI exI [of _ rest]) simp_all
    with f show ?thesis by blast
  next
    case (put a i rest')
    obtain d' where f: "item_step int8 env it d = (Inr [], d')" "app_stored d' a"
      using PutApp_writes [OF assms(1), of d int8 a i] assms(2) put by (auto simp: db_inv_def)
    from f(1) have d': "?d' = d'" by simp
    have "app_items rest' ([] @ its)" using put by (simp add: app_items_def)
    then have "app_progress as d' ([] @ its)"
      unfolding app_progress_def using l' rest(2) f(2) put(1) d' by (intro conjI exI [of _ rest']) auto
    with f show ?thesis by blast
  qed
qed

lemma app_progress_step:
  assumes "sys_step int8 env s s'" and "healthy_env env" and "sys_inv env s"
    and "i < length (attempts_of s)" and "app_progress as (sys_db s) (attempts_of s ! i)"
  shows "i < length (attempts_of s') \<and> app_progress as (sys_db s') (attempts_of s' ! i)"
  using assms(1)
proof cases
  case (launch job its d)
  then show ?thesis
    using start_job_ok [OF launch(2)] assms(3-5) app_progress_stays by (auto simp: sys_inv_def nth_append)
next
  case (statement j it its r d)
  have ok: "list_all (item_ok env (sys_db s)) (it # its)"
    using assms(3) statement(2,3) by (metis list_all_length sys_inv_def)
  have inv: "inj (freshUUID env)" "db_inv env (sys_db s)" using assms(2,3) by (simp_all add: healthy_env_def sys_inv_def)
  have st: "stays env (sys_db s) d"
    using item_step_keeps [OF inv, of it int8] statement(4) ok by simp
  show ?thesis
  proof (cases "i = j")
    case True
    with app_progress_statement [OF assms(2) inv(2) _ ok, of as int8] assms(5) statement show ?thesis by auto
  next
    case False
    with app_progress_stays [OF st assms(5)] assms(4) statement(1) show ?thesis by simp
  qed
qed

lemma sys_reach_inv: "sys_reach int8 env s \<Longrightarrow> inj (freshUUID env) \<Longrightarrow> sys_inv env s"
proof (induction rule: sys_reach.induct)
  case init
  then show ?case by (simp add: sys_inv_def db_inv_empty)
next
  case (step s s')
  then show ?case using sys_inv_step by blast
qed

lemma app_progress_steps:
  assumes "(sys_step int8 env)\<^sup>*\<^sup>* s s'" and "healthy_env env" and "sys_inv env s"
    and "i < length (attempts_of s)" and "app_progress as (sys_db s) (attempts_of s ! i)"
  shows "sys_inv env s' \<and> i < length (attempts_of s') \<and> app_progress as (sys_db s') (attempts_of s' ! i)"
  using assms(1)
proof (induction rule: rtranclp_induct)
  case base
  then show ?case using assms(3-5) by simp
next
  case (step t t')
  then show ?case
    using app_progress_step [OF step.hyps(2) assms(2), of i as] sys_inv_step [OF step.hyps(2)] assms(2)
    by (simp add: healthy_env_def)
qed

section \<open>Properties\<close>

text \<open>
  C3. Statements of concurrent jobs interleave in any way, retries and events included, and any of them may
  fail: with identifiers that are never drawn twice the database always has its invariant. Keys and
  identifiers are unique, the parent of a queue's row is the row of the queue it names, and an
  application refers to the row of its queue. An attempt that is not interrupted does what the job does.
\<close>

theorem interleaved_jobs_keep_invariant:
  assumes "inj (freshUUID env)" and "sys_reach int8 env s"
  shows "db_inv env (sys_db s) \<and>
    (case start_job env job (sys_db s) of (its, d) \<Rightarrow> run_items int8 env its d) = run_job int8 env job (sys_db s)"
  using sys_reach_inv [OF assms(2,1)] by (simp add: sys_inv_def run_items_job)

text \<open>An application job overtakes the queue job after its first queue is stored.\<close>

definition demo_overtaken :: job_sys where
  "demo_overtaken = \<lparr>sys_db = snd (item_step demo_int8 demo_env (FindParent demo_tree) empty_db),
     attempts_of = [[PutQueue demo_tree None], [FindQueue demo_app]]\<rparr>"

lemma demo_overtaken_reach: "sys_reach demo_int8 demo_env demo_overtaken"
proof -
  have "sys_reach demo_int8 demo_env \<lparr>sys_db = empty_db, attempts_of = [[FindParent demo_tree]]\<rparr>"
    using sys_reach.step [OF sys_reach.init sys_step.launch [of demo_env "JQueues [demo_tree]"]] by simp
  then have "sys_reach demo_int8 demo_env \<lparr>sys_db = empty_db, attempts_of = [[FindParent demo_tree], [FindQueue demo_app]]\<rparr>"
    using sys_reach.step [OF _ sys_step.launch [of demo_env "JApplications [demo_app]"]] by fastforce
  from sys_reach.step [OF this sys_step.statement [of 0 _ "FindParent demo_tree" "[]"]] show ?thesis
    by (simp add: demo_overtaken_def getQueueID_def demo_tree_def)
qed

theorem interleaved_jobs_keep_invariant_witness:
  "attempts_of demo_overtaken = [[PutQueue demo_tree None], [FindQueue demo_app]] \<and> db_inv demo_env (sys_db demo_overtaken)"
  using interleaved_jobs_keep_invariant [OF _ demo_overtaken_reach, of "JQueues []"] healthy_demo_env
  by (simp add: healthy_env_def demo_overtaken_def)

text \<open>
  C5. An attempt to store applications whose queues have live rows, on a connection that works: whatever
  the other attempts write in between, its next statement never fails, and once it has nothing left to do
  all its applications are stored.
\<close>

theorem application_attempt_completes:
  assumes "healthy_env env" and "sys_reach int8 env s"
    and "i < length (attempts_of s)" and "attempts_of s ! i = map FindQueue as"
    and "\<forall>a \<in> set as. app_QueueName a \<noteq> [] \<and> live (app_Partition a, app_QueueName a) (queues_t (sys_db s))"
    and "(sys_step int8 env)\<^sup>*\<^sup>* s s'"
  shows "case attempts_of s' ! i of
      it # its \<Rightarrow> (\<exists>js d'. item_step int8 env it (sys_db s') = (Inr js, d'))
    | [] \<Rightarrow> dao_app_key ` set as \<subseteq> app_key ` set (applications_t (sys_db s'))"
proof -
  have "app_progress as (sys_db s) (attempts_of s ! i)"
    using assms(4,5) by (auto simp: app_progress_def app_items_def queue_live_def list_all_iff)
  from app_progress_steps [OF assms(6,1) _ assms(3) this] sys_reach_inv [OF assms(2)] assms(1)
  have p: "sys_inv env s'" "i < length (attempts_of s')" "app_progress as (sys_db s') (attempts_of s' ! i)"
    by (simp_all add: healthy_env_def)
  show ?thesis
  proof (cases "attempts_of s' ! i")
    case Nil
    with p(3) show ?thesis by (auto simp: app_progress_def app_items_def app_stored_def)
  next
    case (Cons it its)
    have "list_all (item_ok env (sys_db s')) (it # its)"
      using p(1,2) Cons by (metis list_all_length sys_inv_def)
    with app_progress_statement [OF assms(1), of "sys_db s'" as it its int8] p Cons show ?thesis
      by (auto simp: sys_inv_def)
  qed
qed

text \<open>The application job is launched when the row of its queue is there.\<close>

definition demo_app_waiting :: job_sys where
  "demo_app_waiting = \<lparr>sys_db = snd (write_queue demo_env demo_tree None empty_db), attempts_of = [[], [FindQueue demo_app]]\<rparr>"

lemma demo_write_queue:
  "\<exists>d. item_step demo_int8 demo_env (PutQueue demo_tree None) empty_db = (Inr [], d) \<and> d = sys_db demo_app_waiting \<and>
     live (''default'', ''root'') (queues_t d)"
  by (simp add: demo_app_waiting_def write_queue_def written_def new_uuid_def upsert_queue_stmt_def
      put_queues_def insert_on_conflict_def insert_row_def new_queue_row_def demo_tree_def empty_db_def live_def queue_key_def)

lemma demo_app_waiting_reach: "sys_reach demo_int8 demo_env demo_app_waiting"
proof -
  obtain d where d: "item_step demo_int8 demo_env (PutQueue demo_tree None) empty_db = (Inr [], d)" "d = sys_db demo_app_waiting"
    using demo_write_queue by blast
  have "sys_reach demo_int8 demo_env \<lparr>sys_db = empty_db, attempts_of = [[FindParent demo_tree]]\<rparr>"
    using sys_reach.step [OF sys_reach.init sys_step.launch [of demo_env "JQueues [demo_tree]"]] by simp
  from sys_reach.step [OF this sys_step.statement [of 0 _ "FindParent demo_tree" "[]"]]
  have "sys_reach demo_int8 demo_env \<lparr>sys_db = empty_db, attempts_of = [[PutQueue demo_tree None]]\<rparr>"
    by (simp add: getQueueID_def demo_tree_def)
  from sys_reach.step [OF this sys_step.statement [of 0 _ "PutQueue demo_tree None" "[]", OF _ _ _]] d
  have "sys_reach demo_int8 demo_env \<lparr>sys_db = d, attempts_of = [[]]\<rparr>" by fastforce
  from sys_reach.step [OF this sys_step.launch [of demo_env "JApplications [demo_app]"]] d(2) show ?thesis
    by (simp add: demo_app_waiting_def)
qed

theorem application_attempt_completes_witness:
  "\<exists>s'. (sys_step demo_int8 demo_env)\<^sup>*\<^sup>* demo_app_waiting s' \<and> attempts_of s' = [[], []] \<and>
     dao_app_key demo_app \<in> app_key ` set (applications_t (sys_db s'))"
proof -
  let ?step = "sys_step demo_int8 demo_env" and ?s = demo_app_waiting
  have a: "attempts_of ?s = [[], [FindQueue demo_app]]" by (simp add: demo_app_waiting_def)
  have l: "app_QueueName demo_app \<noteq> []" "live (app_Partition demo_app, app_QueueName demo_app) (queues_t (sys_db ?s))"
    using demo_write_queue by (auto simp: demo_app_def)
  obtain i d1 where f: "item_step demo_int8 demo_env (FindQueue demo_app) (sys_db ?s) = (Inr [PutApp demo_app (Some i)], d1)"
    using FindQueue_finds [OF healthy_demo_env, of "sys_db ?s" demo_app demo_int8] l unfolding queue_live_def by blast
  define s1 where "s1 = \<lparr>sys_db = d1, attempts_of = [[], [PutApp demo_app (Some i)]]\<rparr>"
  have s1: "?step ?s s1" using sys_step.statement [OF _ _ f, of 1 "[]"] a by (simp add: s1_def)
  have "sys_inv demo_env s1"
    using sys_inv_step [OF s1] sys_reach_inv [OF demo_app_waiting_reach] healthy_demo_env by (simp add: healthy_env_def)
  then obtain d2 where p: "item_step demo_int8 demo_env (PutApp demo_app (Some i)) (sys_db s1) = (Inr [], d2)"
    using PutApp_writes [OF healthy_demo_env, of "sys_db s1" demo_int8 demo_app i] unfolding sys_inv_def db_inv_def by blast
  define s2 where "s2 = \<lparr>sys_db = d2, attempts_of = [[], []]\<rparr>"
  have "?step s1 s2" using sys_step.statement [OF _ _ p, of 1 "[]"] by (simp add: s1_def s2_def)
  with s1 have r: "?step\<^sup>*\<^sup>* ?s s2" by auto
  from application_attempt_completes [OF healthy_demo_env demo_app_waiting_reach, of 1 "[demo_app]" s2] a l r
  show ?thesis by (intro exI [of _ s2]) (simp add: s2_def)
qed

lemma healthy_forest:
  assumes "healthy_env env" and "queue_inv env d"
  shows "\<exists>ts. fst (GetQueuesPerPartition env p d) = Inr (Some ts) \<and>
    mset (forest_rows ts) = mset (filter (\<lambda>r. queue_Partition (qr_info r) = p) (queues_t d))"
proof (cases "fst (GetQueuesPerPartition env p d)")
  case (Inr r)
  with GetQueuesPerPartition_result [OF assms(2), of p] assms(1) show ?thesis by (cases r) auto
qed (use GetQueuesPerPartition_result [OF assms(2), of p] assms(1) in simp)

text \<open>The same when only the statement of the read has to work, whatever failed before it.\<close>

lemma working_forest:
  assumes "inj (freshUUID env)" and "queue_inv env d" and "pgFault env (stmtCtr d) = None" and "rowsEnd env (stmtCtr d) = None"
  shows "\<exists>ts. fst (GetQueuesPerPartition env p d) = Inr (Some ts) \<and>
    mset (forest_rows ts) = mset (filter (\<lambda>r. queue_Partition (qr_info r) = p) (queues_t d))"
proof -
  let ?env = "env\<lparr>pgFault := (\<lambda>_. None), rowsEnd := (\<lambda>_. None)\<rparr>"
  have h: "healthy_env ?env" "queue_inv ?env d" using assms(1,2) by (simp_all add: healthy_env_def queue_inv_def drawn_def)
  have "pg_rows env qm sm sel d = pg_rows ?env qm sm sel d" for qm sm and sel :: "db \<Rightarrow> QueueRow list"
    using assms(3,4) by (simp add: pg_rows_healthy [OF h(1)]) (simp add: pg_rows_def pg_select_def pg_query_def Let_def)
  then have "GetQueuesPerPartition env p d = GetQueuesPerPartition ?env p d" by (simp only: GetQueuesPerPartition_def)
  moreover note h
  ultimately show ?thesis using healthy_forest by metis
qed

lemma stays_refl [simp]: "stays env d d"
  by (simp add: stays_def)

lemma stays_trans: "stays env d d1 \<Longrightarrow> stays env d1 d2 \<Longrightarrow> stays env d d2"
  unfolding stays_def by (meson order_trans)

lemma sys_step_stays:
  assumes "sys_step int8 env s s'" and "inj (freshUUID env)" and "sys_inv env s"
  shows "stays env (sys_db s) (sys_db s')"
  using assms(1)
proof cases
  case (launch job its d)
  then show ?thesis using start_job_ok [OF launch(2)] assms(2,3) by (simp add: sys_inv_def)
next
  case (statement i it its r d)
  have "list_all (item_ok env (sys_db s)) (it # its)" using assms(3) statement(2,3) by (metis list_all_length sys_inv_def)
  then show ?thesis using item_step_keeps [of env "sys_db s" it int8] assms(2,3) statement(1,4) by (simp add: sys_inv_def)
qed

lemma sys_steps_stay:
  assumes "(sys_step int8 env)\<^sup>*\<^sup>* s s'" and "inj (freshUUID env)" and "sys_inv env s"
  shows "sys_inv env s' \<and> stays env (sys_db s) (sys_db s')"
  using assms(1)
proof (induction rule: rtranclp_induct)
  case (step t t')
  then show ?case using sys_step_stays [OF step.hyps(2) assms(2)] sys_inv_step [OF step.hyps(2) assms(2)] stays_trans by blast
qed (use assms(3) in simp)

text \<open>
  C21. Nothing that the server has stored is removed again, in any interleaving of jobs, retries and events and
  with any failures: the row of a queue keeps its identifier, a live queue stays live, and a stored application stays
  stored. So a later call of the queues endpoint's reader whose own statement works lists a queue that was live once,
  whatever failed before, also when the scheduler no longer reports the queue.
\<close>

theorem stored_state_is_kept:
  assumes "inj (freshUUID env)" and "sys_reach int8 env s" and "(sys_step int8 env)\<^sup>*\<^sup>* s s'"
  shows "(\<forall>i k. row_there (sys_db s) i k \<longrightarrow> row_there (sys_db s') i k) \<and>
    app_key ` set (applications_t (sys_db s)) \<subseteq> app_key ` set (applications_t (sys_db s')) \<and>
    (\<forall>k. live k (queues_t (sys_db s)) \<longrightarrow> live k (queues_t (sys_db s')) \<and>
       (pgFault env (stmtCtr (sys_db s')) = None \<and> rowsEnd env (stmtCtr (sys_db s')) = None \<longrightarrow>
        (\<exists>ts. fst (GetQueuesPerPartition env (fst k) (sys_db s')) = Inr (Some ts) \<and>
          (\<exists>r \<in> set (forest_rows ts). queue_key r = k \<and> qr_deleted_at r = None))))"
proof -
  have st: "sys_inv env s'" "stays env (sys_db s) (sys_db s')"
    using sys_steps_stay [OF assms(3,1) sys_reach_inv [OF assms(2,1)]] by simp_all
  have rd: "\<exists>ts. fst (GetQueuesPerPartition env (fst k) (sys_db s')) = Inr (Some ts) \<and>
      (\<exists>r \<in> set (forest_rows ts). queue_key r = k \<and> qr_deleted_at r = None)"
    if k: "live k (queues_t (sys_db s'))"
      "pgFault env (stmtCtr (sys_db s')) = None \<and> rowsEnd env (stmtCtr (sys_db s')) = None" for k
  proof -
    have "queue_inv env (sys_db s')" using st(1) by (simp add: sys_inv_def db_inv_def)
    then obtain ts where ts: "fst (GetQueuesPerPartition env (fst k) (sys_db s')) = Inr (Some ts)"
        "mset (forest_rows ts) = mset (filter (\<lambda>r. queue_Partition (qr_info r) = fst k) (queues_t (sys_db s')))"
      using working_forest [OF assms(1)] k(2) by blast
    obtain r where "r \<in> set (queues_t (sys_db s'))" "queue_key r = k" "qr_deleted_at r = None"
      using k(1) by (auto simp: live_def list_ex_iff)
    moreover from this have "r \<in> set (forest_rows ts)" unfolding mset_eq_setD [OF ts(2)] by (auto simp: queue_key_def)
    ultimately show ?thesis using ts(1) by blast
  qed
  have "row_there (sys_db s') i k" if "row_there (sys_db s) i k" for i k using st(2) that by (cases k) (simp add: stays_def)
  moreover have lv: "live k (queues_t (sys_db s'))" if "live k (queues_t (sys_db s))" for k
    using st(2) that by (cases k) (simp add: stays_def)
  moreover have "app_key ` set (applications_t (sys_db s)) \<subseteq> app_key ` set (applications_t (sys_db s'))"
    using st(2) by (simp add: stays_def)
  ultimately show ?thesis using rd by blast
qed

theorem stored_state_is_kept_witness:
  "\<exists>ts. fst (GetQueuesPerPartition demo_env ''default'' (sys_db demo_app_waiting)) = Inr (Some ts) \<and>
     (\<exists>r \<in> set (forest_rows ts). queue_key r = (''default'', ''root'') \<and> qr_deleted_at r = None)"
proof -
  have "live (''default'', ''root'') (queues_t (sys_db demo_app_waiting))"
    using demo_write_queue by (simp add: demo_app_waiting_def demo_app_def)
  with stored_state_is_kept [OF _ demo_app_waiting_reach rtranclp.rtrancl_refl] healthy_demo_env show ?thesis
    by (fastforce simp: healthy_env_def)
qed

end
