(* ===== verification/Queue_Subtree.thy ===== *)
theory Queue_Subtree
  imports Queue_Forest
begin

text \<open>
  \<open>GetQueue\<close> of \<open>internal/database/repository/queue.go\<close>: the recursive query ends, lists the queue and
  each of its descendants once, and the tree that the code builds from it is the subtree of the forest
  that \<open>GetQueuesPerPartition\<close> returns.
\<close>

section \<open>Fuel and children maps\<close>

lemma getChildren_list_all2:
  "getChildrenFromMap (Suc n) cm i = Some ts \<longleftrightarrow> list_all2 (child_tree n cm) (slice_list (cm i)) ts"
  unfolding getChildrenFromMap.simps those_map_Some child_tree_def ..

lemma getChildren_Suc:
  "getChildrenFromMap n cm i = Some ts \<Longrightarrow> getChildrenFromMap (Suc n) cm i = Some ts"
proof (induction n arbitrary: i ts)
  case (Suc n)
  have "list_all2 (child_tree (Suc n) cm) (slice_list (cm i)) ts"
    using Suc.prems unfolding getChildren_list_all2
    by (rule list_all2_mono) (auto elim!: child_treeE dest: Suc.IH simp: child_tree_def)
  then show ?case unfolding getChildren_list_all2 .
qed simp

lemma getChildren_mono:
  assumes "getChildrenFromMap n cm i = Some ts" and "n \<le> m"
  shows "getChildrenFromMap m cm i = Some ts"
  using assms(2,1) by (induction rule: dec_induct) (auto intro: getChildren_Suc)

text \<open>Maps that agree on a set closed under children give the same trees there.\<close>

lemma getChildren_cong:
  assumes "\<And>i. i \<in> S \<Longrightarrow> slice_list (cm i) = slice_list (cm' i)"
    and "\<And>i c. i \<in> S \<Longrightarrow> c \<in> set (slice_list (cm i)) \<Longrightarrow> qr_id c \<in> S"
  shows "i \<in> S \<Longrightarrow> getChildrenFromMap n cm i = getChildrenFromMap n cm' i"
proof (induction n arbitrary: i)
  case (Suc n)
  have "map (\<lambda>c. map_option (StoredQueue c) (getChildrenFromMap n cm (qr_id c))) (slice_list (cm i)) =
      map (\<lambda>c. map_option (StoredQueue c) (getChildrenFromMap n cm' (qr_id c))) (slice_list (cm' i))"
    using Suc assms by (intro map_cong) auto
  then show ?case by (simp only: getChildrenFromMap.simps)
qed simp

lemma subtree_of_row: "r \<in> set (sq_rows t) \<Longrightarrow> \<exists>s \<in> set (subtrees t). sqRow s = r"
  by (induction t) fastforce

lemma subtree_children:
  assumes "child_tree n cm c t" and "s \<in> set (subtrees t)"
  shows "\<exists>m. getChildrenFromMap m cm (qr_id (sqRow s)) = Some (sqChildren s)"
  using assms
proof (induction n arbitrary: c t)
  case 0
  then show ?case by (simp add: child_tree_def)
next
  case (Suc n)
  obtain sub where sub: "getChildrenFromMap (Suc n) cm (qr_id c) = Some sub" "t = StoredQueue c sub"
    using Suc.prems(1) by (elim child_treeE)
  show ?case
  proof (cases "s = t")
    case True
    then show ?thesis using sub by auto
  next
    case False
    then obtain u where u: "u \<in> set sub" "s \<in> set (subtrees u)" using Suc.prems(2) sub(2) by auto
    from sub(1) have "list_all2 (child_tree n cm) (slice_list (cm (qr_id c))) sub"
      unfolding getChildren_list_all2 .
    then obtain c' where "child_tree n cm c' u" using u(1) by (auto simp: list_all2_conv_all_nth in_set_conv_nth)
    then show ?thesis using Suc.IH u(2) by blast
  qed
qed

section \<open>The recursive query\<close>

definition all_kids :: "QueueRow list \<Rightarrow> QueueRow list \<Rightarrow> QueueRow list" where
  "all_kids rows ps = concat (map (\<lambda>a. kids rows (qr_id a)) ps)"

lemma all_kids_append: "all_kids rows (xs @ ys) = all_kids rows xs @ all_kids rows ys"
  by (simp add: all_kids_def)

lemma generations_Suc:
  "generations (Suc n) rows g (p # ps) =
     map_option (\<lambda>rest. map (\<lambda>r. (r, g)) (p # ps) @ rest) (generations n rows (Suc g) (all_kids rows (p # ps)))"
  unfolding generations.simps all_kids_def kids_def ..

text \<open>The rows of all generations are the first one and the children of all of them.\<close>

lemma generations_fixpoint:
  "generations n rows g ps = Some gs \<Longrightarrow> map fst gs = ps @ all_kids rows (map fst gs)"
proof (induction n arbitrary: g ps gs)
  case 0
  then show ?case by (cases ps) (auto simp: all_kids_def)
next
  case (Suc n)
  show ?case
  proof (cases ps)
    case Nil
    then show ?thesis using Suc.prems by (simp add: all_kids_def)
  next
    case (Cons p qs)
    then obtain rest where rest: "generations n rows (Suc g) (all_kids rows ps) = Some rest"
        "gs = map (\<lambda>r. (r, g)) ps @ rest"
      using Suc.prems by (auto simp: generations_Suc simp del: generations.simps)
    have "map fst gs = ps @ map fst rest" by (simp add: rest(2) comp_def)
    moreover have "map fst rest = all_kids rows ps @ all_kids rows (map fst rest)"
      using Suc.IH [OF rest(1)] .
    ultimately show ?thesis by (simp add: all_kids_append)
  qed
qed

lemma generations_head: "generations n rows g (p # ps) = Some gs \<Longrightarrow> \<exists>rest. gs = (p, g) # rest"
  by (cases n) (auto simp: generations_Suc simp del: generations.simps(3))

lemma child_index:
  assumes "parents_before [] rows" and "distinct (map qr_id rows)" and "k < length rows"
    and "i < length rows" and "qr_parent_id (rows ! i) = Some (qr_id (rows ! k))"
  shows "k < i"
proof -
  obtain j where "j < i" "qr_id (rows ! j) = qr_id (rows ! k)"
    using parents_before_nth [OF assms(1,4,5)] by auto
  then show ?thesis using assms(2-4) nth_eq_iff_index_eq [OF assms(2), of j k] by simp
qed

lemma generations_terminates:
  assumes "parents_before [] rows" and "distinct (map qr_id rows)"
  shows "(\<And>a. a \<in> set ps \<Longrightarrow> \<exists>i \<ge> k. i < length rows \<and> a = rows ! i) \<Longrightarrow> length rows < n + k \<Longrightarrow>
    generations n rows g ps \<noteq> None"
proof (induction n arbitrary: k g ps)
  case 0
  then have "ps = []" by (metis add_0 linorder_not_less list.set_intros(1) neq_Nil_conv order.strict_trans)
  then show ?case by simp
next
  case (Suc n)
  show ?case
  proof (cases ps)
    case (Cons p qs)
    have "generations n rows (Suc g) (all_kids rows ps) \<noteq> None"
    proof (rule Suc.IH [of _ "Suc k"])
      fix b assume "b \<in> set (all_kids rows ps)"
      then obtain a where a: "a \<in> set ps" "b \<in> set rows" "qr_parent_id b = Some (qr_id a)"
        by (auto simp: all_kids_def kids_def)
      obtain i where i: "i \<ge> k" "i < length rows" "a = rows ! i" using Suc.prems(1) [OF a(1)] by blast
      obtain j where j: "j < length rows" "b = rows ! j" using a(2) by (auto simp: in_set_conv_nth)
      have "i < j" using child_index [OF assms i(2) j(1)] a(3) i(3) j(2) by simp
      then show "\<exists>j \<ge> Suc k. j < length rows \<and> b = rows ! j" using i(1) j by (intro exI [of _ j]) simp
    qed (use Suc.prems(2) in simp)
    then show ?thesis using Cons by (auto simp: generations_Suc simp del: generations.simps)
  qed simp
qed
section \<open>Each descendant once\<close>

lemma count_all_kids:
  assumes "distinct (map qr_id rows)" and "x \<in> set rows"
  shows "count_list (map qr_id (all_kids rows ps)) (qr_id x) =
    (case qr_parent_id x of None \<Rightarrow> 0 | Some i \<Rightarrow> count_list (map qr_id ps) i)"
proof (induction ps)
  case Nil
  then show ?case by (simp add: all_kids_def split: option.split)
next
  case (Cons a ps)
  have "count_list (map qr_id (kids rows (qr_id a))) (qr_id x) = (if qr_parent_id x = Some (qr_id a) then 1 else 0)"
  proof -
    have "distinct (map qr_id (kids rows (qr_id a)))" using assms(1) by (simp add: kids_def distinct_map_filter)
    moreover have "qr_id x \<in> qr_id ` set (kids rows (qr_id a)) \<longleftrightarrow> qr_parent_id x = Some (qr_id a)"
      using assms by (auto simp: kids_def distinct_map inj_on_def)
    ultimately show ?thesis by (simp add: distinct_count_list)
  qed
  with Cons show ?case by (auto simp: all_kids_def split: option.splits)
qed

lemma distinct_from_counts: "(\<And>x. x \<in> set xs \<Longrightarrow> count_list xs x \<le> 1) \<Longrightarrow> distinct xs"
proof (induction xs)
  case (Cons a xs)
  have "count_list xs a = 0" using Cons.prems [of a] by simp
  then have "a \<notin> set xs" by (simp add: count_list_0_iff)
  moreover have "count_list xs x \<le> 1" if "x \<in> set xs" for x
    using Cons.prems [of x] that by (simp split: if_splits)
  ultimately show ?case using Cons.IH by simp
qed simp

text \<open>A list that is a row and the children of all its rows has each identifier at most once.\<close>

lemma descendants_distinct:
  assumes "parents_before [] rows" and "distinct (map qr_id rows)" and "kr < length rows"
    and L: "L = rows ! kr # all_kids rows L"
  shows "distinct (map qr_id L)"
proof -
  let ?c = "\<lambda>k. count_list (map qr_id L) (qr_id (rows ! k))"
  have same: "qr_id (rows ! j) = qr_id (rows ! k) \<longleftrightarrow> j = k" if "j < length rows" "k < length rows" for j k
    using nth_eq_iff_index_eq [OF assms(2), of j k] that by simp
  have rec: "?c k = (if k = kr then 1 else 0) +
      (case qr_parent_id (rows ! k) of None \<Rightarrow> 0 | Some i \<Rightarrow> count_list (map qr_id L) i)" if "k < length rows" for k
    by (subst L) (use that same [of kr k] assms(2,3) in \<open>simp add: count_all_kids\<close>)
  have zero: "?c k = 0" if "k < kr" for k
    using that
  proof (induction k rule: less_induct)
    case (less k)
    show ?case
    proof (cases "qr_parent_id (rows ! k)")
      case None
      then show ?thesis using rec [of k] less.prems assms(3) by simp
    next
      case (Some i)
      then obtain j where "j < k" "qr_id (rows ! j) = i"
        using parents_before_nth [OF assms(1), of k i] less.prems assms(3) by auto
      then show ?thesis using rec [of k] less Some assms(3) by auto
    qed
  qed
  have one: "?c k \<le> 1" if "k < length rows" for k
    using that
  proof (induction k rule: less_induct)
    case (less k)
    show ?case
    proof (cases "qr_parent_id (rows ! k)")
      case None
      then show ?thesis using rec [OF less.prems] by simp
    next
      case (Some i)
      then obtain j where j: "j < k" "qr_id (rows ! j) = i"
        using parents_before_nth [OF assms(1), of k i] less.prems by auto
      show ?thesis using rec [OF less.prems] Some j zero [of j] less.IH [of j] less.prems by auto
    qed
  qed
  have "set L \<subseteq> set rows"
  proof
    fix x assume "x \<in> set L"
    then have "x \<in> set (rows ! kr # all_kids rows L)" using L by simp
    then show "x \<in> set rows" using assms(3) by (auto simp: all_kids_def kids_def)
  qed
  then have "count_list (map qr_id L) i \<le> 1" if "i \<in> set (map qr_id L)" for i
    using one that by (metis image_iff in_set_conv_nth list.set_map subsetD)
  then show ?thesis by (rule distinct_from_counts)
qed

section \<open>The tree of a queue\<close>

lemma generation_rows_spec:
  "generation_rows gs (Some r) cm = (root, cm') \<Longrightarrow>
     root = Some r \<and> (\<forall>i. slice_list (cm' i) = slice_list (cm i) @ kids (map fst gs) i)"
proof (induction gs arbitrary: cm)
  case Nil
  then show ?case by (simp add: kids_def)
next
  case (Cons x gs)
  obtain q g where x: "x = (q, g)" by fastforce
  show ?case using Cons by (cases "qr_parent_id q") (fastforce simp: x kids_def add_child_def)+
qed

lemma kids_all_kids:
  assumes "distinct (map qr_id L)" and "a \<in> set L"
  shows "kids (all_kids rows L) (qr_id a) = kids rows (qr_id a)"
proof -
  obtain l r where L: "L = l @ a # r" using assms(2) by (auto simp: in_set_conv_decomp)
  have "kids (all_kids rows L) (qr_id a) = concat (map (\<lambda>b. kids (kids rows (qr_id b)) (qr_id a)) L)"
    by (simp add: all_kids_def kids_concat)
  also have "\<dots> = kids (kids rows (qr_id a)) (qr_id a)"
    unfolding L
  proof (rule concat_map_single)
    fix b assume "b \<in> set l \<union> set r"
    moreover have "qr_id a \<notin> qr_id ` (set l \<union> set r)" using assms(1) by (simp add: L image_Un)
    ultimately have "qr_id b \<noteq> qr_id a" by (metis image_eqI)
    then show "kids (kids rows (qr_id b)) (qr_id a) = []" by (auto simp: kids_def filter_empty_conv)
  qed
  finally show ?thesis by (simp add: kids_def)
qed

lemma filter_unique_key:
  assumes "distinct (map key rs)" and "r \<in> set rs" and "P r" and "\<And>x. P x \<Longrightarrow> key x = key r"
  shows "filter P rs = [r]"
proof -
  obtain xs ys where rs: "rs = xs @ r # ys" using assms(2) by (auto simp: in_set_conv_decomp)
  have "key r \<notin> key ` (set xs \<union> set ys)" using assms(1) by (simp add: rs image_Un)
  then have "\<not> P x" if "x \<in> set xs \<union> set ys" for x using assms(4) [of x] that by (metis image_eqI)
  then show ?thesis using assms(3) by (simp add: rs filter_empty_conv)
qed

lemma alive_queue_key: "alive_queue n p x \<Longrightarrow> queue_key x = (p, n)"
  by (simp add: alive_queue_def queue_key_def)

text \<open>The rows that the query of \<open>GetQueue\<close> gives for a live queue.\<close>

lemma queue_generations_descendants:
  assumes "queue_inv env d" and "r \<in> set (queues_t d)" and "alive_queue n p r"
  shows "\<exists>gs. queue_generations p n (queues_t d) = Some ((r, 0) # gs) \<and>
    map fst gs = all_kids (queues_t d) (r # map fst gs) \<and> distinct (map qr_id (r # map fst gs))"
proof -
  let ?rows = "queues_t d"
  have inv: "parents_before [] ?rows" "distinct (map qr_id ?rows)" "distinct (map queue_key ?rows)"
    using assms(1) by (simp_all add: queue_inv_def table_wf_def)
  have f: "filter (alive_queue n p) ?rows = [r]"
    using filter_unique_key [of queue_key ?rows r "alive_queue n p"] inv(3) assms(2,3) by (simp add: alive_queue_key)
  obtain kr where kr: "kr < length ?rows" "r = ?rows ! kr" using assms(2) by (auto simp: in_set_conv_nth)
  have "queue_generations p n ?rows \<noteq> None"
    unfolding queue_generations_def f
    by (rule generations_terminates [OF inv(1,2), of _ 0]) (use kr in auto)
  then obtain gs where gs: "generations (Suc (length ?rows)) ?rows 0 [r] = Some gs"
    by (auto simp: queue_generations_def f simp del: generations.simps)
  obtain rest where rest: "gs = (r, 0) # rest" using generations_head [OF gs] by blast
  have L: "r # map fst rest = r # all_kids ?rows (r # map fst rest)"
    using generations_fixpoint [OF gs] by (simp add: rest)
  then have "distinct (map qr_id (r # map fst rest))"
    using descendants_distinct [OF inv(1,2) kr(1), of "r # map fst rest"] kr(2) by blast
  with gs rest L show ?thesis by (simp add: queue_generations_def f del: generations.simps)
qed

lemma kids_same_partition:
  assumes "queue_inv env d" and "a \<in> set (queues_t d)" and "c \<in> set (kids (queues_t d) (qr_id a))"
  shows "queue_Partition (qr_info c) = queue_Partition (qr_info a)"
proof -
  have c: "c \<in> set (queues_t d)" "qr_parent_id c = Some (qr_id a)" using assms(3) by (auto simp: kids_def)
  then have "\<exists>r' \<in> set (queues_t d). qr_id r' = qr_id a \<and>
      queue_key r' = (queue_Partition (qr_info c), queue_Parent (qr_info c))"
    using assms(1) unfolding queue_inv_def named_parents_def by blast
  then obtain r' where r': "r' \<in> set (queues_t d)" "qr_id r' = qr_id a"
      "queue_Partition (qr_info r') = queue_Partition (qr_info c)"
    by (auto simp: queue_key_def)
  have "r' = a"
    using assms(1,2) r'(1,2) by (auto simp: queue_inv_def table_wf_def distinct_map inj_on_def)
  with r'(3) show ?thesis by simp
qed

lemma descendants_partition:
  assumes "queue_inv env d" and "r \<in> set (queues_t d)" and "L = all_kids (queues_t d) (r # L)"
    and "distinct (map qr_id (r # L))"
  shows "a \<in> set (r # L) \<Longrightarrow> a \<in> set (queues_t d) \<and> queue_Partition (qr_info a) = queue_Partition (qr_info r)"
proof -
  let ?rows = "queues_t d"
  have inv: "parents_before [] ?rows" "distinct (map qr_id ?rows)"
    using assms(1) by (simp_all add: queue_inv_def table_wf_def)
  have sub: "set (r # L) \<subseteq> set ?rows"
    using assms(2) by (subst assms(3)) (auto simp: all_kids_def kids_def)
  have "?rows ! k \<in> set (r # L) \<Longrightarrow> queue_Partition (qr_info (?rows ! k)) = queue_Partition (qr_info r)"
    if "k < length ?rows" for k
    using that
  proof (induction k rule: less_induct)
    case (less k)
    show ?case
    proof (cases "?rows ! k = r")
      case False
      then have "?rows ! k \<in> set (all_kids ?rows (r # L))" using less.prems(1) assms(3) by auto
      then obtain b where b: "b \<in> set (r # L)" "?rows ! k \<in> set (kids ?rows (qr_id b))"
        by (auto simp: all_kids_def)
      then obtain j where j: "j < length ?rows" "b = ?rows ! j" using sub by (metis in_set_conv_nth subsetD)
      have "j < k" using child_index [OF inv j(1) less.prems(2)] b(2) j(2) by (simp add: kids_def)
      then show ?thesis
        using less.IH [of j] j b kids_same_partition [OF assms(1) _ b(2)] sub by auto
    qed simp
  qed
  with sub show "a \<in> set ?rows \<and> queue_Partition (qr_info a) = queue_Partition (qr_info r)" if "a \<in> set (r # L)"
    using that by (metis in_set_conv_nth subsetD)
qed

lemma GetQueue_children:
  assumes "healthy_env env" and "queue_inv env d" and "r \<in> set (queues_t d)" and "alive_queue n p r"
  shows "\<exists>cm L. fst (GetQueue env p n d) =
      Inr (map_option (StoredQueue r) (getChildrenFromMap (Suc (length (queues_t d))) cm (qr_id r))) \<and>
    L = all_kids (queues_t d) (r # L) \<and> distinct (map qr_id (r # L)) \<and>
    (\<forall>a \<in> set (r # L). slice_list (cm (qr_id a)) = kids (queues_t d) (qr_id a))"
proof -
  obtain gs where gs: "queue_generations p n (queues_t d) = Some ((r, 0) # gs)"
      "map fst gs = all_kids (queues_t d) (r # map fst gs)" "distinct (map qr_id (r # map fst gs))"
    using queue_generations_descendants [OF assms(2-4)] by blast
  obtain root cm where g: "generation_rows gs (Some r) Map.empty = (root, cm)" by fastforce
  note sp = generation_rows_spec [OF g]
  have "slice_list (cm (qr_id a)) = kids (queues_t d) (qr_id a)" if "a \<in> set (r # map fst gs)" for a
    using sp kids_all_kids [OF gs(3) that, of "queues_t d"] arg_cong [OF gs(2), of "\<lambda>xs. kids xs (qr_id a)"] by simp
  moreover have "fst (GetQueue env p n d) =
      Inr (map_option (StoredQueue r) (getChildrenFromMap (Suc (length (queues_t d))) cm (qr_id r)))"
    using assms(1) gs(1) g sp by (simp add: GetQueue_def slice_list_def)
  ultimately show ?thesis using gs(2,3) by (intro exI [of _ cm] exI [of _ "map fst gs"]) simp
qed

text \<open>
  The children map of \<open>GetQueue\<close> and the one of \<open>GetQueuesPerPartition\<close> give the same trees below the
  queue.
\<close>

lemma GetQueue_same_children:
  assumes "queue_inv env d" and "r \<in> set (queues_t d)" and "queue_Partition (qr_info r) = p"
    and "L = all_kids (queues_t d) (r # L)" and "distinct (map qr_id (r # L))"
    and "\<forall>a \<in> set (r # L). slice_list (cm (qr_id a)) = kids (queues_t d) (qr_id a)"
    and "maps_kids (filter (\<lambda>r. queue_Partition (qr_info r) = p) (queues_t d)) pm"
  shows "getChildrenFromMap m cm (qr_id r) = getChildrenFromMap m pm (qr_id r)"
proof (rule getChildren_cong [of "qr_id ` set (r # L)"])
  fix i assume "i \<in> qr_id ` set (r # L)"
  then obtain a where a: "a \<in> set (r # L)" "i = qr_id a" by blast
  have "queue_Partition (qr_info c) = p" if "c \<in> set (kids (queues_t d) i)" for c
    using kids_same_partition [OF assms(1) _ that [unfolded a(2)]] descendants_partition [OF assms(1,2,4,5) a(1)]
      assms(3) by simp
  then have "kids (filter (\<lambda>r. queue_Partition (qr_info r) = p) (queues_t d)) i = kids (queues_t d) i"
    by (auto simp: kids_def intro: filter_cong)
  moreover have "slice_list (cm i) = kids (queues_t d) i" using a assms(6) by blast
  ultimately show "slice_list (cm i) = slice_list (pm i)" using assms(7) by (simp add: maps_kids_def)
  fix c assume "c \<in> set (slice_list (cm i))"
  then have "c \<in> set (all_kids (queues_t d) (r # L))"
    using \<open>slice_list (cm i) = kids (queues_t d) i\<close> a by (auto simp: all_kids_def)
  then show "qr_id c \<in> qr_id ` set (r # L)" using assms(4) by auto
qed simp

text \<open>A row of a forest is the root of a subtree whose children are those of the children map.\<close>

lemma build_forest_subtree:
  assumes "parents_before [] rows" and "distinct (map qr_id rows)" and "maps_kids rows pm"
    and "r \<in> set rows" and "length rows \<le> n"
  shows "\<exists>ts sub. build_forest rows = Some ts \<and> getChildrenFromMap (Suc n) pm (qr_id r) = Some sub \<and>
    StoredQueue r sub \<in> set (concat (map subtrees ts))"
proof -
  obtain qs cm where p: "partition_rows rows [] Map.empty = (qs, cm)" by fastforce
  note pk = partition_rows_maps_kids [OF p]
  have cm: "getChildrenFromMap m cm i = getChildrenFromMap m pm i" for m i
    by (rule getChildren_cong [of UNIV]) (use pk(2) assms(3) in \<open>simp_all add: maps_kids_def\<close>)
  obtain k where k: "k < length rows" "r = rows ! k" using assms(4) by (auto simp: in_set_conv_nth)
  have "getChildrenFromMap (Suc n) pm (qr_id r) \<noteq> None"
    unfolding k(2) by (rule getChildren_terminates [OF assms(3,1,2) k(1)]) (use assms(5) in simp)
  then obtain sub where sub: "getChildrenFromMap (Suc n) pm (qr_id r) = Some sub" by auto
  obtain ts where ts: "build_forest rows = Some ts" using build_forest_terminates [OF assms(1,2)] by blast
  have "r \<in> set (forest_rows ts)"
    using build_forest_rows [OF assms(1,2) ts] assms(4) by (metis set_mset_mset)
  then obtain t where "t \<in> set ts" "r \<in> set (sq_rows t)" by (auto simp: forest_rows_def)
  then obtain s where t: "t \<in> set ts" "s \<in> set (subtrees t)" "sqRow s = r" using subtree_of_row by blast
  have "list_all2 (child_tree (Suc (length rows)) cm) (roots rows) ts"
    using build_forest_Some_iff [of rows cm ts] p pk(1) ts by simp
  then obtain c where "child_tree (Suc (length rows)) cm c t"
    using t(1) by (auto simp: list_all2_conv_all_nth in_set_conv_nth)
  from subtree_children [OF this t(2)] obtain m where m: "getChildrenFromMap m pm (qr_id r) = Some (sqChildren s)"
    using t(3) cm by auto
  have "sqChildren s = sub"
    using getChildren_mono [OF m, of "max m (Suc n)"] getChildren_mono [OF sub, of "max m (Suc n)"] by simp
  then have "s = StoredQueue r sub" using t(3) by (cases s) simp
  with ts sub t(1,2) show ?thesis by auto
qed

section \<open>Properties\<close>

text \<open>
  C15. \<open>GetQueue\<close> agrees with \<open>GetQueuesPerPartition\<close>: on a healthy connection and a table with the
  invariant it returns, for a live queue, the subtree of the forest of its partition whose root is the
  row of that queue, with all its descendants, deleted ones included.
\<close>

theorem GetQueue_subtree:
  assumes "healthy_env env" and "queue_inv env d" and "r \<in> set (queues_t d)" and "alive_queue n p r"
  shows "\<exists>t ts. fst (GetQueue env p n d) = Inr (Some t) \<and> fst (GetQueuesPerPartition env p d) = Inr (Some ts) \<and>
    sqRow t = r \<and> t \<in> set (concat (map subtrees ts))"
proof -
  let ?rows = "queues_t d" and ?prows = "filter (\<lambda>r. queue_Partition (qr_info r) = p) (queues_t d)"
  obtain cm L where q: "fst (GetQueue env p n d) =
        Inr (map_option (StoredQueue r) (getChildrenFromMap (Suc (length ?rows)) cm (qr_id r)))"
      "L = all_kids ?rows (r # L)" "distinct (map qr_id (r # L))"
      "\<forall>a \<in> set (r # L). slice_list (cm (qr_id a)) = kids ?rows (qr_id a)"
    using GetQueue_children [OF assms] by blast
  have rp: "queue_Partition (qr_info r) = p" using assms(4) by (simp add: alive_queue_def)
  obtain qs pm where pm: "partition_rows ?prows [] Map.empty = (qs, pm)" by fastforce
  note mk = partition_rows_maps_kids(2) [OF pm]
  have inv: "parents_before [] ?prows" "distinct (map qr_id ?prows)"
    using assms(2) parents_before_filter [of "[]" ?rows p "[]"]
    by (simp_all add: queue_inv_def table_wf_def distinct_map_filter)
  obtain ts sub where ts: "build_forest ?prows = Some ts"
      "getChildrenFromMap (Suc (length ?rows)) pm (qr_id r) = Some sub"
      "StoredQueue r sub \<in> set (concat (map subtrees ts))"
    using build_forest_subtree [OF inv mk, of r "length ?rows"] assms(3) rp by auto
  have "fst (GetQueue env p n d) = Inr (Some (StoredQueue r sub))"
    using q(1) ts(2) GetQueue_same_children [OF assms(2,3) rp q(2-4) mk] by simp
  moreover have "fst (GetQueuesPerPartition env p d) = Inr (Some ts)"
    using assms(1) ts(1) by (simp add: GetQueuesPerPartition_def)
  ultimately show ?thesis using ts(3) by (intro exI [of _ "StoredQueue r sub"] exI [of _ ts]) simp
qed

theorem GetQueue_subtree_witness:
  "\<exists>t ts. fst (GetQueue demo_env ''default'' ''root'' demo_queue_db) = Inr (Some t) \<and>
     fst (GetQueuesPerPartition demo_env ''default'' demo_queue_db) = Inr (Some ts) \<and>
     sqRow t = hd (queues_t demo_queue_db) \<and> t \<in> set (concat (map subtrees ts))"
  by (rule GetQueue_subtree [OF healthy_demo_env demo_queue_db_inv])
     (simp_all add: demo_queue_db_def alive_queue_def)

end
