(* ===== verification/Queue_Order.thy ===== *)
theory Queue_Order
  imports Queue_Forest
begin

text \<open>
  The query of \<open>GetQueuesPerPartition\<close> has no \<open>ORDER BY\<close>, so the database may deliver the rows in any
  order. The forest that is built from them does not depend on it, except for the order of siblings:
  \<open>unordered\<close> forgets that order.
\<close>

section \<open>Trees without an order of siblings\<close>

datatype row_tree = RowTree QueueRow "row_tree multiset"

primrec unordered :: "StoredQueue \<Rightarrow> row_tree" where
  "unordered (StoredQueue r cs) = RowTree r (mset (map unordered cs))"

definition unordered_forest :: "StoredQueue list \<Rightarrow> row_tree multiset" where
  "unordered_forest ts = mset (map unordered ts)"

section \<open>The same rows in another order\<close>

text \<open>The trees above a list of rows, when the recursion below each of them ends.\<close>

definition grown :: "nat \<Rightarrow> children_map \<Rightarrow> QueueRow \<Rightarrow> StoredQueue" where
  "grown n cm c = StoredQueue c (the (getChildrenFromMap n cm (qr_id c)))"

lemma child_trees_iff:
  "list_all2 (child_tree n cm) cs ts \<longleftrightarrow>
     (\<forall>c \<in> set cs. getChildrenFromMap n cm (qr_id c) \<noteq> None) \<and> ts = map (grown n cm) cs"
proof (induction cs arbitrary: ts)
  case (Cons c cs)
  have "child_tree n cm c t \<longleftrightarrow> getChildrenFromMap n cm (qr_id c) \<noteq> None \<and> t = grown n cm c" for t
    by (auto simp: child_tree_def grown_def)
  with Cons show ?case by (cases ts) auto
qed auto

lemma kids_perm: "mset rows = mset rows' \<Longrightarrow> mset (kids rows i) = mset (kids rows' i)"
  by (simp add: kids_def)

lemma roots_perm: "mset rows = mset rows' \<Longrightarrow> mset (roots rows) = mset (roots rows')"
  by (simp add: roots_def)

lemma grown_perm:
  assumes "mset cs = mset cs'" and "list_all2 (child_tree n cm) cs ts"
    and "\<And>c sub. c \<in> set cs \<Longrightarrow> getChildrenFromMap n cm (qr_id c) = Some sub \<Longrightarrow>
      \<exists>sub'. getChildrenFromMap n cm' (qr_id c) = Some sub' \<and> unordered_forest sub = unordered_forest sub'"
  shows "\<exists>ts'. list_all2 (child_tree n cm') cs' ts' \<and> unordered_forest ts = unordered_forest ts'"
proof (intro exI conjI)
  have s: "set cs' = set cs" using assms(1) by (metis set_mset_mset)
  have ts: "ts = map (grown n cm) cs" "\<forall>c \<in> set cs. getChildrenFromMap n cm (qr_id c) \<noteq> None"
    using assms(2) by (simp_all add: child_trees_iff)
  have eq: "getChildrenFromMap n cm' (qr_id c) \<noteq> None \<and> unordered (grown n cm c) = unordered (grown n cm' c)"
    if c: "c \<in> set cs" for c
  proof -
    obtain sub where sub: "getChildrenFromMap n cm (qr_id c) = Some sub" using ts(2) c by auto
    with assms(3) [OF c sub] show ?thesis by (auto simp: grown_def unordered_forest_def)
  qed
  show "list_all2 (child_tree n cm') cs' (map (grown n cm') cs')"
    using eq s by (simp add: child_trees_iff)
  have "unordered_forest ts = image_mset (\<lambda>c. unordered (grown n cm c)) (mset cs)"
    by (simp add: ts(1) unordered_forest_def multiset.map_comp comp_def)
  also have "\<dots> = image_mset (\<lambda>c. unordered (grown n cm' c)) (mset cs)"
    using eq by (intro image_mset_cong) simp
  finally show "unordered_forest ts = unordered_forest (map (grown n cm') cs')"
    by (simp add: unordered_forest_def multiset.map_comp comp_def assms(1))
qed

lemma getChildren_perm:
  assumes "maps_kids rows cm" and "maps_kids rows' cm'" and "mset rows = mset rows'"
  shows "getChildrenFromMap n cm i = Some ts \<Longrightarrow>
    \<exists>ts'. getChildrenFromMap n cm' i = Some ts' \<and> unordered_forest ts = unordered_forest ts'"
proof (induction n arbitrary: i ts)
  case (Suc n)
  from Suc.prems have "list_all2 (child_tree n cm) (kids rows i) ts"
    by (simp add: getChildren_Some_iff [OF assms(1)])
  from grown_perm [OF kids_perm [OF assms(3)] this Suc.IH] show ?case
    by (simp add: getChildren_Some_iff [OF assms(2)])
qed simp

lemma build_forest_perm:
  assumes "mset rows = mset rows'" and "build_forest rows = Some ts"
  shows "\<exists>ts'. build_forest rows' = Some ts' \<and> unordered_forest ts = unordered_forest ts'"
proof -
  obtain qs cm qs' cm' where p: "partition_rows rows [] Map.empty = (qs, cm)"
      "partition_rows rows' [] Map.empty = (qs', cm')" by fastforce
  note k = partition_rows_maps_kids [OF p(1)] and k' = partition_rows_maps_kids [OF p(2)]
  have l: "length rows = length rows'" using assms(1) by (metis size_mset)
  from assms(2) have "list_all2 (child_tree (Suc (length rows)) cm) (roots rows) ts"
    using build_forest_Some_iff p(1) k(1) by blast
  from grown_perm [OF roots_perm [OF assms(1)] this getChildren_perm [OF k(2) k'(2) assms(1)]] show ?thesis
    using build_forest_Some_iff [of rows' cm'] p(2) k'(1) l by auto
qed

section \<open>Properties\<close>

text \<open>
  C16. Whatever order the database keeps the rows in, \<open>GetQueuesPerPartition\<close> returns and gives the same
  trees up to the order of siblings: for a table with the invariant and any rearrangement of its rows.
\<close>

theorem GetQueuesPerPartition_any_order:
  assumes "healthy_env env" and "queue_inv env d" and "mset (queues_t d') = mset (queues_t d)"
  shows "\<exists>ts ts'. fst (GetQueuesPerPartition env p d) = Inr (Some ts) \<and>
    fst (GetQueuesPerPartition env p d') = Inr (Some ts') \<and> unordered_forest ts' = unordered_forest ts"
proof -
  let ?sel = "\<lambda>d. filter (\<lambda>r. queue_Partition (qr_info r) = p) (queues_t d)"
  have "parents_before [] (?sel d)" "distinct (map qr_id (?sel d))"
    using assms(2) parents_before_filter [of "[]" "queues_t d" p "[]"] distinct_map_filter [of qr_id "queues_t d"]
    by (simp_all add: queue_inv_def table_wf_def)
  then obtain ts where ts: "build_forest (?sel d) = Some ts" using build_forest_terminates by blast
  have "mset (?sel d) = mset (?sel d')" using assms(3) by simp
  from build_forest_perm [OF this ts] ts assms(1) show ?thesis by (auto simp: GetQueuesPerPartition_def)
qed

theorem GetQueuesPerPartition_any_order_witness:
  "\<exists>ts ts'. fst (GetQueuesPerPartition demo_env ''default'' demo_queue_db) = Inr (Some ts) \<and>
     fst (GetQueuesPerPartition demo_env ''default'' (demo_queue_db\<lparr>queues_t := rev (queues_t demo_queue_db)\<rparr>)) = Inr (Some ts') \<and>
     unordered_forest ts' = unordered_forest ts"
  by (rule GetQueuesPerPartition_any_order [OF healthy_demo_env demo_queue_db_inv]) simp

end
