(* ===== verification/Sync_Served.thy ===== *)
theory Sync_Served
  imports Sync_Storage Queue_Order
begin

text \<open>
  What a sync stores is what the server reads: the queue job of a sync followed by
  \<open>GetQueuesPerPartition\<close> gives back the queue trees of the scheduler, for the first sync and for later
  ones, in whatever order the rows are. \<open>grows R t q\<close> says that the stored tree \<open>t\<close> has the shape of the
  tree \<open>q\<close> of the scheduler, with rows that are related to its queues by \<open>R\<close>.
\<close>

section \<open>Stored trees and reported trees\<close>

primrec grows :: "(QueueRow \<Rightarrow> PartitionQueueDAOInfo \<Rightarrow> bool) \<Rightarrow> StoredQueue \<Rightarrow> PartitionQueueDAOInfo \<Rightarrow> bool" where
  "grows R (StoredQueue r ts) q \<longleftrightarrow> R r q \<and> list_all2 (\<lambda>f c. f c) (map (grows R) ts) (qChildren q)"

lemma grows_node [simp]: "grows R (StoredQueue r ts) q \<longleftrightarrow> R r q \<and> list_all2 (grows R) ts (qChildren q)"
  by (simp add: list_all2_map1)

declare grows.simps [simp del]

abbreviation reported :: "PartitionQueueDAOInfo \<Rightarrow> PartitionQueueDAOInfo" where
  "reported q \<equiv> propagate (queue_Partition (qinfo q)) q"

lemma grows_mono: "(\<And>r q. R r q \<Longrightarrow> S r q) \<Longrightarrow> grows R t q \<Longrightarrow> grows S t q"
  by (induction t arbitrary: q) (auto elim!: list.rel_mono_strong)

lemma list_all2_member: "list_all2 P xs ys \<Longrightarrow> x \<in> set xs \<Longrightarrow> \<exists>y \<in> set ys. P x y"
  by (induction rule: list_all2_induct) auto

lemma qChildren_propagate [simp]: "qChildren (propagate p q) = map (propagate p) (qChildren q)"
  by (cases q) simp

lemma qinfo_set_partition [simp]: "qinfo (set_partition p q) = (qinfo q)\<lparr>queue_Partition := p\<rparr>"
  by (cases q) (simp add: set_partition_def)

text \<open>Rows in the order of \<open>flattenQueues\<close> are the rows of a forest.\<close>

lemma flatten_grows:
  "list_all2 R rs (flattenQueues qs) \<Longrightarrow> \<exists>ts. forest_rows ts = rs \<and> list_all2 (grows R) ts (map reported qs)"
proof (induction qs arbitrary: rs rule: flattenQueues.induct)
  case 1
  then show ?case by (simp add: forest_rows_def)
next
  case (2 q qs)
  let ?p = "queue_Partition (qinfo q)"
  let ?cs = "map (set_partition ?p) (qChildren q)"
  obtain r cs rest where rs: "rs = r # cs @ rest" "R r (reported q)"
      "list_all2 R cs (if qChildren q \<noteq> [] then flattenQueues ?cs else [])" "list_all2 R rest (flattenQueues qs)"
    using "2.prems" by (auto simp: list_all2_Cons2 list_all2_append2)
  have "\<exists>ts. forest_rows ts = cs \<and> list_all2 (grows R) ts (map (propagate ?p) (qChildren q))"
  proof (cases "qChildren q = []")
    case True
    with rs(3) show ?thesis by (simp add: forest_rows_def)
  next
    case False
    with rs(3) "2.IH"(1) [OF False, of cs] show ?thesis by (simp add: comp_def)
  qed
  moreover obtain us where "forest_rows us = rest" "list_all2 (grows R) us (map reported qs)"
    using "2.IH"(2) [OF rs(4)] by blast
  ultimately obtain ts where "forest_rows (StoredQueue r ts # us) = rs"
      "list_all2 (grows R) (StoredQueue r ts # us) (map reported (q # qs))"
    using rs(1,2) by (auto simp: forest_rows_def)
  then show ?case by blast
qed

text \<open>In a table with the invariant such a forest is linked: a row has the row above it as parent.\<close>

definition row_of :: "QueueRow \<Rightarrow> PartitionQueueDAOInfo \<Rightarrow> bool" where
  "row_of r q \<longleftrightarrow> queue_key r = dao_key q \<and> queue_Parent (qr_info r) = queue_Parent (qinfo q)"

lemma child_linked:
  assumes "distinct (map queue_key T)" and "named_parents T" and "r \<in> set T" and "c \<in> set T"
    and "queue_key r = (queue_Partition (qr_info c), queue_Parent (qr_info c))" and "queue_Parent (qr_info c) \<noteq> []"
  shows "qr_parent_id c = Some (qr_id r)"
proof -
  have "qr_parent_id c \<noteq> None" using assms(2,4,6) by (auto simp: named_parents_def)
  then obtain i r' where i: "qr_parent_id c = Some i" "r' \<in> set T" "qr_id r' = i" "queue_key r' = queue_key r"
    using assms(2,4,5) unfolding named_parents_def by fastforce
  with assms(1,3) have "r' = r" by (auto simp: distinct_map inj_on_def)
  with i show ?thesis by simp
qed

lemma grows_linked:
  assumes "distinct (map queue_key T)" and "named_parents T"
  shows "set (sq_rows t) \<subseteq> set T \<Longrightarrow> grows row_of t (propagate p q) \<Longrightarrow> named_tree q \<Longrightarrow> [] \<notin> set (queue_names q) \<Longrightarrow>
    linked_tree (qr_parent_id (sqRow t)) t"
proof (induction t arbitrary: q)
  case (StoredQueue r ts)
  have r: "queue_key r = (p, queue_QueueName (qinfo q))" and q: "queue_QueueName (qinfo q) \<noteq> []"
    using StoredQueue.prems(2,4) by (auto simp: row_of_def queue_names_root [of q])
  have "linked_tree (Some (qr_id r)) t" if t: "t \<in> set ts" for t
  proof -
    obtain c where c: "c \<in> set (qChildren q)" "grows row_of t (propagate p c)"
      using StoredQueue.prems(2) list_all2_member [of _ ts _ t] t by (auto simp: list_all2_map2)
    have n: "named_tree c" "queue_Parent (qinfo c) = queue_QueueName (qinfo q)" "[] \<notin> set (queue_names c)"
      using StoredQueue.prems(3,4) c(1) by (auto simp: named_tree_root [of q] queue_names_root [of q] list_all_iff)
    have s: "set (sq_rows t) \<subseteq> set T" "sqRow t \<in> set (sq_rows t)"
      using StoredQueue.prems(1) t by fastforce (simp add: sq_rows_root [of t])
    have "row_of (sqRow t) (propagate p c)" using c(2) by (cases t) simp
    then have "qr_parent_id (sqRow t) = Some (qr_id r)"
      using s r q n(2) StoredQueue.prems(1) by (intro child_linked [OF assms]) (auto simp: row_of_def queue_key_def)
    with StoredQueue.IH [OF t s(1) c(2) n(1,3)] show ?thesis by simp
  qed
  then show ?case by (simp add: list_all_iff)
qed

section \<open>A partition whose rows are the queues of the trees\<close>

lemma rows_in_order:
  assumes "distinct (map f R)" and "distinct ks" and "set ks = f ` set R"
  shows "\<exists>rs. mset rs = mset R \<and> map f rs = ks"
proof -
  let ?rs = "map (the_inv_into (set R) f) ks"
  have i: "inj_on f (set R)" "distinct R" using assms(1) by (simp_all add: distinct_map)
  have m: "map f ?rs = ks"
    unfolding map_map using assms(3) by (intro map_idI) (simp add: f_the_inv_into_f [OF i(1)])
  have "distinct ?rs" using assms(2) m by (metis distinct_map)
  moreover have "set ?rs = set R"
    using assms(3) i(1) by (simp add: image_image the_inv_into_f_f)
  ultimately show ?thesis using m i(2) by (metis set_eq_iff_mset_eq_distinct)
qed

lemma flatten_partition:
  "filter (\<lambda>q. queue_Partition (qinfo q) = P) (flattenQueues qs) =
     flattenQueues (filter (\<lambda>q. queue_Partition (qinfo q) = P) qs)"
proof (induction qs rule: flattenQueues.induct)
  case (2 q qs)
  have "filter (\<lambda>c. queue_Partition (qinfo c) = P) (map (set_partition p) cs) = (if p = P then map (set_partition p) cs else [])"
    for p and cs :: "PartitionQueueDAOInfo list"
    by (induction cs) simp_all
  with 2 show ?case by auto
qed simp

text \<open>The queues of the trees, each with its row.\<close>

definition rows_of_trees :: "(QueueRow \<Rightarrow> PartitionQueueDAOInfo \<Rightarrow> bool) \<Rightarrow> PartitionQueueDAOInfo list \<Rightarrow> QueueRow list \<Rightarrow> bool" where
  "rows_of_trees R qs rows \<longleftrightarrow> queue_key ` set rows = dao_key ` set (flattenQueues qs) \<and>
     (\<forall>q \<in> set (flattenQueues qs). \<exists>r \<in> set rows. R r q)"

lemma rows_of_trees_ordered:
  assumes "distinct (map queue_key rows)" and "distinct (map dao_key (flattenQueues qs))"
    and "rows_of_trees R qs rows" and "\<And>r q. R r q \<Longrightarrow> queue_key r = dao_key q"
  shows "\<exists>rs. mset rs = mset rows \<and> list_all2 R rs (flattenQueues qs)"
proof -
  let ?fl = "flattenQueues qs"
  obtain rs where rs: "mset rs = mset rows" "map queue_key rs = map dao_key ?fl"
    using rows_in_order [OF assms(1,2)] assms(3) by (auto simp: rows_of_trees_def)
  have "R (rs ! i) (?fl ! i)" if i: "i < length ?fl" for i
  proof -
    have l: "i < length rs" using i rs(2) by (metis length_map)
    then have m: "rs ! i \<in> set rows" using rs(1) by (metis nth_mem set_mset_mset)
    obtain r where r: "r \<in> set rows" "R r (?fl ! i)"
      using assms(3) nth_mem [OF i] unfolding rows_of_trees_def by blast
    have "queue_key (rs ! i) = dao_key (?fl ! i)" using rs(2) i l by (metis nth_map)
    with assms(1,4) r m have "r = rs ! i" by (auto simp: distinct_map inj_on_def)
    with r(2) show ?thesis by simp
  qed
  moreover have "length rs = length ?fl" using rs(2) by (metis length_map)
  ultimately show ?thesis using rs(1) by (intro exI [of _ rs]) (simp add: list_all2_conv_all_nth)
qed

lemma partition_forest:
  assumes "healthy_env env" and "queue_inv env d"
    and "list_all (\<lambda>q. queue_Parent (qinfo q) = [] \<and> named_tree q \<and> [] \<notin> set (queue_names q)) qs"
    and "distinct (map dao_key (flattenQueues qs))"
    and "rows_of_trees R qs (filter (\<lambda>r. queue_Partition (qr_info r) = P) (queues_t d))"
    and "\<And>r q. R r q \<Longrightarrow> row_of r q"
  shows "\<exists>ts ts'. fst (GetQueuesPerPartition env P d) = Inr (Some ts) \<and> unordered_forest ts = unordered_forest ts' \<and>
    list_all2 (grows R) ts' (map reported qs)"
proof -
  let ?T = "queues_t d" and ?rows = "filter (\<lambda>r. queue_Partition (qr_info r) = P) (queues_t d)"
  have T: "distinct (map queue_key ?T)" "distinct (map qr_id ?T)" "named_parents ?T"
    using assms(2) by (simp_all add: queue_inv_def table_wf_def)
  have "distinct (map queue_key ?rows)" using T(1) by (rule distinct_map_filter)
  from rows_of_trees_ordered [OF this assms(4,5)] assms(6)
  obtain rs where rs: "mset rs = mset ?rows" "list_all2 R rs (flattenQueues qs)" by (auto simp: row_of_def)
  obtain ts' where ts': "forest_rows ts' = rs" "list_all2 (grows R) ts' (map reported qs)"
    using flatten_grows [OF rs(2)] by blast
  have sub: "set rs \<subseteq> set ?T" using rs(1) by (metis filter_is_subset set_mset_mset)
  have "linked_tree None t" if t: "t \<in> set ts'" for t
  proof -
    obtain q where q: "q \<in> set qs" "grows R t (reported q)"
      using list_all2_member [OF ts'(2) t] by auto
    have g: "grows row_of t (reported q)" using grows_mono [OF assms(6) q(2)] .
    have s: "set (sq_rows t) \<subseteq> set ?T" using t sub unfolding ts'(1) [symmetric] forest_rows_def by fastforce
    have "row_of (sqRow t) (reported q)" using g by (cases t) simp
    then have "qr_parent_id (sqRow t) = None"
      using assms(3) q(1) T(3) s by (auto simp: row_of_def named_parents_def list_all_iff sq_rows_root [of t])
    with grows_linked [OF T(1,3) s g] assms(3) q(1) show ?thesis by (auto simp: list_all_iff)
  qed
  moreover have "distinct (concat (map tree_ids ts'))"
    unfolding forest_ids ts'(1) using T(2) rs(1) by (metis distinct_map_filter mset_eq_imp_distinct_iff mset_map)
  ultimately have "build_forest rs = Some ts'"
    using build_forest_linked [of ts'] ts'(1) by (simp add: list_all_iff)
  from build_forest_perm [OF rs(1) this] obtain ts where "build_forest ?rows = Some ts"
      "unordered_forest ts' = unordered_forest ts" by blast
  with ts'(2) assms(1) show ?thesis
    by (intro exI [of _ ts] exI [of _ ts']) (simp add: GetQueuesPerPartition_def)
qed

section \<open>The queue job and the reader\<close>

text \<open>The row of a queue after a sync; \<open>old\<close> is the table before it.\<close>

definition stored_as :: "QueueRow list \<Rightarrow> QueueRow \<Rightarrow> PartitionQueueDAOInfo \<Rightarrow> bool" where
  "stored_as old r q \<longleftrightarrow> row_of r q \<and> qr_deleted_at r = None \<and> up_to_date q r \<and>
     (dao_key q \<notin> queue_key ` set old \<longrightarrow> qr_info r = qinfo q)"

text \<open>Every queue that is stored for a partition is still reported, below the same parent.\<close>

definition still_reported :: "string \<Rightarrow> PartitionQueueDAOInfo list \<Rightarrow> QueueRow list \<Rightarrow> bool" where
  "still_reported P qs rows \<longleftrightarrow> (\<forall>r \<in> set rows. queue_Partition (qr_info r) = P \<longrightarrow>
     (\<exists>q \<in> set (flattenQueues qs). row_of r q))"

lemma UpsertQueues_keys:
  assumes "UpsertQueues env qs d = (None, d')"
  shows "queue_key ` set (queues_t d') = dao_key ` set qs \<union> queue_key ` set (queues_t d)"
  using assms unfolding UpsertQueues_def
proof (induction qs arbitrary: d)
  case (Cons q qs)
  obtain d1 where u: "UpsertQueue env q d = (None, d1)" "for_each (UpsertQueue env) qs d1 = (None, d')"
    using Cons.prems by (auto split: prod.splits option.splits)
  from Cons.IH [OF u(2)] UpsertQueue_effect(1) [OF u(1)] show ?case by auto
qed simp

lemma synced_rows:
  assumes "UpsertQueues env (flattenQueues qs) d = (None, d')" and "queue_inv env d'"
    and "\<forall>q \<in> set (flattenQueues qs). stored (queues_t d) q (queues_t d')"
    and "distinct (map dao_key (flattenQueues qs))" and "still_reported P qs (queues_t d)"
    and "q \<in> set (flattenQueues qs)" and "queue_Partition (qinfo q) = P"
  shows "\<exists>r \<in> set (queues_t d'). stored_as (queues_t d) r q"
proof -
  obtain r where r: "r \<in> set (queues_t d')" "queue_key r = dao_key q" "qr_deleted_at r = None" "up_to_date q r"
      "dao_key q \<notin> queue_key ` set (queues_t d) \<longrightarrow> qr_info r = qinfo q"
    using assms(3,6) unfolding stored_def by blast
  have "queue_Parent (qr_info r) = queue_Parent (qinfo q)"
  proof (cases "dao_key q \<in> queue_key ` set (queues_t d)")
    case True
    then obtain r0 where r0: "r0 \<in> set (queues_t d)" "queue_key r0 = dao_key q" by auto
    then obtain q0 where q0: "q0 \<in> set (flattenQueues qs)" "row_of r0 q0"
      using assms(5,7) by (auto simp: still_reported_def queue_key_def dao_key_def)
    then have "q0 = q" using assms(4,6) r0(2) by (auto simp: row_of_def distinct_map inj_on_def)
    obtain r1 where r1: "r1 \<in> set (queues_t d')" "same_links r0 r1"
      using UpsertQueues_rows_stay [OF assms(1) r0(1)] by blast
    then have "r1 = r"
      using r(1,2) r0(2) assms(2) same_linksD(2) [OF r1(2)]
      by (auto simp: queue_inv_def table_wf_def distinct_map inj_on_def)
    with q0(2) \<open>q0 = q\<close> same_linksD(4) [OF r1(2)] show ?thesis by (simp add: row_of_def)
  next
    case False
    with r(5) show ?thesis by simp
  qed
  with r show ?thesis by (auto simp: stored_as_def row_of_def)
qed

lemma synced_rows_of_trees:
  assumes "UpsertQueues env (flattenQueues qs) d = (None, d')" and "queue_inv env d'"
    and "\<forall>q \<in> set (flattenQueues qs). stored (queues_t d) q (queues_t d')"
    and "distinct (map dao_key (flattenQueues qs))" and "still_reported P qs (queues_t d)"
  shows "rows_of_trees (stored_as (queues_t d)) (filter (\<lambda>q. queue_Partition (qinfo q) = P) qs)
    (filter (\<lambda>r. queue_Partition (qr_info r) = P) (queues_t d'))"
proof -
  let ?fl = "filter (\<lambda>q. queue_Partition (qinfo q) = P) (flattenQueues qs)"
  have fst_key: "queue_Partition (qr_info r) = fst (queue_key r)" "queue_Partition (qinfo q) = fst (dao_key q)" for r q
    by (simp_all add: queue_key_def dao_key_def)
  have k: "queue_key ` set (queues_t d') = dao_key ` set (flattenQueues qs) \<union> queue_key ` set (queues_t d)"
    using UpsertQueues_keys [OF assms(1)] .
  have old: "k \<in> dao_key ` set (flattenQueues qs)" if "k \<in> queue_key ` set (queues_t d)" "fst k = P" for k
    using assms(5) that unfolding still_reported_def fst_key row_of_def by fastforce
  have "queue_key ` set (filter (\<lambda>r. queue_Partition (qr_info r) = P) (queues_t d')) = {k \<in> queue_key ` set (queues_t d'). fst k = P}"
    unfolding fst_key by auto
  also have "\<dots> = {k \<in> dao_key ` set (flattenQueues qs). fst k = P}" unfolding k using old by blast
  also have "\<dots> = dao_key ` set ?fl" unfolding fst_key by auto
  finally have keys: "queue_key ` set (filter (\<lambda>r. queue_Partition (qr_info r) = P) (queues_t d')) = dao_key ` set ?fl" .
  have "\<exists>r \<in> set (filter (\<lambda>r. queue_Partition (qr_info r) = P) (queues_t d')). stored_as (queues_t d) r q"
    if "q \<in> set ?fl" for q
    using synced_rows [OF assms, of q] that by (auto simp: stored_as_def row_of_def queue_key_def dao_key_def)
  with keys show ?thesis unfolding rows_of_trees_def flatten_partition [symmetric] by blast
qed

lemma flattenQueues_distinct: "scheduler_trees qs \<Longrightarrow> distinct (map dao_key (flattenQueues qs))"
  by (simp add: flattenQueues_keys scheduler_trees_def)

lemma synced_queues_read:
  assumes "healthy_env env" and "queue_inv env d" and "scheduler_trees qs"
    and "\<forall>k \<in> set (concat (map tree_keys qs)). \<not> dead k (queues_t d)"
    and "\<forall>q \<in> set qs. [] \<notin> set (queue_names q)" and "still_reported P qs (queues_t d)"
  shows "\<exists>d'. UpsertQueues env (flattenQueues qs) d = (None, d') \<and>
    (\<exists>ts ts'. fst (GetQueuesPerPartition env P d') = Inr (Some ts) \<and> unordered_forest ts = unordered_forest ts' \<and>
      list_all2 (grows (stored_as (queues_t d))) ts'
        (map (propagate P) (filter (\<lambda>q. queue_Partition (qinfo q) = P) qs)))"
proof -
  let ?qs = "filter (\<lambda>q. queue_Partition (qinfo q) = P) qs"
  obtain d' where u: "UpsertQueues env (flattenQueues qs) d = (None, d')" "queue_inv env d'"
      "\<forall>q \<in> set (flattenQueues qs). stored (queues_t d) q (queues_t d')"
    using UpsertQueues_flatten [OF assms(1-4)] by blast
  note di = flattenQueues_distinct [OF assms(3)]
  have "list_all (\<lambda>q. queue_Parent (qinfo q) = [] \<and> named_tree q \<and> [] \<notin> set (queue_names q)) ?qs"
    using assms(3,5) by (auto simp: scheduler_trees_def list_all_iff)
  moreover have "distinct (map dao_key (flattenQueues ?qs))"
    unfolding flatten_partition [symmetric] using di by (rule distinct_map_filter)
  ultimately have "\<exists>ts ts'. fst (GetQueuesPerPartition env P d') = Inr (Some ts) \<and> unordered_forest ts = unordered_forest ts' \<and>
      list_all2 (grows (stored_as (queues_t d))) ts' (map reported ?qs)"
    using partition_forest [OF assms(1) u(2) _ _ synced_rows_of_trees [OF u di assms(6)]] by (simp add: stored_as_def)
  moreover have "map reported ?qs = map (propagate P) ?qs" by simp
  ultimately show ?thesis using u(1) by (simp only:) blast
qed

end
