(* ===== verification/Web_Dispatch.thy ===== *)
theory Web_Dispatch
  imports App_Queries Queue_Forest
begin

text \<open>
  The web service as a whole: \<open>init\<close> of \<open>routes.go\<close> registers a handler for every pattern and
  \<open>serveSPA\<close> for everything else, behind the CORS handler; \<open>handle\<close> is the registered function of a route and
  \<open>ServeHTTP\<close> the composition. httprouter and rs/cors are parameters: \<open>router_law\<close> states what the documentation
  of the router says of the patterns that \<open>init\<close> registers, \<open>cors_law\<close> which requests the CORS handler answers itself. The locale \<open>reader\<close> is the contract of the repository methods that the handlers call.
\<close>

section \<open>Requests\<close>

text \<open>
  What a handler works with: the web service, the checks of the components and the order in which they
  finish, host name and time, the file system, and which requests the CORS handler answers itself (preflights).
\<close>

record ('s, 'c) web_deps =
  web_check :: "'c \<Rightarrow> ComponentStatus ctx_call"
  web_order :: "'c list"
  web_hostname :: string
  web_now :: int
  web_join :: "string \<Rightarrow> string \<Rightarrow> string"
  web_stat :: "string \<Rightarrow> stat_answer"
  web_preflight :: "cors_Options \<Rightarrow> http_request \<Rightarrow> bool"
  web_service :: "('s, 'c) WebService"

text \<open>\<open>None\<close>: no response is written.\<close>

fun handle :: "('s, 'c) web_deps \<Rightarrow> handler \<Rightarrow> http_request \<Rightarrow> 's \<Rightarrow> (http_response \<times> 's) option" where
  "handle w H_getPartitions r d = Some (getPartitions (web_service w) r d)"
| "handle w H_getQueuesPerPartition r d = getQueuesPerPartition (web_service w) r d"
| "handle w H_getAppsPerPartitionPerQueue r d = Some (getAppsPerPartitionPerQueue (web_service w) r d)"
| "handle w H_getNodesPerPartition r d = Some (getNodesPerPartition (web_service w) r d)"
| "handle w H_getAppsHistory r d = Some (getAppsHistory (web_service w) r d)"
| "handle w H_getContainersHistory r d = Some (getContainersHistory (web_service w) r d)"
| "handle w H_getNodeUtilizations r d = Some (getNodeUtilizations (web_service w) r d)"
| "handle w H_getEventStatistics r d = Some (getEventStatistics (web_service w) r, d)"
| "handle w H_Liveness r d = Some (LivenessHealthcheck (web_hostname w) (web_now w) (web_service w), d)"
| "handle w H_Readiness r d =
     Some (ReadinessHealthcheck (web_check w) (web_hostname w) (web_now w) (web_order w) (web_service w), d)"

text \<open>
  The router's answer to a method and a path: the value registered for a pattern with the parameters, a redirection to
  a cleaned path, a status of its own (405 for another method of a registered path, 200 for \<open>OPTIONS\<close>), or nothing.
\<close>

datatype 'h route_match = Matched 'h "(string \<times> string) list" | Redirected string | Replied int | Unmatched

datatype web_answer = Answered http_response | RedirectTo string | RouterReply int | Preflight | Spa spa_answer

definition ByName :: "(string \<times> string) list \<Rightarrow> string \<Rightarrow> string" where
  "ByName ps nm = (case map_of ps nm of None \<Rightarrow> [] | Some v \<Rightarrow> v)"

type_synonym router = "(string \<times> string \<times> handler) list \<Rightarrow> string \<Rightarrow> string \<Rightarrow> handler route_match"

text \<open>The calls of \<open>router.Handle\<close>.\<close>

definition registered :: "(string \<times> string \<times> handler) list" where
  "registered = map (\<lambda>(pat, h). (''GET'', pat, h)) routes"

text \<open>\<open>None\<close>: no response is written, because a handler does not return or because it panics.\<close>

definition ServeHTTP :: "router \<Rightarrow> ('s, 'c) web_deps \<Rightarrow> http_request \<Rightarrow> 's \<Rightarrow> (web_answer \<times> 's) option" where
  "ServeHTTP lookup w r d =
     (if web_preflight w (ws_corsConfig (web_service w)) r then Some (Preflight, d)
      else (case lookup registered (req_Method r) (req_Path r) of
          Matched h ps \<Rightarrow> map_option (map_prod Answered id) (handle w h (r\<lparr>req_Params := ByName ps\<rparr>) d)
        | Redirected p \<Rightarrow> Some (RedirectTo p, d)
        | Replied st \<Rightarrow> Some (RouterReply st, d)
        | Unmatched \<Rightarrow> map_option (\<lambda>a. (Spa a, d)) (serveSPA (web_join w) (web_stat w) (web_service w) r)))"

text \<open>rs/cors: a preflight is a request \<open>OPTIONS\<close> with the header that asks for a method.\<close>

definition cors_law :: "(cors_Options \<Rightarrow> http_request \<Rightarrow> bool) \<Rightarrow> bool" where
  "cors_law preflight \<longleftrightarrow>
     (\<forall>opts r. preflight opts r \<longleftrightarrow> req_Method r = ''OPTIONS'' \<and> req_Header r ''Access-Control-Request-Method'' \<noteq> [])"

section \<open>Patterns\<close>

definition is_param :: "string \<Rightarrow> bool" where
  "is_param p \<longleftrightarrow> p \<noteq> [] \<and> hd p = CHR '':''"

fun match_segments :: "string list \<Rightarrow> string list \<Rightarrow> (string \<times> string) list option" where
  "match_segments [] [] = Some []"
| "match_segments (p # ps) (s # ss) =
     (if is_param p then map_option ((#) (tl p, s)) (match_segments ps ss)
      else if p = s then match_segments ps ss else None)"
| "match_segments _ _ = None"

definition match_pattern :: "string \<Rightarrow> string \<Rightarrow> (string \<times> string) list option" where
  "match_pattern pat path = match_segments (split_on (CHR ''/'') pat) (split_on (CHR ''/'') path)"

text \<open>
  httprouter on the registered patterns, whose parameters are whole segments: a request is handled by a route of its
  method whose pattern its path matches, a segment \<open>:name\<close> for one segment of the path; when the path matches one
  route of the method only, with no empty parameter, that route handles it.
\<close>

definition router_law :: "router \<Rightarrow> bool" where
  "router_law lookup \<longleftrightarrow>
     (\<forall>m path h ps. lookup registered m path = Matched h ps \<longrightarrow>
        (\<exists>pat. (m, pat, h) \<in> set registered \<and> match_pattern pat path = Some ps)) \<and>
     (\<forall>m path pat h ps. (m, pat, h) \<in> set registered \<and> match_pattern pat path = Some ps \<and> (\<forall>(nm, v) \<in> set ps. v \<noteq> []) \<and>
        (\<forall>(m', pat', h') \<in> set registered. m' = m \<and> match_pattern pat' path \<noteq> None \<longrightarrow> pat' = pat \<and> h' = h) \<longrightarrow>
        lookup registered m path = Matched h ps)"

text \<open>The path of a pattern with values for its parameters.\<close>

fun fill_segments :: "string list \<Rightarrow> string list \<Rightarrow> string list" where
  "fill_segments [] vs = []"
| "fill_segments (p # ps) vs =
     (if is_param p then hd vs # fill_segments ps (tl vs) else p # fill_segments ps vs)"

definition fill_pattern :: "string \<Rightarrow> string list \<Rightarrow> string" where
  "fill_pattern pat vs = join ''/'' (fill_segments (split_on (CHR ''/'') pat) vs)"

definition param_names :: "string \<Rightarrow> string list" where
  "param_names pat = map tl (filter is_param (split_on (CHR ''/'') pat))"

text \<open>A concrete router with the law: the first route that matches.\<close>

fun first_match :: router where
  "first_match [] m path = Unmatched"
| "first_match ((m', pat, h) # rts) m path =
     (if m' = m then (case match_pattern pat path of Some ps \<Rightarrow> Matched h ps | None \<Rightarrow> first_match rts m path)
      else first_match rts m path)"

section \<open>The contract of the readers\<close>

text \<open>
  A method of the repository that a handler calls: it sends one statement, which changes no table, and on a
  healthy connection it returns an error exactly when the database refuses its query.
\<close>

locale reader =
  fixes read :: "pgenv \<Rightarrow> db \<Rightarrow> 'a result \<times> db" and refused :: "db \<Rightarrow> bool"
  assumes read_only: "read env d = (res, d') \<Longrightarrow> d' = d\<lparr>stmtCtr := Suc (stmtCtr d)\<rparr>"
    and healthy_reads: "healthy_env env \<Longrightarrow> (\<exists>e. fst (read env d) = Inl e) \<longleftrightarrow> refused d"
begin

lemma respond_cases:
  assumes "respond r f (read env d) = (resp, d')"
  shows "d' = d\<lparr>stmtCtr := Suc (stmtCtr d)\<rparr> \<and>
    ((\<exists>v. read env d = (Inr v, d') \<and> resp = jsonResponse (f v) \<and> \<not> (healthy_env env \<and> refused d)) \<or>
     (\<exists>e. read env d = (Inl e, d') \<and> resp = errorResponse r e \<and> (\<not> healthy_env env \<or> refused d)))"
proof -
  obtain res d1 where rd: "read env d = (res, d1)" by fastforce
  show ?thesis
  proof (cases res)
    case (Inl e)
    then have "\<not> healthy_env env \<or> refused d" using healthy_reads [of env d] rd by auto
    with Inl rd assms read_only [OF rd] show ?thesis by (auto simp: respond_def)
  next
    case (Inr v)
    then have "\<not> (healthy_env env \<and> refused d)" using healthy_reads [of env d] rd by auto
    with Inr rd assms read_only [OF rd] show ?thesis by (auto simp: respond_def)
  qed
qed

end

text \<open>Every reader is \<open>pg_rows\<close> followed by a function on the rows.\<close>

definition mapped_rows :: "('r list \<Rightarrow> 'a) \<Rightarrow> string \<Rightarrow> string \<Rightarrow> (db \<Rightarrow> 'r list) \<Rightarrow> pgenv \<Rightarrow> db \<Rightarrow> 'a result \<times> db" where
  "mapped_rows g qm sm sel env d =
     (case pg_rows env qm sm sel d of (Inl e, d') \<Rightarrow> (Inl e, d') | (Inr rows, d') \<Rightarrow> (Inr (g rows), d'))"

interpretation rows_reader: reader "mapped_rows g qm sm sel" "\<lambda>d. False" for g qm sm sel
proof unfold_locales
  fix env d res d'
  assume a: "mapped_rows g qm sm sel env d = (res, d')"
  obtain r1 d1 where p: "pg_rows env qm sm sel d = (r1, d1)" by fastforce
  have "d1 = d\<lparr>stmtCtr := Suc (stmtCtr d)\<rparr>" using p by (cases rule: pg_rows_cases)
  with a p show "d' = d\<lparr>stmtCtr := Suc (stmtCtr d)\<rparr>" by (auto simp: mapped_rows_def split: sum.splits)
qed (simp add: mapped_rows_def)

lemmas rows_readers = rows_reader.reader_axioms [unfolded mapped_rows_def]

text \<open>A reader whose query text the database may refuse.\<close>

interpretation select_reader: reader "\<lambda>env. pg_select env qm sm sel" "\<lambda>d. \<exists>e. sel (d\<lparr>stmtCtr := Suc (stmtCtr d)\<rparr>) = Inl e"
  for qm sm sel
proof unfold_locales
  fix env d res d'
  assume "pg_select env qm sm sel d = (res, d')"
  then show "d' = d\<lparr>stmtCtr := Suc (stmtCtr d)\<rparr>" by (cases rule: pg_select_cases)
qed (simp split: sum.split)

interpretation partitions_reader: reader GetAllPartitions "\<lambda>d. False"
  unfolding GetAllPartitions_def by (rule rows_readers)

interpretation queues_reader: reader "\<lambda>env. GetQueuesPerPartition env p" "\<lambda>d. False" for p
  unfolding GetQueuesPerPartition_def by (rule rows_readers)

definition apps_query_refused :: "sql_answer \<Rightarrow> string \<Rightarrow> string \<Rightarrow> ApplicationFilters \<Rightarrow> db \<Rightarrow> bool" where
  "apps_query_refused run_sql p q f d \<longleftrightarrow>
     (\<exists>e. run_sql (Query (queue_apps_builder p q f)) (Args (queue_apps_builder p q f)) (d\<lparr>stmtCtr := Suc (stmtCtr d)\<rparr>) = Inl e)"

interpretation apps_reader: reader "\<lambda>env. GetAppsPerPartitionPerQueue run_sql env p q f" "apps_query_refused run_sql p q f"
  for run_sql p q f
  unfolding GetAppsPerPartitionPerQueue_def Let_def apps_query_refused_def by (rule select_reader.reader_axioms)

interpretation nodes_reader: reader "\<lambda>env. GetNodesPerPartition env p" "\<lambda>d. False" for p
  unfolding GetNodesPerPartition_def by (rule rows_readers)

interpretation apps_history_reader: reader "GetApplicationsHistory int8" "\<lambda>d. False" for int8
  unfolding GetApplicationsHistory_def by (rule rows_readers)

interpretation containers_history_reader: reader "GetContainersHistory int8" "\<lambda>d. False" for int8
  unfolding GetContainersHistory_def by (rule rows_readers)

interpretation utilizations_reader: reader GetNodeUtilizations "\<lambda>d. False"
  unfolding GetNodeUtilizations_def by (rule rows_readers)

section \<open>What the handlers answer\<close>

text \<open>The kind of value that a route answers with.\<close>

primrec payload_kind :: "handler \<Rightarrow> payload \<Rightarrow> bool" where
  "payload_kind H_getPartitions b = (case b of PartitionsJ _ \<Rightarrow> True | _ \<Rightarrow> False)"
| "payload_kind H_getQueuesPerPartition b = (case b of QueuesJ _ \<Rightarrow> True | _ \<Rightarrow> False)"
| "payload_kind H_getAppsPerPartitionPerQueue b = (case b of AppsJ _ \<Rightarrow> True | _ \<Rightarrow> False)"
| "payload_kind H_getNodesPerPartition b = (case b of NodesJ _ \<Rightarrow> True | _ \<Rightarrow> False)"
| "payload_kind H_getAppsHistory b = (case b of AppsHistoryJ _ \<Rightarrow> True | _ \<Rightarrow> False)"
| "payload_kind H_getContainersHistory b = (case b of ContainersHistoryJ _ \<Rightarrow> True | _ \<Rightarrow> False)"
| "payload_kind H_getNodeUtilizations b = (case b of UtilJ _ \<Rightarrow> True | _ \<Rightarrow> False)"
| "payload_kind H_getEventStatistics b = (case b of CountsJ _ \<Rightarrow> True | _ \<Rightarrow> False)"
| "payload_kind H_Liveness b = (case b of LivenessJ _ \<Rightarrow> True | _ \<Rightarrow> False)"
| "payload_kind H_Readiness b = (case b of ReadinessJ _ \<Rightarrow> True | _ \<Rightarrow> False)"

text \<open>An RFC 7807 response: the details repeat the status and the path of the request.\<close>

definition problem_of :: "http_request \<Rightarrow> int \<Rightarrow> http_response \<Rightarrow> bool" where
  "problem_of r st resp \<longleftrightarrow> resp_Status resp = st \<and> resp_ContentType resp = Some ''application/problem+json'' \<and>
     (\<exists>p. resp_Body resp = ProblemJ p \<and> pd_Status p = st \<and> pd_Instance p = req_Path r \<and> pd_Type p = ''about:blank'' \<and>
        resp_Log resp = [''error processing request for '' @ req_Path r @ '': '' @ pd_Detail p])"

definition sends_statement :: "handler \<Rightarrow> bool" where
  "sends_statement h \<longleftrightarrow> h \<notin> {H_getEventStatistics, H_Liveness, H_Readiness}"

definition bad_filters :: "handler \<Rightarrow> http_request \<Rightarrow> bool" where
  "bad_filters h r \<longleftrightarrow> h = H_getAppsPerPartitionPerQueue \<and> (\<exists>e. parseApplicationFilters r = Inl e)"

text \<open>The database refuses the query text that the filters of the request give.\<close>

definition query_refused :: "sql_answer \<Rightarrow> handler \<Rightarrow> http_request \<Rightarrow> db \<Rightarrow> bool" where
  "query_refused run_sql h r d \<longleftrightarrow> h = H_getAppsPerPartitionPerQueue \<and> (\<exists>f. parseApplicationFilters r = Inr f \<and>
     apps_query_refused run_sql (req_Params r ''partition_name'') (req_Params r ''queue_name'') f d)"

text \<open>
  The type of a response. A request whose filters do not parse: status 400 and no statement. Otherwise the value of
  the route's kind with status 200, or problem details with status 500 when the connection fails or the database
  refuses the query; at most one statement is sent, which changes no table.
\<close>

definition typed_answer ::
    "sql_answer \<Rightarrow> pgenv \<Rightarrow> handler \<Rightarrow> http_request \<Rightarrow> db \<Rightarrow> http_response \<Rightarrow> db \<Rightarrow> bool" where
  "typed_answer run_sql env h r d resp d' \<longleftrightarrow>
     (if bad_filters h r then problem_of r 400 resp \<and> d' = d
      else d' = (if sends_statement h then d\<lparr>stmtCtr := Suc (stmtCtr d)\<rparr> else d) \<and>
        (resp_Status resp = 200 \<and> payload_kind h (resp_Body resp) \<and> \<not> (healthy_env env \<and> query_refused run_sql h r d) \<or>
         problem_of r 500 resp \<and> sends_statement h \<and> (\<not> healthy_env env \<or> query_refused run_sql h r d)))"

lemma problem_of_simps [simp]:
  "problem_of r 500 (errorResponse r e)" "problem_of r 400 (badRequestResponse r e)"
  by (simp_all add: problem_of_def errorResponse_def badRequestResponse_def problem_response_def extra_args_def)

lemma jsonResponse_simps [simp]: "resp_Status (jsonResponse v) = 200" "resp_Body (jsonResponse v) = v"
  by (simp_all add: jsonResponse_def)

lemma getQueues_respond:
  assumes "getQueuesPerPartition ws r d = Some (resp, d')" and "ws_repository ws = pg_repository sql int8 env"
  shows "respond r (\<lambda>v. QueuesJ (case v of None \<Rightarrow> [] | Some qs \<Rightarrow> qs))
    (GetQueuesPerPartition env (req_Params r ''partition_name'') d) = (resp, d')"
  using assms(1) by (auto simp: getQueuesPerPartition_def assms(2) respond_def split: prod.splits sum.splits option.splits)

lemma handle_typed:
  assumes "handle w h r d = Some (resp, d')" and R: "ws_repository (web_service w) = pg_repository sql int8 env"
  shows "typed_answer sql env h r d resp d'"
proof (cases h)
  case H_getQueuesPerPartition
  with assms(1) show ?thesis
    by (auto simp: typed_answer_def bad_filters_def sends_statement_def query_refused_def
        dest!: getQueues_respond [OF _ R] queues_reader.respond_cases)
next
  case H_getAppsPerPartitionPerQueue
  show ?thesis
  proof (cases "parseApplicationFilters r")
    case (Inl e)
    with assms H_getAppsPerPartitionPerQueue show ?thesis
      by (auto simp: typed_answer_def bad_filters_def getAppsPerPartitionPerQueue_def)
  next
    case (Inr f)
    with assms(1) H_getAppsPerPartitionPerQueue show ?thesis
      by (auto simp: typed_answer_def bad_filters_def sends_statement_def query_refused_def getAppsPerPartitionPerQueue_def R Let_def
          dest!: apps_reader.respond_cases)
  qed
qed (use assms(1) in \<open>auto simp: typed_answer_def bad_filters_def sends_statement_def query_refused_def R getPartitions_def
    getNodesPerPartition_def getAppsHistory_def getContainersHistory_def getNodeUtilizations_def getEventStatistics_def
    Counts_def LivenessHealthcheck_def ReadinessHealthcheck_def
    dest!: partitions_reader.respond_cases nodes_reader.respond_cases apps_history_reader.respond_cases
      containers_history_reader.respond_cases utilizations_reader.respond_cases\<close>)

lemma handle_answers:
  assumes "queue_inv env d" and "ws_repository (web_service w) = pg_repository sql int8 env"
  shows "handle w h r d \<noteq> None"
proof (cases h)
  case H_getQueuesPerPartition
  with GetQueuesPerPartition_result [OF assms(1), of "req_Params r ''partition_name''"] show ?thesis
    by (auto simp: getQueuesPerPartition_def assms(2) split: prod.splits sum.splits option.splits)
qed simp_all

section \<open>Routing\<close>

lemma split_on_segments: "s \<in> set (split_on c t) \<Longrightarrow> c \<notin> set s"
proof (induction t arbitrary: s)
  case (Cons x t)
  have "hd (split_on c t) \<in> set (split_on c t)" "set (tl (split_on c t)) \<subseteq> set (split_on c t)"
    by (simp_all add: list.set_sel(2) subsetI)
  with Cons show ?case by (auto split: if_splits)
qed simp

lemma match_fill:
  "length vs = length (filter is_param ps) \<Longrightarrow>
    match_segments ps (fill_segments ps vs) = Some (zip (map tl (filter is_param ps)) vs)"
proof (induction ps vs rule: fill_segments.induct)
  case (2 p ps vs)
  then show ?case by (cases vs) auto
qed simp

lemma fill_segments_set:
  "length vs = length (filter is_param ps) \<Longrightarrow> set (fill_segments ps vs) \<subseteq> set ps \<union> set vs"
proof (induction ps vs rule: fill_segments.induct)
  case (2 p ps vs)
  then show ?case by (cases vs) auto
qed simp

lemma fill_segments_Nil [simp]: "fill_segments ps vs = [] \<longleftrightarrow> ps = []"
  by (cases ps) auto

lemma split_fill_pattern:
  assumes "length vs = length (param_names pat)" and "\<forall>v \<in> set vs. CHR ''/'' \<notin> set v"
  shows "split_on (CHR ''/'') (fill_pattern pat vs) = fill_segments (split_on (CHR ''/'') pat) vs"
proof -
  have "set (fill_segments (split_on (CHR ''/'') pat) vs) \<subseteq> set (split_on (CHR ''/'') pat) \<union> set vs"
    using fill_segments_set [of vs] assms(1) by (simp add: param_names_def)
  then have "CHR ''/'' \<notin> set s" if "s \<in> set (fill_segments (split_on (CHR ''/'') pat) vs)" for s
    using that assms(2) split_on_segments by blast
  then show ?thesis unfolding fill_pattern_def by (intro split_on_join) simp_all
qed

lemma match_fill_pattern:
  assumes "length vs = length (param_names pat)" and "\<forall>v \<in> set vs. CHR ''/'' \<notin> set v"
  shows "match_pattern pat (fill_pattern pat vs) = Some (zip (param_names pat) vs)"
  using match_fill [of vs "split_on (CHR ''/'') pat"] assms(1)
  by (simp add: match_pattern_def split_fill_pattern [OF assms] param_names_def)

text \<open>Two patterns that no path matches both: another length, or other words at a place where neither has a parameter.\<close>

fun clash :: "string list \<Rightarrow> string list \<Rightarrow> bool" where
  "clash [] [] = False"
| "clash (p # ps) (q # qs) = (\<not> is_param p \<and> \<not> is_param q \<and> p \<noteq> q \<or> clash ps qs)"
| "clash _ _ = True"

lemma clash_no_match:
  "match_segments ps ss = Some xs \<Longrightarrow> clash ps qs \<Longrightarrow> match_segments qs ss = None"
proof (induction ps ss arbitrary: xs qs rule: match_segments.induct)
  case 1
  then show ?case by (cases qs) auto
next
  case (2 p ps s ss)
  then show ?case by (cases qs) (auto split: if_splits)
qed simp_all

definition unambiguous :: "(string list \<times> 'h) list \<Rightarrow> bool" where
  "unambiguous rts \<longleftrightarrow> (\<forall>x \<in> set rts. \<forall>y \<in> set rts. x = y \<or> clash (fst x) (fst y))"

definition segmented :: "(string \<times> 'h) list \<Rightarrow> (string list \<times> 'h) list" where
  "segmented rts = map (\<lambda>(pat, h). (split_on (CHR ''/'') pat, h)) rts"

lemma split_on_eq:
  "join [c] ss = s \<Longrightarrow> ss \<noteq> [] \<Longrightarrow> list_all (list_all (\<lambda>x. x \<noteq> c)) ss \<Longrightarrow> split_on c s = ss"
  by (metis (mono_tags, lifting) list_all_iff split_on_join)

lemma segmented_routes:
  "segmented routes =
     [([[], ''ws'', ''v1'', ''partitions''], H_getPartitions),
      ([[], ''ws'', ''v1'', ''partition'', '':partition_name'', ''queues''], H_getQueuesPerPartition),
      ([[], ''ws'', ''v1'', ''partition'', '':partition_name'', ''queue'', '':queue_name'', ''applications''], H_getAppsPerPartitionPerQueue),
      ([[], ''ws'', ''v1'', ''partition'', '':partition_name'', ''nodes''], H_getNodesPerPartition),
      ([[], ''ws'', ''v1'', ''history'', ''apps''], H_getAppsHistory),
      ([[], ''ws'', ''v1'', ''history'', ''containers''], H_getContainersHistory),
      ([[], ''ws'', ''v1'', ''scheduler'', ''node-utilizations''], H_getNodeUtilizations),
      ([[], ''ws'', ''v1'', ''event-statistics''], H_getEventStatistics),
      ([[], ''ws'', ''v1'', ''health'', ''liveness''], H_Liveness),
      ([[], ''ws'', ''v1'', ''health'', ''readiness''], H_Readiness)]"
  unfolding segmented_def routes_def list.map prod.case
  by (intro arg_cong2 [of _ _ _ _ "(#)"] arg_cong2 [of _ _ _ _ Pair] refl) (rule split_on_eq; simp)+

lemma unambiguous_routes: "unambiguous (segmented routes)"
  by (simp add: segmented_routes unambiguous_def is_param_def)

lemma only_route:
  assumes "(pat, h) \<in> set routes" and "(pat', h') \<in> set routes"
    and "match_pattern pat path = Some ps" and "match_pattern pat' path \<noteq> None"
  shows "split_on (CHR ''/'') pat' = split_on (CHR ''/'') pat \<and> h' = h"
proof -
  have "(split_on (CHR ''/'') pat, h) \<in> set (segmented routes)" "(split_on (CHR ''/'') pat', h') \<in> set (segmented routes)"
    using assms(1,2) unfolding segmented_def by force+
  moreover have "\<not> clash (split_on (CHR ''/'') pat) (split_on (CHR ''/'') pat')"
    using clash_no_match [OF assms(3) [unfolded match_pattern_def]] assms(4) [unfolded match_pattern_def] by metis
  ultimately show ?thesis using unambiguous_routes unfolding unambiguous_def by force
qed

lemma registered_GET: "(m, pat, h) \<in> set registered \<longleftrightarrow> m = ''GET'' \<and> (pat, h) \<in> set routes"
  unfolding registered_def by auto

lemma router_finds:
  assumes "router_law lookup" and "(pat, h) \<in> set routes" and "match_pattern pat path = Some ps" and "\<forall>(nm, v) \<in> set ps. v \<noteq> []"
  shows "lookup registered ''GET'' path = Matched h ps"
proof -
  have "pat' = pat \<and> h' = h" if m: "(pat', h') \<in> set routes" "match_pattern pat' path \<noteq> None" for pat' h'
    using only_route [OF assms(2) m(1) assms(3) m(2)] join_split_on [of "CHR ''/''"] by metis
  then have "\<forall>(m', pat', h') \<in> set registered. m' = ''GET'' \<and> match_pattern pat' path \<noteq> None \<longrightarrow> pat' = pat \<and> h' = h"
    by (auto simp: registered_GET)
  moreover have "(''GET'', pat, h) \<in> set registered" using assms(2) by (simp add: registered_GET)
  ultimately show ?thesis using assms(1,3,4) unfolding router_law_def by blast
qed

lemma first_match_sound:
  "first_match rts m path = Matched h ps \<Longrightarrow> \<exists>pat. (m, pat, h) \<in> set rts \<and> match_pattern pat path = Some ps"
  by (induction rts m path rule: first_match.induct) (auto split: option.splits if_splits)

lemma first_match_complete:
  "(m, pat, h) \<in> set rts \<Longrightarrow> match_pattern pat path = Some ps \<Longrightarrow>
   (\<forall>(m', pat', h') \<in> set rts. m' = m \<and> match_pattern pat' path \<noteq> None \<longrightarrow> pat' = pat \<and> h' = h) \<Longrightarrow>
   first_match rts m path = Matched h ps"
  by (induction rts m path rule: first_match.induct) (auto split: option.splits)

lemma router_law_first_match: "router_law first_match"
  unfolding router_law_def by (intro conjI allI impI; (elim conjE)?) (rule first_match_sound first_match_complete; assumption)+

lemma parse_params [simp]: "parseApplicationFilters (r\<lparr>req_Params := ps\<rparr>) = parseApplicationFilters r"
proof -
  have "req_Query (r\<lparr>req_Params := ps\<rparr>) = req_Query r" by simp
  then show ?thesis
    unfolding parseApplicationFilters_def getUserQueryParam_def getSubmissionStartTimeQueryParam_def
      getSubmissionEndTimeQueryParam_def getOffsetQueryParam_def getLimitQueryParam_def getGroupsQueryParam_def
    by (simp only:)
qed

lemma bad_filters_params [simp]: "bad_filters h (r\<lparr>req_Params := ps\<rparr>) = bad_filters h r"
  by (simp add: bad_filters_def)

text \<open>The names of the parameters of a route.\<close>

primrec handler_params :: "handler \<Rightarrow> string list" where
  "handler_params H_getPartitions = []"
| "handler_params H_getQueuesPerPartition = [''partition_name'']"
| "handler_params H_getAppsPerPartitionPerQueue = [''partition_name'', ''queue_name'']"
| "handler_params H_getNodesPerPartition = [''partition_name'']"
| "handler_params H_getAppsHistory = []"
| "handler_params H_getContainersHistory = []"
| "handler_params H_getNodeUtilizations = []"
| "handler_params H_getEventStatistics = []"
| "handler_params H_Liveness = []"
| "handler_params H_Readiness = []"

lemma route_params: "(pat, h) \<in> set routes \<Longrightarrow> param_names pat = handler_params h"
proof -
  have "\<forall>x \<in> set (segmented routes). map tl (filter is_param (fst x)) = handler_params (snd x)"
    by (simp add: segmented_routes is_param_def)
  then show "(pat, h) \<in> set routes \<Longrightarrow> param_names pat = handler_params h"
    unfolding segmented_def param_names_def by force
qed

lemma ServeHTTP_route:
  assumes "router_law lookup" and "cors_law (web_preflight w)" and "req_Method r = ''GET''"
    and "(pat, h) \<in> set routes" and "length vs = length (param_names pat)"
    and "\<forall>v \<in> set vs. v \<noteq> [] \<and> CHR ''/'' \<notin> set v" and "req_Path r = fill_pattern pat vs"
  shows "ServeHTTP lookup w r d = map_option (map_prod Answered id)
    (handle w h (r\<lparr>req_Params := ByName (zip (param_names pat) vs)\<rparr>) d)"
proof -
  have "match_pattern pat (req_Path r) = Some (zip (param_names pat) vs)"
    unfolding assms(7) using match_fill_pattern [OF assms(5)] assms(6) by blast
  moreover have "\<forall>(nm, v) \<in> set (zip (param_names pat) vs). v \<noteq> []" using assms(6) by (auto dest: set_zip_rightD)
  moreover have "\<not> web_preflight w (ws_corsConfig (web_service w)) r" using assms(2,3) by (simp add: cors_law_def)
  ultimately show ?thesis using router_finds [OF assms(1,4)] by (simp add: ServeHTTP_def assms(3))
qed

text \<open>
  What the API promises for the values of a path: which method of the repository is called with which segments, and
  what becomes of its result.
\<close>

primrec route_answer ::
    "('s, 'c) web_deps \<Rightarrow> handler \<Rightarrow> string list \<Rightarrow> http_request \<Rightarrow> 's \<Rightarrow> (http_response \<times> 's) option" where
  "route_answer w H_getPartitions vs r d =
     Some (respond r PartitionsJ (m_GetAllPartitions (ws_repository (web_service w)) d))"
| "route_answer w H_getQueuesPerPartition vs r d =
     (case m_GetQueuesPerPartition (ws_repository (web_service w)) (vs ! 0) d of
        (Inl e, d') \<Rightarrow> Some (errorResponse r e, d')
      | (Inr x, d') \<Rightarrow> map_option (\<lambda>qs. (jsonResponse (QueuesJ qs), d')) x)"
| "route_answer w H_getAppsPerPartitionPerQueue vs r d =
     Some (case parseApplicationFilters r of
        Inl e \<Rightarrow> (badRequestResponse r e, d)
      | Inr f \<Rightarrow> respond r AppsJ (m_GetAppsPerPartitionPerQueue (ws_repository (web_service w)) (vs ! 0) (vs ! 1) f d))"
| "route_answer w H_getNodesPerPartition vs r d =
     Some (respond r NodesJ (m_GetNodesPerPartition (ws_repository (web_service w)) (vs ! 0) d))"
| "route_answer w H_getAppsHistory vs r d =
     Some (respond r AppsHistoryJ (m_GetApplicationsHistory (ws_repository (web_service w)) d))"
| "route_answer w H_getContainersHistory vs r d =
     Some (respond r ContainersHistoryJ (m_GetContainersHistory (ws_repository (web_service w)) d))"
| "route_answer w H_getNodeUtilizations vs r d =
     Some (respond r UtilJ (m_GetNodeUtilizations (ws_repository (web_service w)) d))"
| "route_answer w H_getEventStatistics vs r d =
     Some (jsonResponse (CountsJ (counts (ws_eventRepository (web_service w)))), d)"
| "route_answer w H_Liveness vs r d =
     Some (jsonResponse (LivenessJ (Liveness (web_hostname w) (web_now w) (ws_healthService (web_service w)))), d)"
| "route_answer w H_Readiness vs r d =
     Some (jsonResponse (ReadinessJ (snd (Readiness (web_check w) (web_hostname w) (web_now w) (web_order w)
       (ws_healthService (web_service w)) None))), d)"

lemma respond_params [simp]:
  "errorResponse (r\<lparr>req_Params := ps\<rparr>) e = errorResponse r e" "badRequestResponse (r\<lparr>req_Params := ps\<rparr>) e = badRequestResponse r e"
  "respond (r\<lparr>req_Params := ps\<rparr>) f res = respond r f res"
  by (auto simp: errorResponse_def badRequestResponse_def problem_response_def respond_def split: prod.split sum.split)

lemma handle_route_answer:
  assumes "length vs = length (handler_params h)"
  shows "handle w h (r\<lparr>req_Params := ByName (zip (handler_params h) vs)\<rparr>) d = route_answer w h vs r d"
proof -
  have one: "ByName (zip [a] vs) a = vs ! 0" if "length vs = 1" for a
    using that by (cases vs) (auto simp: ByName_def)
  have two: "ByName (zip [a, b] vs) a = vs ! 0" "ByName (zip [a, b] vs) b = vs ! 1" if "length vs = 2" "a \<noteq> b" for a b
    using that by (cases vs; cases "tl vs"; auto simp: ByName_def)+
  show ?thesis
  proof (cases h)
    case H_getQueuesPerPartition
    with assms one show ?thesis
      by (simp add: getQueuesPerPartition_def split: prod.split sum.split option.split)
  next
    case H_getAppsPerPartitionPerQueue
    with assms two [of "''partition_name''" "''queue_name''"] show ?thesis
      by (simp add: getAppsPerPartitionPerQueue_def Let_def numeral_2_eq_2 split: sum.split)
  next
    case H_getNodesPerPartition
    with assms one show ?thesis by (simp add: getNodesPerPartition_def)
  qed (simp_all add: getPartitions_def getAppsHistory_def getContainersHistory_def getNodeUtilizations_def
      getEventStatistics_def Counts_def LivenessHealthcheck_def ReadinessHealthcheck_def)
qed

section \<open>Properties\<close>

text \<open>The panic of \<open>serveSPA\<close>: the path is no registered one and \<open>os.Stat\<close> fails otherwise than with not-exist.\<close>

definition spa_panics :: "router \<Rightarrow> ('s, 'c) web_deps \<Rightarrow> http_request \<Rightarrow> bool" where
  "spa_panics lookup w r \<longleftrightarrow> \<not> web_preflight w (ws_corsConfig (web_service w)) r \<and>
     lookup registered (req_Method r) (req_Path r) = Unmatched \<and>
     (\<exists>e. web_stat w (web_join w (ws_assetsDir (web_service w)) (req_Path r)) = StatError e)"

text \<open>
  C12. On a table of queues with its invariant every request gets an answer however the connection fails, except
  that a request for no registered path is not answered, because \<open>serveSPA\<close> panics, when the file system
  returns an error that is not about existence. A response of a handler answers a request \<open>GET\<close> whose path matches
  the pattern of a registered route. When the route takes filters and they do not parse, it is a problem with status
  400 and no statement is sent; otherwise it has status 200 and the kind of value of that route, or is a problem with
  status 500. On a healthy connection it is a problem exactly when the database refuses the query text of
  the filters. Problem details repeat the status and the path, and their detail is logged. At most one statement is
  sent, and no request changes a table; preflights and what the router answers itself (redirections, other methods) send none.
\<close>

theorem web_answers_typed:
  assumes "router_law lookup" and "queue_inv env d" and R: "ws_repository (web_service w) = pg_repository run_sql int8 env"
  shows "(ServeHTTP lookup w r d = None \<longleftrightarrow> spa_panics lookup w r) \<and>
    (\<forall>ans d'. ServeHTTP lookup w r d = Some (ans, d') \<longrightarrow>
      (case ans of
         Answered resp \<Rightarrow> \<exists>pat h ps. req_Method r = ''GET'' \<and> (pat, h) \<in> set routes \<and>
           match_pattern pat (req_Path r) = Some ps \<and> typed_answer run_sql env h (r\<lparr>req_Params := ByName ps\<rparr>) d resp d'
       | _ \<Rightarrow> d' = d))"
proof (cases "web_preflight w (ws_corsConfig (web_service w)) r")
  case True
  then show ?thesis by (simp add: ServeHTTP_def spa_panics_def)
next
  case pre: False
  show ?thesis
  proof (cases "lookup registered (req_Method r) (req_Path r)")
    case (Matched h ps)
    obtain resp d' where h: "handle w h (r\<lparr>req_Params := ByName ps\<rparr>) d = Some (resp, d')"
      using handle_answers [OF assms(2) R, of h "r\<lparr>req_Params := ByName ps\<rparr>"] by auto
    obtain pat where "(req_Method r, pat, h) \<in> set registered" "match_pattern pat (req_Path r) = Some ps"
      using assms(1) Matched unfolding router_law_def by blast
    with handle_typed [OF h R] have "\<exists>pat h ps. req_Method r = ''GET'' \<and> (pat, h) \<in> set routes \<and>
        match_pattern pat (req_Path r) = Some ps \<and> typed_answer run_sql env h (r\<lparr>req_Params := ByName ps\<rparr>) d resp d'"
      by (auto simp: registered_GET)
    with Matched h pre show ?thesis by (simp add: ServeHTTP_def spa_panics_def)
  next
    case Unmatched
    with pre show ?thesis by (auto simp: ServeHTTP_def spa_panics_def serveSPA_def split: stat_answer.split)
  qed (use pre in \<open>simp_all add: ServeHTTP_def spa_panics_def\<close>)
qed

text \<open>A web service on the database of the examples, and a request for the nodes of its partition.\<close>

definition demo_preflight :: "cors_Options \<Rightarrow> http_request \<Rightarrow> bool" where
  "demo_preflight opts r \<longleftrightarrow> req_Method r = ''OPTIONS'' \<and> req_Header r ''Access-Control-Request-Method'' \<noteq> []"

lemma demo_preflight_law: "cors_law demo_preflight"
  by (simp add: cors_law_def demo_preflight_def)

definition demo_deps :: "(db, (string, string) Component) web_deps" where
  "demo_deps = \<lparr>web_check = Check demo_dependencies, web_order = rev (hs_components demo_health), web_hostname = ''h'', web_now = 5,
     web_join = (\<lambda>a b. a @ b), web_stat = (\<lambda>p. if p = ''assets/locked'' then StatError (ErrorText ''permission denied'') else StatNotExist),
     web_preflight = demo_preflight, web_service = demo_web\<rparr>"

definition demo_get :: "string \<Rightarrow> (string \<Rightarrow> string) \<Rightarrow> http_request" where
  "demo_get path q = \<lparr>req_Method = ''GET'', req_Path = path, req_Header = (\<lambda>_. []), req_Query = q, req_Params = (\<lambda>_. [])\<rparr>"

definition demo_pattern :: string where
  "demo_pattern = ''/ws/v1/partition/:partition_name/nodes''"

definition demo_nodes_request :: http_request where
  "demo_nodes_request = demo_get (fill_pattern demo_pattern [''default'']) (\<lambda>_. [])"

lemma demo_pattern_route: "(demo_pattern, H_getNodesPerPartition) \<in> set routes"
  by (simp add: demo_pattern_def routes_def)

lemma demo_nodes_facts:
  "cors_law (web_preflight demo_deps)" "req_Method demo_nodes_request = ''GET''"
  "length [''default''] = length (param_names demo_pattern)" "\<forall>v \<in> set [''default'']. v \<noteq> [] \<and> CHR ''/'' \<notin> set v"
  "req_Path demo_nodes_request = fill_pattern demo_pattern [''default'']"
  using demo_preflight_law by (simp_all add: demo_deps_def demo_nodes_request_def demo_get_def route_params [OF demo_pattern_route])

lemma demo_nodes_served:
  "ServeHTTP first_match demo_deps demo_nodes_request empty_db = Some (Answered (jsonResponse (NodesJ [])), empty_db\<lparr>stmtCtr := 1\<rparr>)"
proof -
  have "ServeHTTP first_match demo_deps demo_nodes_request empty_db = map_option (map_prod Answered id)
    (route_answer demo_deps H_getNodesPerPartition [''default''] demo_nodes_request empty_db)"
    using ServeHTTP_route [OF router_law_first_match demo_nodes_facts(1,2) demo_pattern_route demo_nodes_facts(3-5)]
      handle_route_answer [of "[''default'']" H_getNodesPerPartition demo_deps demo_nodes_request empty_db] by (simp add: route_params [OF demo_pattern_route])
  also have "\<dots> = Some (Answered (jsonResponse (NodesJ [])), empty_db\<lparr>stmtCtr := 1\<rparr>)"
    using healthy_demo_env by (simp add: demo_deps_def demo_web_repository GetNodesPerPartition_def respond_def empty_db_def)
  finally show ?thesis .
qed

theorem web_answers_typed_witness:
  "(\<exists>pat h ps. (pat, h) \<in> set routes \<and> match_pattern pat (req_Path demo_nodes_request) = Some ps \<and>
     typed_answer stable_sql demo_env h (demo_nodes_request\<lparr>req_Params := ByName ps\<rparr>) empty_db (jsonResponse (NodesJ []))
       (empty_db\<lparr>stmtCtr := 1\<rparr>)) \<and>
   ServeHTTP (\<lambda>rts m path. Unmatched) demo_deps (demo_get ''/locked'' (\<lambda>_. [])) empty_db = None"
proof (rule conjI)
  have R: "ws_repository (web_service demo_deps) = pg_repository stable_sql demo_int8 demo_env"
    by (simp add: demo_deps_def demo_web_repository)
  have inv: "queue_inv demo_env empty_db" by (simp add: queue_inv_def table_wf_def named_parents_def empty_db_def)
  note typed = web_answers_typed [OF router_law_first_match inv R]
  show "\<exists>pat h ps. (pat, h) \<in> set routes \<and> match_pattern pat (req_Path demo_nodes_request) = Some ps \<and>
     typed_answer stable_sql demo_env h (demo_nodes_request\<lparr>req_Params := ByName ps\<rparr>) empty_db (jsonResponse (NodesJ []))
       (empty_db\<lparr>stmtCtr := 1\<rparr>)"
    using conjunct2 [OF typed, THEN spec, THEN spec, THEN mp, OF demo_nodes_served] by auto
  show "ServeHTTP (\<lambda>rts m path. Unmatched) demo_deps (demo_get ''/locked'' (\<lambda>_. [])) empty_db = None"
    by (simp add: ServeHTTP_def serveSPA_def demo_deps_def demo_preflight_def demo_get_def demo_web_def NewWebService_def)
qed

text \<open>
  C23. The routes are unambiguous and lead to their handlers, which read the right values: a request \<open>GET\<close> for a path
  that fills the parameters of a registered pattern with non-empty segments is answered with the result of the
  method of the repository (or of the event repository or the health service) that belongs to the route, called with
  those segments in the order of the path, and no other pattern with another handler matches the path.
\<close>

theorem routes_reach_handlers:
  assumes "router_law lookup" and "cors_law (web_preflight w)" and "req_Method r = ''GET''"
    and "(pat, h) \<in> set routes" and "length vs = length (param_names pat)"
    and "\<forall>v \<in> set vs. v \<noteq> [] \<and> CHR ''/'' \<notin> set v" and "req_Path r = fill_pattern pat vs"
  shows "ServeHTTP lookup w r d = map_option (map_prod Answered id) (route_answer w h vs r d) \<and>
    (\<forall>(pat', h') \<in> set routes. match_pattern pat' (req_Path r) \<noteq> None \<longrightarrow> h' = h)"
proof (rule conjI)
  show "ServeHTTP lookup w r d = map_option (map_prod Answered id) (route_answer w h vs r d)"
    using ServeHTTP_route [OF assms] handle_route_answer [of vs h w r d] assms(5) by (simp add: route_params [OF assms(4)])
  have "match_pattern pat (req_Path r) = Some (zip (param_names pat) vs)"
    unfolding assms(7) using match_fill_pattern [OF assms(5)] assms(6) by blast
  then show "\<forall>(pat', h') \<in> set routes. match_pattern pat' (req_Path r) \<noteq> None \<longrightarrow> h' = h"
    using only_route [OF assms(4)] by blast
qed

theorem routes_reach_handlers_witness:
  "ServeHTTP first_match demo_deps demo_nodes_request empty_db = map_option (map_prod Answered id)
     (Some (respond demo_nodes_request NodesJ (GetNodesPerPartition demo_env ''default'' empty_db)))"
  using conjunct1 [OF routes_reach_handlers [OF router_law_first_match demo_nodes_facts(1,2) demo_pattern_route demo_nodes_facts(3-5)], of empty_db]
  by (simp add: demo_deps_def demo_web_repository)

end
