(* ===== verification/Sync_Jobs.thy ===== *)
theory Sync_Jobs
  imports Data_Sync "HOL-Library.Sublist"
begin

text \<open>
  Which jobs a sync puts on the work queue when the scheduler answers: one per kind of data, in an
  order that depends on the goroutines, with the queues before the applications. The invariant
  \<open>jobs_inv\<close> relates what is queued to the places where the goroutines of \<open>sync_step\<close> are.
\<close>

section \<open>The answers as jobs\<close>

definition queue_tree :: "yk_client \<Rightarrow> PartitionInfo \<Rightarrow> PartitionQueueDAOInfo" where
  "queue_tree client p = the (projr (GetPartitionQueues_c client (part_Name p)))"

definition queue_apps :: "yk_client \<Rightarrow> PartitionQueueDAOInfo \<Rightarrow> ApplicationDAOInfo list" where
  "queue_apps client q = projr (GetApplications_c client (queue_Partition (qinfo q)) (queue_QueueName (qinfo q)))"

definition node_job :: "yk_client \<Rightarrow> PartitionInfo \<Rightarrow> repo_job" where
  "node_job client p = JNodes (projr (GetPartitionNodes_c client (part_Name p))) (part_Name p)"

definition trees_of :: "yk_client \<Rightarrow> PartitionInfo list \<Rightarrow> PartitionQueueDAOInfo list" where
  "trees_of client ps = map (queue_tree client) ps"

definition apps_of :: "yk_client \<Rightarrow> PartitionQueueDAOInfo list \<Rightarrow> ApplicationDAOInfo list" where
  "apps_of client qs = concat (map (queue_apps client) qs)"

primrec worker_jobs :: "yk_client \<Rightarrow> PartitionInfo list \<Rightarrow> worker \<Rightarrow> repo_job multiset" where
  "worker_jobs client ps WNodes = mset (map (node_job client) ps)"
| "worker_jobs client ps WUtil = {#JNodeUtil (projr (GetNodeUtil_c client))#}"
| "worker_jobs client ps WHist = {#JHistory (projr (GetAppsHistory_c client)) (projr (GetContainersHistory_c client))#}"

lemma collect_nodes_adds:
  assumes "started (sy_wq s)" and "\<not> worker_fails client ps WNodes"
  shows "jobs (snd (collect_nodes uuids client ps errs s)) = jobs s @ map (node_job client) ps"
  using assms
proof (induction ps arbitrary: errs s)
  case (Cons p ps)
  then show ?case by (cases "GetPartitionNodes_c client (part_Name p)") (auto simp: node_job_def)
qed simp

lemma worker_call_adds:
  assumes "worker_call w uuids client ps' s = (r, s')" and "started (sy_wq s)"
    and "\<not> worker_fails client ps w" and "mset ps' = mset ps"
  shows "\<exists>js. jobs s' = jobs s @ js \<and> mset js = worker_jobs client ps w \<and> started (sy_wq s')"
proof (cases w)
  case WNodes
  then have "\<not> worker_fails client ps' WNodes" using assms(3) worker_fails_mset [OF assms(4)] by blast
  from collect_nodes_adds [OF assms(2) this, of uuids "[]"] have "jobs s' = jobs s @ map (node_job client) ps'"
    using assms(1) WNodes by (simp add: upsertPartitionNodes_def split: prod.splits)
  moreover have "mset (map (node_job client) ps') = worker_jobs client ps w" using WNodes assms(4) by simp
  ultimately show ?thesis using worker_call_jobs(1) [OF assms(1)] assms(2) by blast
next
  case WUtil
  with assms(1-3) show ?thesis by (auto simp: upsertNodeUtilizations_def split: sum.splits)
next
  case WHist
  with assms(1-3) show ?thesis by (auto simp: updateAppsHistory_def split: sum.splits)
qed

lemma upsertPartitionQueues_adds:
  assumes "\<not> chain_fails client ps" and "no_nil_queues client ps" and "started (sy_wq s)"
  shows "\<exists>s'. upsertPartitionQueues uuids client ps s = Some (Inr (flattenQueues (trees_of client ps)), s') \<and>
    jobs s' = jobs s @ [JQueues (flattenQueues (trees_of client ps))] \<and> started (sy_wq s')"
proof -
  obtain ts where ts: "map (\<lambda>p. GetPartitionQueues_c client (part_Name p)) ps = map (\<lambda>t. Inr (Some t)) ts"
      "upsertPartitionQueues uuids client ps s = Some (Inr (flattenQueues ts), add_job uuids ''upsert_queues''
        (JQueues (flattenQueues ts)) ''could not add upsert queues job to workqueue: '' s)"
    using upsertPartitionQueues_ok [OF assms(1,2)] by blast
  have "trees_of client ps = map (\<lambda>x. the (projr x)) (map (\<lambda>p. GetPartitionQueues_c client (part_Name p)) ps)"
    by (simp add: trees_of_def queue_tree_def)
  then have "trees_of client ps = ts" unfolding ts(1) by (simp add: comp_def)
  with ts(2) assms(3) show ?thesis by simp
qed

lemma upsertApplications_adds:
  assumes "\<forall>p q e. GetApplications_c client p q \<noteq> Inl e" and "started (sy_wq s)"
  shows "\<exists>s'. upsertApplications uuids client qs s = (None, s') \<and>
    jobs s' = jobs s @ [JApplications (apps_of client qs)] \<and> started (sy_wq s')"
  using collect_apps_ok [OF assms(1), of qs "[]" "[]"] assms(2)
  by (simp add: upsertApplications_def apps_of_def queue_apps_def [abs_def])

section \<open>The invariant of the goroutines\<close>

text \<open>The jobs of the goroutine for queues and applications, in their order.\<close>

fun chain_jobs :: "yk_client \<Rightarrow> PartitionInfo list \<Rightarrow> chain_pc \<Rightarrow> repo_job list \<Rightarrow> bool" where
  "chain_jobs client ps QStart js \<longleftrightarrow> js = []"
| "chain_jobs client ps (QApps qs) js \<longleftrightarrow>
     (\<exists>ps'. mset ps' = mset ps \<and> qs = flattenQueues (trees_of client ps')) \<and> js = [JQueues qs]"
| "chain_jobs client ps QDone js \<longleftrightarrow>
     (\<exists>ps' qs'. mset ps' = mset ps \<and> mset qs' = mset (flattenQueues (trees_of client ps')) \<and>
        js = [JQueues (flattenQueues (trees_of client ps')), JApplications (apps_of client qs')])"

definition called_jobs :: "yk_client \<Rightarrow> PartitionInfo list \<Rightarrow> (worker \<Rightarrow> worker_pc) \<Rightarrow> repo_job multiset" where
  "called_jobs client ps pc = (\<Sum>w \<in> {WNodes, WUtil, WHist}. if pc w = Ready then {#} else worker_jobs client ps w)"

definition jobs_inv :: "yk_client \<Rightarrow> PartitionInfo list \<Rightarrow> sync_state \<Rightarrow> sync_sys \<Rightarrow> bool" where
  "jobs_inv client ps s0 s \<longleftrightarrow> started (sy_wq (sv s)) \<and> \<not> crashed s \<and>
     (\<exists>new cj. jobs (sv s) = jobs s0 @ new \<and> chain_jobs client ps (chain s) cj \<and> subseq cj new \<and>
        mset new = mset cj + called_jobs client ps (pcs s))"

lemma called_jobs_step:
  "pc w \<noteq> Ready \<Longrightarrow> x \<noteq> Ready \<Longrightarrow> called_jobs client ps (pc(w := x)) = called_jobs client ps pc"
  "pc w = Ready \<Longrightarrow> x \<noteq> Ready \<Longrightarrow> called_jobs client ps (pc(w := x)) = called_jobs client ps pc + worker_jobs client ps w"
  by (cases w; auto simp: called_jobs_def)+

lemma subseq_more: "subseq xs ys \<Longrightarrow> subseq xs (ys @ zs)"
  using list_emb_append_mono [of "(=)" xs ys "[]" zs] by simp

lemma sync_jobs_inv:
  assumes "sync_reach uuids client ps s0 s" and "started (sy_wq s0)" and "no_failures client ps" and "no_nil_queues client ps"
  shows "jobs_inv client ps s0 s"
  using assms(1)
proof (induction rule: sync_reach.induct)
  case start
  with assms(2) show ?case by (simp add: jobs_inv_def sync_start_def called_jobs_def)
next
  case (step s s')
  note nf = assms(3) [unfolded no_failures_def]
  obtain new cj where i: "started (sy_wq (sv s))" "\<not> crashed s" "jobs (sv s) = jobs s0 @ new"
      "chain_jobs client ps (chain s) cj" "subseq cj new" "mset new = mset cj + called_jobs client ps (pcs s)"
    using step.IH unfolding jobs_inv_def by blast
  have q: "\<exists>x. upsertPartitionQueues uuids client ps' (sv s) = Some (Inr (flattenQueues (trees_of client ps')), x) \<and>
      jobs x = jobs (sv s) @ [JQueues (flattenQueues (trees_of client ps'))] \<and> started (sy_wq x)"
    if "mset ps' = mset ps" for ps'
    using upsertPartitionQueues_adds [OF _ _ i(1), of client ps' uuids] nf assms(4) chain_fails_mset [OF that] mset_eq_setD [OF that]
    by (simp add: no_nil_queues_def)
  from step.hyps(2) show ?case
  proof (cases rule: sync_step.cases)
    case (assign w ps' r sv')
    obtain js where js: "jobs sv' = jobs (sv s) @ js" "mset js = worker_jobs client ps w" "started (sy_wq sv')"
      using worker_call_adds [OF assign(4) i(1) _ assign(3)] nf by blast
    have "mset (new @ js) = mset cj + called_jobs client ps ((pcs s)(w := Assigned))"
      using js(2) i(6) called_jobs_step(2) [of "pcs s" w Assigned] assign(2) by simp
    with assign(1) js i(2-5) subseq_more [OF i(5), of js] show ?thesis
      unfolding jobs_inv_def by (intro conjI exI [of _ "new @ js"] exI [of _ cj]) simp_all
  next
    case (queues_ok ps' qs sv')
    with q [OF queues_ok(3)] have x: "qs = flattenQueues (trees_of client ps')" "jobs sv' = jobs (sv s) @ [JQueues qs]"
        "started (sy_wq sv')" by auto
    have "cj = []" using i(4) queues_ok(2) by simp
    with queues_ok(1,3) x i(2,3,6) show ?thesis
      unfolding jobs_inv_def by (intro conjI exI [of _ "new @ [JQueues qs]"] exI [of _ "[JQueues qs]"]) auto
  next
    case (apps qs qs' r sv')
    obtain x where x: "sv' = x" "r = None" "jobs x = jobs (sv s) @ [JApplications (apps_of client qs')]" "started (sy_wq x)"
      using upsertApplications_adds [OF _ i(1), of client uuids qs'] nf apps(4) by auto
    have "cj = [JQueues qs]" using i(4) apps(2) by simp
    then have "subseq (cj @ [JApplications (apps_of client qs')]) (new @ [JApplications (apps_of client qs')])"
      using i(5) by (intro list_emb_append_mono) auto
    with apps(1-3) x i(2-6) show ?thesis
      unfolding jobs_inv_def
      by (intro conjI exI [of _ "new @ [JApplications (apps_of client qs')]"] exI [of _ "cj @ [JApplications (apps_of client qs')]"]) auto
  next
    case (queues_failed ps' e sv')
    with q [OF queues_failed(3)] show ?thesis by simp
  next
    case (queues_crash ps')
    with q [OF queues_crash(3)] show ?thesis by simp
  qed (use i called_jobs_step(1) in \<open>auto simp: jobs_inv_def\<close>)
qed

text \<open>What a completed sync has queued.\<close>

lemma sync_queued:
  assumes "GetPartitions_c client = Inr ps" and "started (sy_wq s)" and "no_failures client ps" and "no_nil_queues client ps"
    and "sync_returns uuids client s r s'"
  shows "\<exists>ps' qs' new. r = None \<and> mset ps' = mset ps \<and> mset qs' = mset (flattenQueues (trees_of client ps')) \<and>
    jobs s' = jobs s @ JPartitions ps # new \<and>
    subseq [JQueues (flattenQueues (trees_of client ps')), JApplications (apps_of client qs')] new \<and>
    mset new = {#JQueues (flattenQueues (trees_of client ps')), JApplications (apps_of client qs'),
      JNodeUtil (projr (GetNodeUtil_c client)), JHistory (projr (GetAppsHistory_c client)) (projr (GetContainersHistory_c client))#} +
      mset (map (node_job client) ps)"
proof -
  let ?s1 = "add_job uuids ''upsert_partitions'' (JPartitions ps) ''could not add upsert partitions job to workqueue: '' s"
  obtain c where c: "sync_reach uuids client ps ?s1 c" "all_done c" "r = sync_result c" "s' = sv c"
    using assms(1,5) by (auto simp: sync_returns_def upsertPartitions_def)
  have s1: "started (sy_wq ?s1)" "jobs ?s1 = jobs s @ [JPartitions ps]" using assms(2) by simp_all
  obtain new cj where n: "jobs s' = jobs ?s1 @ new" "chain_jobs client ps QDone cj" "subseq cj new"
      "mset new = mset cj + called_jobs client ps (pcs c)"
    using sync_jobs_inv [OF c(1) s1(1) assms(3,4)] c(2,4) unfolding jobs_inv_def all_done_def by auto
  obtain ps' qs' where p: "mset ps' = mset ps" "mset qs' = mset (flattenQueues (trees_of client ps'))"
      "cj = [JQueues (flattenQueues (trees_of client ps')), JApplications (apps_of client qs')]"
    using n(2) by auto
  have "called_jobs client ps (pcs c) = mset (map (node_job client) ps) + ({#JNodeUtil (projr (GetNodeUtil_c client))#} +
      {#JHistory (projr (GetAppsHistory_c client)) (projr (GetContainersHistory_c client))#})"
    using c(2) by (simp add: called_jobs_def all_done_def)
  with n(4) p(3) have "mset new = {#JQueues (flattenQueues (trees_of client ps')), JApplications (apps_of client qs'),
      JNodeUtil (projr (GetNodeUtil_c client)), JHistory (projr (GetAppsHistory_c client)) (projr (GetContainersHistory_c client))#} +
      mset (map (node_job client) ps)" by simp
  moreover have "r = None" using no_failures_quiet [OF c(1) assms(3)] c(3) by (simp add: sync_result_def)
  ultimately show ?thesis using p(1,2) n(1,3) s1(2) unfolding p(3) by (intro exI [of _ ps'] exI [of _ qs'] exI [of _ new]) simp
qed

lemma sync_can_return:
  assumes "GetPartitions_c client = Inr ps" and "no_failures client ps" and "no_nil_queues client ps"
  shows "\<exists>s'. sync_returns uuids client s None s'"
proof -
  obtain s1 where s1: "\<And>r s'. sync_returns uuids client s r s' \<longleftrightarrow>
       (\<exists>c. sync_reach uuids client ps s1 c \<and> all_done c \<and> r = sync_result c \<and> s' = sv c)"
    using sync_returns_partitions [OF assms(1), of s uuids] by metis
  from answered_run [OF assms(2,3), of uuids s1] show ?thesis unfolding s1 by metis
qed

section \<open>Properties\<close>

text \<open>
  C9. When the scheduler answers every request and the work queue has started, a sync can return, and in every
  order in which its goroutines run it returns nil and has queued the partitions first and then exactly these jobs: one
  with the queues of all partitions, flattened; one with the applications of all these queues, after the queues; one for
  each partition with its nodes; one with the node utilizations; and one with the two histories.
\<close>

theorem sync_queues_every_job:
  assumes "GetPartitions_c client = Inr ps" and "started (sy_wq s)" and "no_failures client ps" and "no_nil_queues client ps"
  shows "(\<exists>r s'. sync_returns uuids client s r s') \<and>
    (\<forall>r s'. sync_returns uuids client s r s' \<longrightarrow>
       (\<exists>ps' qs' new. r = None \<and> mset ps' = mset ps \<and> mset qs' = mset (flattenQueues (trees_of client ps')) \<and>
          jobs s' = jobs s @ JPartitions ps # new \<and>
          subseq [JQueues (flattenQueues (trees_of client ps')), JApplications (apps_of client qs')] new \<and>
          mset new = {#JQueues (flattenQueues (trees_of client ps')), JApplications (apps_of client qs'),
            JNodeUtil (projr (GetNodeUtil_c client)), JHistory (projr (GetAppsHistory_c client)) (projr (GetContainersHistory_c client))#} +
            mset (map (node_job client) ps)))"
  using sync_can_return [OF assms(1,3,4)] sync_queued [OF assms] by (intro conjI allI impI) blast+

theorem sync_queues_every_job_witness:
  "\<exists>r s'. sync_returns format_nat demo_client demo_sync_state r s' \<and> r = None \<and> length (jobs s') = 6"
proof -
  have h: "GetPartitions_c demo_client = Inr [demo_partition]" "started (sy_wq demo_sync_state)" "jobs demo_sync_state = []"
    by (simp_all add: demo_client_def demo_sync_state_def Run_start_def NewWorkQueue_def jobs_def)
  note all = sync_queues_every_job [OF h(1,2) demo_client_answers]
  obtain r s' where s': "sync_returns format_nat demo_client demo_sync_state r s'" using conjunct1 [OF all] by blast
  obtain new ps' qs' where n: "r = None" "jobs s' = jobs demo_sync_state @ JPartitions [demo_partition] # new"
      "mset new = {#JQueues (flattenQueues (trees_of demo_client ps')), JApplications (apps_of demo_client qs'),
        JNodeUtil (projr (GetNodeUtil_c demo_client)), JHistory (projr (GetAppsHistory_c demo_client)) (projr (GetContainersHistory_c demo_client))#} +
        mset (map (node_job demo_client) [demo_partition])"
    using conjunct2 [OF all, rule_format, OF s'] by blast
  from n(3) have "size (mset new) = 5" by (simp only:) simp
  then have "length (jobs s') = 6" using n(2) h(3) by simp
  with s' n(1) show ?thesis by blast
qed

end
