(* ===== verification/Sync_Convergence.thy ===== *)
theory Sync_Convergence
  imports Job_Interleaving
begin

text \<open>
  The queue job of a sync among concurrent attempts: no statement of the server marks a queue as deleted, and an
  attempt to store the flattened trees of the scheduler finds the parent of every queue, because it was written
  before and stays. So on a working connection no statement of the attempt fails, whatever the
  others write in between.
\<close>

section \<open>No queue is marked deleted\<close>

definition no_deleted :: "db \<Rightarrow> bool" where
  "no_deleted d \<longleftrightarrow> list_all (\<lambda>r. qr_deleted_at r = None) (queues_t d)"

lemma no_deleted_upsert:
  assumes "insert_on_conflict queue_key qr_id queue_merge new rs = Inr rs'" and "qr_deleted_at new = None"
    and "list_all (\<lambda>r. qr_deleted_at r = None) rs"
  shows "list_all (\<lambda>r. qr_deleted_at r = None) rs' \<and> live (queue_key new) rs'"
  using assms(1)
proof (cases rule: queue_tab.upsert_cases)
  case update
  let ?f = "\<lambda>r. if queue_key r = queue_key new then queue_merge r new else r"
  obtain r where r: "r \<in> set rs" "queue_key r = queue_key new" using update(1) by auto
  have "?f r \<in> set rs'" unfolding update(2) set_map using r(1) by (rule imageI)
  moreover have "queue_key (?f r) = queue_key new" "qr_deleted_at (?f r) = None"
    using r same_linksD(2) [OF same_links_merge] assms(3) by (auto simp: list_all_iff)
  ultimately have "live (queue_key new) rs'" unfolding live_def list_ex_iff by blast
  with assms(3) update(2) show ?thesis by (auto simp: list_all_iff)
next
  case insert
  with assms(2,3) show ?thesis by (simp add: live_def)
qed

lemma item_step_queues:
  assumes "\<And>q pid. it \<noteq> PutQueue q pid"
  shows "queues_t (snd (item_step int8 env it d)) = queues_t d"
proof (cases it)
  case (PutPartition p)
  obtain x d' where u: "UpsertPartitions env [p] d = (x, d')" by fastforce
  with keeps_fields(1) [OF UpsertPartitions_keeps [OF u]] for_each_single [of "UpsertPartition env" p d] show ?thesis
    by (simp add: PutPartition UpsertPartitions_def)
next
  case (PutNode n p)
  obtain x d' where u: "UpsertNodes env [n] p d = (x, d')" by fastforce
  with keeps_fields(2) [OF UpsertNodes_keeps [OF u]] for_each_single [of "UpsertNode env" "(n, p)" d] show ?thesis
    by (simp add: PutNode UpsertNodes_def)
next
  case (PutUtil u nu)
  obtain x d' where i: "InsertNodeUtilizations env u [nu] d = (x, d')" by fastforce
  with keeps_fields(3) [OF InsertNodeUtilizations_keeps [OF i]] for_each_single [of "InsertNodeUtilization env u" nu d] show ?thesis
    by (simp add: PutUtil InsertNodeUtilizations_def)
next
  case (PutHistory ty msg x)
  obtain y d' where i: "insert_history int8 env ty msg x d = (y, d')" by fastforce
  with keeps_fields(4) [OF insert_history_keeps [OF i]] show ?thesis by (simp add: PutHistory)
next
  case (PutApp a qid)
  obtain x d1 where w: "write_app env a qid d = (x, d1)" by fastforce
  with keeps_fields(6) [OF write_app_keeps [OF w]] show ?thesis by (simp add: PutApp)
next
  case (FindParent q)
  obtain x d1 where g: "getQueueID env (queue_Parent (qinfo q)) (queue_Partition (qinfo q)) d = (x, d1)" by fastforce
  then have "queues_t d1 = queues_t d" by (auto elim: getQueueID_cases)
  with g show ?thesis by (cases x) (simp_all add: FindParent)
next
  case (FindQueue a)
  obtain x d1 where g: "getQueueID env (app_QueueName a) (app_Partition a) d = (x, d1)" by fastforce
  then have "queues_t d1 = queues_t d" by (auto elim: getQueueID_cases)
  with g show ?thesis by (cases x) (simp_all add: FindQueue)
qed (use assms in simp)

lemma new_queue_row_fields [simp]: "qr_deleted_at (new_queue_row u pid now q) = None"
  by (simp add: new_queue_row_def)

lemma write_queue_deleted:
  assumes "write_queue env q pid d = (res, d')" and "no_deleted d"
  shows "no_deleted d' \<and> (res = None \<longrightarrow> live (dao_key q) (queues_t d'))"
  using assms(1)
proof (cases rule: write_queue_cases)
  case (ok now)
  from no_deleted_upsert [OF ok(4)] assms(2) show ?thesis by (simp add: no_deleted_def)
qed (use assms(2) in \<open>simp add: no_deleted_def\<close>)

lemma item_step_deleted:
  assumes "no_deleted d"
  shows "no_deleted (snd (item_step int8 env it d))"
proof (cases "\<exists>q pid. it = PutQueue q pid")
  case True
  then obtain q pid where it: "it = PutQueue q pid" by blast
  obtain res d' where w: "write_queue env q pid d = (res, d')" by fastforce
  with write_queue_deleted [OF w assms] show ?thesis by (simp add: it)
next
  case False
  with item_step_queues [of it int8 env d] assms show ?thesis by (simp add: no_deleted_def)
qed

lemma sys_step_deleted:
  assumes "sys_step int8 env s s'" and "no_deleted (sys_db s)"
  shows "no_deleted (sys_db s')"
  using assms(1)
proof cases
  case (launch job its d)
  then have "queues_t d = queues_t (sys_db s)" by (cases job) (auto simp: new_uuid_def)
  with launch(1) assms(2) show ?thesis by (simp add: no_deleted_def)
next
  case (statement i it its r d)
  with item_step_deleted [OF assms(2), of int8 env it] show ?thesis by simp
qed

lemma sys_reach_deleted: "sys_reach int8 env s \<Longrightarrow> no_deleted (sys_db s)"
proof (induction rule: sys_reach.induct)
  case init
  show ?case by (simp add: no_deleted_def empty_db_def)
qed (rule sys_step_deleted)

section \<open>Progress of a queue attempt\<close>

definition queue_items :: "PartitionQueueDAOInfo list \<Rightarrow> db_item list \<Rightarrow> bool" where
  "queue_items rest its \<longleftrightarrow> its = map FindParent rest \<or>
     (\<exists>q pid rest'. rest = q # rest' \<and> its = PutQueue q pid # map FindParent rest')"

lemma queue_items_Cons:
  assumes "queue_items rest (it # its)"
  obtains (find) q rest' where "rest = q # rest'" "it = FindParent q" "its = map FindParent rest'"
    | (put) q pid rest' where "rest = q # rest'" "it = PutQueue q pid" "its = map FindParent rest'"
  using assms unfolding queue_items_def by (cases rest) auto

text \<open>How far an attempt to store \<open>qs\<close> has come: the queues before \<open>rest\<close> have live rows.\<close>

definition queue_progress :: "PartitionQueueDAOInfo list \<Rightarrow> db \<Rightarrow> db_item list \<Rightarrow> bool" where
  "queue_progress qs d its \<longleftrightarrow> no_deleted d \<and>
     (\<exists>pre rest. qs = pre @ rest \<and> queue_items rest its \<and> (\<forall>q \<in> set pre. live (dao_key q) (queues_t d)))"

lemma queue_progress_stays:
  assumes "queue_progress qs d its" and "stays env d d'" and "no_deleted d'"
  shows "queue_progress qs d' its"
proof -
  have "live k (queues_t d')" if "live k (queues_t d)" for k using assms(2) that by (cases k) (simp add: stays_def)
  with assms(1,3) show ?thesis unfolding queue_progress_def by blast
qed

lemma write_queue_healthy:
  assumes "healthy_env env" and "queue_inv env d" and "queue_Partition (qinfo q) \<noteq> []"
  shows "fst (write_queue env q pid d) = None"
proof -
  let ?d1 = "d\<lparr>uuidCtr := Suc (uuidCtr d)\<rparr>"
  let ?new = "new_queue_row (freshUUID env (uuidCtr d)) pid (unix_now env ?d1) q"
  have "qr_id ?new \<notin> qr_id ` set (queues_t d)"
    using assms(2) fresh_not_drawn [OF healthy_env_inj [OF assms(1)], of d] by (auto simp: queue_inv_def)
  then obtain rs' where "insert_on_conflict queue_key qr_id queue_merge ?new (queues_t d) = Inr rs'"
    by (rule queue_tab.upsert_succeeds)
  with assms(1,3) show ?thesis
    by (simp add: write_queue_def new_uuid_def upsert_queue_stmt_def put_queues_def)
qed

lemma queue_progress_statement:
  assumes "healthy_env env" and "db_inv env d" and "queue_progress qs d (it # its)" and "parents_first [] qs"
    and "item_ok env d it"
  shows "\<exists>js d'. item_step int8 env it d = (Inr js, d') \<and> queue_progress qs d' (js @ its)"
proof -
  let ?d' = "snd (item_step int8 env it d)"
  have nd: "no_deleted d" "no_deleted ?d'" using assms(3) item_step_deleted unfolding queue_progress_def by blast+
  have st: "stays env d ?d'" using item_step_keeps [OF _ assms(2,5), of int8] assms(1) by (simp add: healthy_env_def)
  obtain pre rest where p: "qs = pre @ rest" "queue_items rest (it # its)" "\<forall>q \<in> set pre. live (dao_key q) (queues_t d)"
    using assms(3) unfolding queue_progress_def by blast
  have l': "\<forall>q \<in> set pre. live (dao_key q) (queues_t ?d')"
    using p(3) st by (auto simp: stays_def dao_key_def)
  from p(2) show ?thesis
  proof (cases rule: queue_items_Cons)
    case (find q rest')
    have "queue_Parent (qinfo q) = [] \<or> (queue_Partition (qinfo q), queue_Parent (qinfo q)) \<in> dao_key ` set pre"
      using parents_first_split [of "[]" pre q rest'] assms(4) p(1) find(1) by auto
    then have "queue_Parent (qinfo q) = [] \<or> live (queue_Partition (qinfo q), queue_Parent (qinfo q)) (queues_t d)"
      using p(3) by auto
    from getQueueID_live [OF assms(1) this] obtain pid d1 where
      "getQueueID env (queue_Parent (qinfo q)) (queue_Partition (qinfo q)) d = (Inr pid, d1)" .
    then have f: "item_step int8 env it d = (Inr [PutQueue q pid], d1)" by (simp add: find(2))
    have "queue_items rest ([PutQueue q pid] @ its)" using find by (simp add: queue_items_def)
    then have "queue_progress qs d1 ([PutQueue q pid] @ its)"
      using nd(2) l' f p(1) unfolding queue_progress_def by (intro conjI exI [of _ pre] exI [of _ rest]) simp_all
    with f show ?thesis by blast
  next
    case (put q pid rest')
    have "queue_Partition (qinfo q) \<noteq> []" using parents_first_split [of "[]" pre q rest'] assms(4) p(1) put(1) by auto
    then have "fst (write_queue env q pid d) = None"
      using write_queue_healthy [OF assms(1)] assms(2) by (simp add: db_inv_def)
    then obtain d1 where w: "write_queue env q pid d = (None, d1)" by (cases "write_queue env q pid d") simp
    then have f: "item_step int8 env it d = (Inr [], d1)" by (simp add: put(2) written_def)
    have "live (dao_key q) (queues_t d1)" using write_queue_deleted [OF w nd(1)] by simp
    moreover have "queue_items rest' ([] @ its)" using put by (simp add: queue_items_def)
    ultimately have "queue_progress qs d1 ([] @ its)"
      using nd(2) l' f p(1) put(1) unfolding queue_progress_def
      by (intro conjI exI [of _ "pre @ [q]"] exI [of _ rest']) simp_all
    with f show ?thesis by blast
  qed
qed

lemma queue_progress_step:
  assumes "sys_step int8 env s s'" and "healthy_env env" and "sys_inv env s" and "parents_first [] qs"
    and "i < length (attempts_of s)" and "queue_progress qs (sys_db s) (attempts_of s ! i)"
  shows "i < length (attempts_of s') \<and> queue_progress qs (sys_db s') (attempts_of s' ! i)"
proof -
  have inj: "inj (freshUUID env)" using assms(2) by (simp add: healthy_env_def)
  have nd: "no_deleted (sys_db s')" using sys_step_deleted [OF assms(1)] assms(6) by (simp add: queue_progress_def)
  note other = queue_progress_stays [OF assms(6) sys_step_stays [OF assms(1) inj assms(3)] nd]
  from assms(1) show ?thesis
  proof cases
    case (launch job its d)
    with other assms(5) show ?thesis by (simp add: nth_append)
  next
    case (statement j it its r d)
    show ?thesis
    proof (cases "i = j")
      case True
      have "list_all (item_ok env (sys_db s)) (it # its)" using assms(3) statement(2,3) by (metis list_all_length sys_inv_def)
      with queue_progress_statement [OF assms(2) _ _ assms(4), of "sys_db s" it its int8] assms(3,6) statement True show ?thesis
        by (auto simp: sys_inv_def)
    next
      case False
      with other assms(5) statement(1) show ?thesis by simp
    qed
  qed
qed

lemma queue_progress_steps:
  assumes "(sys_step int8 env)\<^sup>*\<^sup>* s s'" and "healthy_env env" and "sys_inv env s" and "parents_first [] qs"
    and "i < length (attempts_of s)" and "queue_progress qs (sys_db s) (attempts_of s ! i)"
  shows "sys_inv env s' \<and> i < length (attempts_of s') \<and> queue_progress qs (sys_db s') (attempts_of s' ! i)"
  using assms(1)
proof (induction rule: rtranclp_induct)
  case (step t t')
  then show ?case
    using queue_progress_step [OF step.hyps(2) assms(2) _ assms(4), of i] sys_inv_step [OF step.hyps(2)] assms(2)
    by (simp add: healthy_env_def)
qed (use assms(3,5,6) in simp)

section \<open>Properties\<close>

text \<open>
  C6. The queue job of a sync among concurrent attempts, on a connection that works: whatever jobs, retries and events
  write in between, no statement of an attempt to store the flattened trees of the scheduler ever fails,
  and once the attempt has nothing left to do every queue of the trees has a live row. So an attempt to
  store applications of these queues that starts then finds them.
\<close>

theorem queue_attempt_completes:
  assumes "healthy_env env" and "sys_reach int8 env s" and "scheduler_trees ts"
    and "i < length (attempts_of s)" and "attempts_of s ! i = map FindParent (flattenQueues ts)"
    and "(sys_step int8 env)\<^sup>*\<^sup>* s s'"
  shows "case attempts_of s' ! i of
      it # its \<Rightarrow> (\<exists>js d'. item_step int8 env it (sys_db s') = (Inr js, d'))
    | [] \<Rightarrow> \<forall>k \<in> set (concat (map tree_keys ts)). live k (queues_t (sys_db s'))"
proof -
  let ?qs = "flattenQueues ts"
  have pf: "parents_first [] ?qs"
    using assms(3) by (intro flattenQueues_parents_first) (auto simp: scheduler_trees_def list_all_iff)
  have "queue_progress ?qs (sys_db s) (attempts_of s ! i)"
    using sys_reach_deleted [OF assms(2)] assms(5) unfolding queue_progress_def
    by (intro conjI exI [of _ "[]"] exI [of _ ?qs]) (simp_all add: queue_items_def)
  from queue_progress_steps [OF assms(6,1) _ pf assms(4) this] sys_reach_inv [OF assms(2)] assms(1)
  have p: "sys_inv env s'" "i < length (attempts_of s')" "queue_progress ?qs (sys_db s') (attempts_of s' ! i)"
    by (simp_all add: healthy_env_def)
  show ?thesis
  proof (cases "attempts_of s' ! i")
    case Nil
    obtain pre rest where r: "?qs = pre @ rest" "queue_items rest []" "\<forall>q \<in> set pre. live (dao_key q) (queues_t (sys_db s'))"
      using p(3) Nil unfolding queue_progress_def by auto
    then have "set (map dao_key ?qs) \<subseteq> {k. live k (queues_t (sys_db s'))}" by (auto simp: queue_items_def)
    then show ?thesis unfolding Nil list.case flattenQueues_keys by blast
  next
    case (Cons it its)
    have "list_all (item_ok env (sys_db s')) (it # its)" using p(1,2) Cons by (metis list_all_length sys_inv_def)
    with queue_progress_statement [OF assms(1) _ _ pf, of "sys_db s'" it its int8] p(1,3) Cons show ?thesis
      by (auto simp: sys_inv_def)
  qed
qed

theorem queue_attempt_completes_witness:
  "\<exists>s' js d'. (sys_step demo_int8 demo_env)\<^sup>*\<^sup>* \<lparr>sys_db = empty_db, attempts_of = [map FindParent (flattenQueues [demo_tree])]\<rparr> s' \<and>
     attempts_of s' = [map FindParent (flattenQueues [demo_tree]), [FindQueue demo_app]] \<and>
     item_step demo_int8 demo_env (hd (attempts_of s' ! 0)) (sys_db s') = (Inr js, d')"
proof -
  let ?its = "map FindParent (flattenQueues [demo_tree])" and ?step = "sys_step demo_int8 demo_env"
  let ?s = "\<lparr>sys_db = empty_db, attempts_of = [?its]\<rparr>" and ?s' = "\<lparr>sys_db = empty_db, attempts_of = [?its, [FindQueue demo_app]]\<rparr>"
  have r: "sys_reach demo_int8 demo_env ?s"
    using sys_reach.step [OF sys_reach.init sys_step.launch [of demo_env "JQueues (flattenQueues [demo_tree])"]] by simp
  have "?step ?s ?s'" using sys_step.launch [of demo_env "JApplications [demo_app]" ?s] by simp
  then have st: "?step\<^sup>*\<^sup>* ?s ?s'" by blast
  have t: "scheduler_trees [demo_tree]" by (simp add: scheduler_trees_def demo_tree_def tree_keys_def)
  obtain it its where it: "?its = it # its" by (simp add: demo_tree_def)
  from queue_attempt_completes [OF healthy_demo_env r t, of 0 ?s'] st it
  obtain js d' where "item_step demo_int8 demo_env it empty_db = (Inr js, d')" by auto
  with st it show ?thesis by (intro exI [of _ ?s'] exI [of _ js] exI [of _ d']) simp
qed

end
