(* ===== verification/Lifecycle.thy ===== *)
theory Lifecycle
  imports Contexts App_Queries
begin

text \<open>
  The life of the server: \<open>Service.Run\<close> of \<open>service.go\<close> and \<open>Run\<close> of \<open>commands/root.go\<close> start their
  parts as actors of a group of oklog/run and wait for it. The group is a parameter with the behaviour
  that its documentation states (\<open>group_law\<close>); an actor maps the time of its interruption to the time and
  the error with which it returns. What the parts do is taken from their models: an \<open>observation\<close> lists the
  connections of the collector, the events of the sync loop, and when the work queue and the HTTP server stop.
\<close>

section \<open>Groups of actors\<close>

type_synonym instant = nat

text \<open>\<open>None\<close>: still running at the end of the observation.\<close>

type_synonym exit = "(instant \<times> goerror option) option"
type_synonym actor = "instant option \<Rightarrow> exit"
type_synonym run_group = "actor list \<Rightarrow> exit"

text \<open>An actor that was added with an interrupt function that does nothing.\<close>

definition deaf :: "exit \<Rightarrow> actor" where
  "deaf x i = x"

text \<open>When all have returned: the last of the times.\<close>

fun last_exit :: "instant \<Rightarrow> exit list \<Rightarrow> instant option" where
  "last_exit t [] = Some t"
| "last_exit t (None # xs) = None"
| "last_exit t (Some (t', e) # xs) = last_exit (max t t') xs"

text \<open>
  The documentation of \<open>run.Group.Run\<close>: all actors run concurrently; when the first one returns, all
  others are interrupted; \<open>Run\<close> only returns when all actors have exited, with the error of the first.
\<close>

definition group_doc :: "actor list \<Rightarrow> exit \<Rightarrow> bool" where
  "group_doc as res \<longleftrightarrow>
     (if \<forall>a \<in> set as. a None = None then res = None
      else \<exists>pre a post t e. as = pre @ a # post \<and> a None = Some (t, e) \<and>
        (\<forall>b \<in> set as. \<forall>t' e'. b None = Some (t', e') \<longrightarrow> t \<le> t') \<and>
        res = map_option (\<lambda>t'. (t', e)) (last_exit t (map (\<lambda>b. b (Some t)) (pre @ post))))"

definition group_law :: "run_group \<Rightarrow> bool" where
  "group_law run_Group \<longleftrightarrow> (\<forall>as. as \<noteq> [] \<longrightarrow> group_doc as (run_Group as))"

section \<open>The parts\<close>

record 'r observation =
  calls :: "instant \<Rightarrow> nat set"
  obs_conns :: "(connection \<times> instant) list"
  first_sync :: instant
  sync_events :: "(sync_event \<times> instant) list"
  queue_stop :: "instant option"
  listen_failure :: "(instant \<times> goerror) option"
  collector_state :: "'r Stream_state"

text \<open>The time of the step at which a loop returned: the shortest list of steps after which it has.\<close>

definition exit_time :: "('a list \<Rightarrow> bool) \<Rightarrow> ('a \<times> instant) list \<Rightarrow> instant option" where
  "exit_time returned steps =
     map_option (\<lambda>n. snd (steps ! n)) (find (\<lambda>n. returned (map fst (take (Suc n) steps))) [0..<length steps])"

definition collector_exit ::
    "si_names \<Rightarrow> 'r app_upsert \<Rightarrow> (string \<Rightarrow> EventRecord result) \<Rightarrow> 'r observation \<Rightarrow> exit" where
  "collector_exit names upsert unmarshal ob = map_option (\<lambda>t. (t, None))
     (exit_time (\<lambda>conns. fst (runEventCollector names upsert unmarshal conns (collector_state ob))) (obs_conns ob))"

text \<open>The sync loop does not depend on what a sync does.\<close>

definition sync_exit :: "duration \<Rightarrow> 'r observation \<Rightarrow> exit" where
  "sync_exit interval ob =
     (if interval = 0 then Some (first_sync ob, None)
      else map_option (\<lambda>t. (t, None))
        (exit_time (\<lambda>evs. fst (runDataSync interval id evs ()) = SyncReturned) (sync_events ob)))"

text \<open>\<open>WorkQueue.Run\<close> returns the error of its context, when the loop has seen that it is done.\<close>

definition queue_exit :: "'r observation \<Rightarrow> exit" where
  "queue_exit ob = map_option (\<lambda>t. (t, Some context_Canceled)) (queue_stop ob)"

definition service_Run ::
    "run_group \<Rightarrow> si_names \<Rightarrow> 'r app_upsert \<Rightarrow> (string \<Rightarrow> EventRecord result) \<Rightarrow> duration \<Rightarrow> 'r observation \<Rightarrow> exit" where
  "service_Run run_Group names upsert unmarshal interval ob =
     run_Group [deaf (queue_exit ob), deaf (collector_exit names upsert unmarshal ob), deaf (sync_exit interval ob)]"

text \<open>
  \<open>Start\<close> returns when \<open>ListenAndServe\<close> does: with its own failure, or at once with \<open>ErrServerClosed\<close> when
  \<open>Shutdown\<close> is called, which is what the interrupt function of this actor does.
\<close>

definition ErrServerClosed :: goerror where
  "ErrServerClosed = Sentinel ''http: Server closed''"

definition web_exit :: "'r observation \<Rightarrow> actor" where
  "web_exit ob i =
     (case (listen_failure ob, i) of
        (None, None) \<Rightarrow> None
      | (Some (t, e), None) \<Rightarrow> Some (t, Some e)
      | (None, Some t') \<Rightarrow> Some (t', Some ErrServerClosed)
      | (Some (t, e), Some t') \<Rightarrow> if t \<le> t' then Some (t, Some e) else Some (t', Some ErrServerClosed))"

text \<open>
  \<open>Run\<close> of the root command. \<open>run_actors\<close> is what it does after the setup: the error of the group is logged and
  nil is returned. \<open>rootCmd_RunE\<close> is the command: \<open>config\<close> is the result of \<open>config.New\<close>. A result is the time of
  the return, what the group logged, and the error; failures before the actors start are at time 0.
\<close>

type_synonym outcome = "instant \<times> (log_level \<times> string) list \<times> goerror option"

definition run_actors ::
    "run_group \<Rightarrow> si_names \<Rightarrow> 'r app_upsert \<Rightarrow> (string \<Rightarrow> EventRecord result) \<Rightarrow> duration \<Rightarrow> 'r observation \<Rightarrow> outcome option" where
  "run_actors run_Group names upsert unmarshal interval ob =
     (case run_Group [deaf (service_Run run_Group names upsert unmarshal interval ob), web_exit ob] of
        None \<Rightarrow> None
      | Some (t, Some e) \<Rightarrow> Some (t, [(LWarn, ''group stopped because of an error: '' @ error_text e)], None)
      | Some (t, None) \<Rightarrow> Some (t, [], None))"

definition commands_Run ::
    "(string \<Rightarrow> pgpool result) \<Rightarrow> int \<Rightarrow> string \<Rightarrow> run_group \<Rightarrow> si_names \<Rightarrow> (string \<Rightarrow> EventRecord result) \<Rightarrow>
     Config \<Rightarrow> db observation \<Rightarrow> outcome option" where
  "commands_Run new_pool now v run_Group names unmarshal cfg ob =
     (case server_setup names new_pool now v cfg of
        None \<Rightarrow> None
      | Some (Inl e) \<Rightarrow> Some (0, [], Some e)
      | Some (Inr srv) \<Rightarrow>
          (let s = srv_service srv in
           run_actors run_Group names (m_UpsertApplications (svc_repo s)) unmarshal (syncInterval s) ob))"

definition rootCmd_RunE ::
    "(string \<Rightarrow> pgpool result) \<Rightarrow> int \<Rightarrow> string \<Rightarrow> run_group \<Rightarrow> si_names \<Rightarrow> (string \<Rightarrow> EventRecord result) \<Rightarrow>
     Config result \<Rightarrow> db observation \<Rightarrow> outcome option" where
  "rootCmd_RunE new_pool now v run_Group names unmarshal config ob =
     (case config of
        Inl e \<Rightarrow> Some (0, [], Some e)
      | Inr cfg \<Rightarrow> commands_Run new_pool now v run_Group names unmarshal cfg ob)"

section \<open>Cancellation\<close>

text \<open>
  What the standard library guarantees of contexts, with \<open>calls t\<close> the cancel functions called up to time \<open>t\<close>,
  0 that of the signals and \<open>c\<close> that of the work queue: a connection ends with the error of a cancelled
  context only when its context is done, and the loops see \<open>Done\<close> only then. The last clause is about
  \<open>WorkQueue.Run\<close>, whose cancel function is called by its deferred call and by \<open>Shutdown\<close> at its end, and so only
  after its loop has seen \<open>Done\<close>.
\<close>

definition observes_contexts ::
    "'l zap \<Rightarrow> 'l option \<Rightarrow> nat \<Rightarrow> 'j WorkQueue \<Rightarrow> si_names \<Rightarrow> 'r app_upsert \<Rightarrow> (string \<Rightarrow> EventRecord result) \<Rightarrow>
     'r observation \<Rightarrow> bool" where
  "observes_contexts z Logger c w names upsert unmarshal ob \<longleftrightarrow>
     (\<forall>t t'. t \<le> t' \<longrightarrow> calls ob t \<subseteq> calls ob t') \<and>
     (\<forall>((clients, stream), t) \<in> set (obs_conns ob). \<forall>s e.
        fst (ProcessEvents names clients upsert unmarshal stream s) = Some e \<and> errors_Is e context_Canceled \<longrightarrow>
        ctx_Done (calls ob t) (collector_context z Logger root_context)) \<and>
     (\<forall>(ev, t) \<in> set (sync_events ob). ev = CtxDone \<longrightarrow> ctx_Done (calls ob t) (sync_context z Logger root_context)) \<and>
     (\<forall>t. queue_stop ob = Some t \<longrightarrow> ctx_Done (calls ob t) (queue_context z Logger c w root_context)) \<and>
     (\<forall>t. c \<in> calls ob t \<longrightarrow> (\<exists>t' < t. queue_stop ob = Some t'))"

section \<open>Facts on groups\<close>

lemma last_exit_None [simp]: "None \<in> set xs \<Longrightarrow> last_exit t xs = None"
  by (induction t xs rule: last_exit.induct) auto

lemma last_exit_Some:
  "last_exit t xs = Some t' \<Longrightarrow> t \<le> t' \<and> (\<forall>x \<in> set xs. \<exists>u e. x = Some (u, e) \<and> u \<le> t')"
  by (induction t xs rule: last_exit.induct) auto

lemma last_exit_all: "None \<notin> set xs \<Longrightarrow> \<exists>t'. last_exit t xs = Some t'"
  by (induction t xs rule: last_exit.induct) auto

lemma group_first:
  assumes "group_doc as res" and "\<exists>a \<in> set as. a None \<noteq> None"
  obtains pre a post t e where "as = pre @ a # post" "a None = Some (t, e)"
    "res = map_option (\<lambda>t'. (t', e)) (last_exit t (map (\<lambda>b. b (Some t)) (pre @ post)))"
proof -
  have "\<not> (\<forall>a \<in> set as. a None = None)" using assms(2) by simp
  with assms(1) have "\<exists>pre a post t e. as = pre @ a # post \<and> a None = Some (t, e) \<and>
        (\<forall>b \<in> set as. \<forall>t' e'. b None = Some (t', e') \<longrightarrow> t \<le> t') \<and>
        res = map_option (\<lambda>t'. (t', e)) (last_exit t (map (\<lambda>b. b (Some t)) (pre @ post)))"
    unfolding group_doc_def by (simp only: if_False)
  then show thesis by (elim exE conjE) (rule that)
qed

lemma group_all_exit:
  assumes "group_doc as (Some (t, e))" and "a \<in> set as"
  shows "\<exists>i t' e'. a i = Some (t', e') \<and> t' \<le> t"
proof -
  obtain pre b post u where g: "as = pre @ b # post" "b None = Some (u, e)"
      "last_exit u (map (\<lambda>b. b (Some u)) (pre @ post)) = Some t"
  proof -
    have "\<exists>a \<in> set as. a None \<noteq> None" using assms(1) unfolding group_doc_def by (metis option.distinct(1))
    from group_first [OF assms(1) this] obtain pre b post u e' where f: "as = pre @ b # post" "b None = Some (u, e')"
        "Some (t, e) = map_option (\<lambda>t'. (t', e')) (last_exit u (map (\<lambda>b. b (Some u)) (pre @ post)))" .
    from f(3) have "e' = e" "last_exit u (map (\<lambda>b. b (Some u)) (pre @ post)) = Some t"
      by (auto simp: map_option_case split: option.splits)
    with that f(1,2) show thesis by blast
  qed
  show ?thesis
  proof (cases "a = b")
    case True
    with g(2) last_exit_Some [OF g(3)] show ?thesis by blast
  next
    case False
    then have "a (Some u) \<in> set (map (\<lambda>b. b (Some u)) (pre @ post))" using assms(2) g(1) by auto
    with last_exit_Some [OF g(3)] show ?thesis by blast
  qed
qed

lemma group_deaf:
  assumes "group_doc as (Some (t, e))" and "deaf x \<in> set as"
  shows "\<exists>t' e'. x = Some (t', e') \<and> t' \<le> t"
  using group_all_exit [OF assms] by (simp add: deaf_def)

lemma group_returns:
  assumes "group_doc as res" and "\<exists>a \<in> set as. a None \<noteq> None" and "\<forall>a \<in> set as. \<forall>t. a (Some t) \<noteq> None"
  shows "\<exists>t e. res = Some (t, e)"
proof -
  obtain pre a post t e where g: "as = pre @ a # post" "res = map_option (\<lambda>t'. (t', e)) (last_exit t (map (\<lambda>b. b (Some t)) (pre @ post)))"
    using group_first [OF assms(1,2)] .
  have "None \<notin> set (map (\<lambda>b. b (Some t)) (pre @ post))"
  proof
    assume "None \<in> set (map (\<lambda>b. b (Some t)) (pre @ post))"
    then show False
      unfolding set_map
    proof (rule imageE)
      fix b
      assume "None = b (Some t)" and b: "b \<in> set (pre @ post)"
      moreover from b have "b \<in> set as" by (auto simp: g(1))
      ultimately show False using assms(3) by (metis (no_types))
    qed
  qed
  then obtain t' where "last_exit t (map (\<lambda>b. b (Some t)) (pre @ post)) = Some t'" using last_exit_all by blast
  with g(2) show ?thesis by simp
qed

section \<open>When the parts return\<close>

lemma exit_time_Some:
  assumes "exit_time P steps = Some t" and "\<not> P []"
  shows "\<exists>n < length steps. P (map fst (take n steps) @ [fst (steps ! n)]) \<and> \<not> P (map fst (take n steps)) \<and> t = snd (steps ! n)"
proof -
  obtain n where n: "find (\<lambda>n. P (map fst (take (Suc n) steps))) [0..<length steps] = Some n" "t = snd (steps ! n)"
    using assms(1) by (auto simp: exit_time_def)
  then obtain i where i: "i < length steps" "n = i" "P (map fst (take (Suc n) steps))" "\<forall>j < i. \<not> P (map fst (take (Suc j) steps))"
    by (auto simp: find_Some_iff)
  have "\<not> P (map fst (take n steps))" using assms(2) i(2,4) by (cases n) auto
  with i n(2) show ?thesis by (auto simp: take_Suc_conv_app_nth)
qed

lemma exit_time_returns:
  assumes "P (map fst (take (Suc n) steps))" and "n < length steps"
  shows "\<exists>t. exit_time P steps = Some t"
  using assms by (auto simp: exit_time_def find_None_iff not_None_eq [symmetric] simp del: not_None_eq)

lemma collector_last_cancelled:
  assumes "fst (collector_loop names upsert unmarshal (conns @ [(clients, stream)]) s)"
    and "\<not> fst (collector_loop names upsert unmarshal conns s)"
  shows "\<exists>s1 e. fst (ProcessEvents names clients upsert unmarshal stream s1) = Some e \<and> errors_Is e context_Canceled"
  using assms
proof (induction conns arbitrary: s)
  case Nil
  obtain r s' where "ProcessEvents names clients upsert unmarshal stream s = (r, s')" by fastforce
  with Nil.prems(1) show ?case by (cases r) (auto split: if_splits intro!: exI [of _ s])
next
  case (Cons x conns)
  obtain c st where x: "x = (c, st)" by fastforce
  obtain r s' where p: "ProcessEvents names c upsert unmarshal st s = (r, s')" by fastforce
  show ?case using Cons.prems Cons.IH by (cases r) (auto simp: x p split: if_splits)
qed

lemma collector_exit_cancelled:
  assumes "collector_exit names upsert unmarshal ob = Some (t, e)"
  shows "\<exists>clients stream s e. ((clients, stream), t) \<in> set (obs_conns ob) \<and>
    fst (ProcessEvents names clients upsert unmarshal stream s) = Some e \<and> errors_Is e context_Canceled"
proof -
  let ?P = "\<lambda>conns. fst (runEventCollector names upsert unmarshal conns (collector_state ob))"
  have "exit_time ?P (obs_conns ob) = Some t" "\<not> ?P []"
    using assms by (auto simp: collector_exit_def runEventCollector_def)
  from exit_time_Some [OF this] obtain n where n: "n < length (obs_conns ob)" "t = snd (obs_conns ob ! n)"
      "?P (map fst (take n (obs_conns ob)) @ [fst (obs_conns ob ! n)])" "\<not> ?P (map fst (take n (obs_conns ob)))" by blast
  obtain clients stream where c: "fst (obs_conns ob ! n) = (clients, stream)" by fastforce
  then have "((clients, stream), t) \<in> set (obs_conns ob)" using n(1,2) by (metis nth_mem prod.collapse)
  moreover have "\<exists>s e. fst (ProcessEvents names clients upsert unmarshal stream s) = Some e \<and> errors_Is e context_Canceled"
    using collector_last_cancelled n(3,4) c unfolding runEventCollector_def by metis
  ultimately show ?thesis by blast
qed

lemma collector_exits:
  assumes "conn \<in> fst ` set (obs_conns ob)" and "cancelled_connection conn"
  shows "\<exists>t. collector_exit names upsert unmarshal ob = Some (t, None)"
proof -
  obtain n where n: "n < length (obs_conns ob)" "fst (obs_conns ob ! n) = conn"
    using assms(1) by (auto simp: in_set_conv_nth)
  then have "map fst (take (Suc n) (obs_conns ob)) = map fst (take n (obs_conns ob)) @ [conn]"
    by (simp add: take_Suc_conv_app_nth)
  with collector_stops [OF assms(2), of names upsert unmarshal _ "[]"]
  have "fst (runEventCollector names upsert unmarshal (map fst (take (Suc n) (obs_conns ob))) (collector_state ob))"
    by (simp add: runEventCollector_def)
  from exit_time_returns [of "\<lambda>conns. fst (runEventCollector names upsert unmarshal conns (collector_state ob))", OF this n(1)]
  show ?thesis by (auto simp: collector_exit_def)
qed

lemma sync_loop_outcome: "fst (sync_loop do_sync evs s) = (if CtxDone \<in> set evs then SyncReturned else SyncRunning)"
  by (induction evs arbitrary: s) (auto split: sync_event.split)

lemma sync_exits:
  assumes "0 \<le> sint interval" and "interval = 0 \<or> CtxDone \<in> fst ` set (sync_events ob)"
  shows "\<exists>t. sync_exit interval ob = Some (t, None)"
proof (cases "interval = 0")
  case False
  then have pos: "\<not> sint interval \<le> 0" using assms(1) by (metis order_antisym signed_eq_0_iff)
  obtain n where n: "n < length (sync_events ob)" "fst (sync_events ob ! n) = CtxDone"
    using assms(2) False by (auto simp: in_set_conv_nth)
  have "CtxDone \<in> set (map fst (take (Suc n) (sync_events ob)))"
    using n by (simp add: take_Suc_conv_app_nth)
  then have "fst (runDataSync interval id (map fst (take (Suc n) (sync_events ob))) ()) = SyncReturned"
    using False pos by (simp add: runDataSync_def sync_loop_outcome)
  from exit_time_returns [of "\<lambda>evs. fst (runDataSync interval id evs ()) = SyncReturned", OF this n(1)] False show ?thesis
    by (auto simp: sync_exit_def)
qed (simp add: sync_exit_def)

lemma service_stopped:
  assumes "group_law run_Group" and "observes_contexts z Logger c w names upsert unmarshal ob"
    and "service_Run run_Group names upsert unmarshal interval ob = Some (t, e)"
  shows "(\<exists>tq \<le> t. queue_stop ob = Some tq \<and> 0 \<in> calls ob tq) \<and>
    (\<exists>tc \<le> t. collector_exit names upsert unmarshal ob = Some (tc, None) \<and> 0 \<in> calls ob tc) \<and>
    (\<exists>ts \<le> t. \<exists>e'. sync_exit interval ob = Some (ts, e'))"
proof -
  let ?as = "[deaf (queue_exit ob), deaf (collector_exit names upsert unmarshal ob), deaf (sync_exit interval ob)]"
  note oc = assms(2) [unfolded observes_contexts_def]
  have g: "group_doc ?as (Some (t, e))"
    using assms(1,3) unfolding group_law_def service_Run_def by (metis list.distinct(1))
  obtain tq eq where q: "queue_exit ob = Some (tq, eq)" "tq \<le> t" using group_deaf [OF g, of "queue_exit ob"] by auto
  obtain tc ec where co: "collector_exit names upsert unmarshal ob = Some (tc, ec)" "tc \<le> t"
    using group_deaf [OF g, of "collector_exit names upsert unmarshal ob"] by auto
  obtain ts es where sy: "sync_exit interval ob = Some (ts, es)" "ts \<le> t" using group_deaf [OF g, of "sync_exit interval ob"] by auto
  have qs: "queue_stop ob = Some tq" using q(1) by (auto simp: queue_exit_def)
  then have "ctx_Done (calls ob tq) (queue_context z Logger c w root_context)" using oc by blast
  moreover have "c \<notin> calls ob tq" using oc qs by fastforce
  ultimately have "0 \<in> calls ob tq" by (simp add: context_defs Let_def)
  moreover have "ec = None" using co(1) by (auto simp: collector_exit_def)
  moreover have "ctx_Done (calls ob tc) (collector_context z Logger root_context)"
    using collector_exit_cancelled [OF co(1)] oc by fastforce
  then have "0 \<in> calls ob tc" by (simp add: context_defs)
  ultimately show ?thesis using q(2) qs co sy by blast
qed

lemma actors_stopped:
  assumes "group_law run_Group" and "observes_contexts z Logger c w names upsert unmarshal ob"
    and "run_actors run_Group names upsert unmarshal interval ob = Some (t, lg, r)"
  shows "r = None \<and> 0 \<in> calls ob t \<and> (\<exists>tq \<le> t. queue_stop ob = Some tq \<and> 0 \<in> calls ob tq) \<and>
    (\<exists>tc \<le> t. collector_exit names upsert unmarshal ob = Some (tc, None) \<and> 0 \<in> calls ob tc) \<and>
    (\<exists>ts \<le> t. \<exists>e. sync_exit interval ob = Some (ts, e))"
proof -
  let ?sv = "service_Run run_Group names upsert unmarshal interval ob"
  obtain e where e: "run_Group [deaf ?sv, web_exit ob] = Some (t, e)" and r: "r = None"
    using assms(3) by (auto simp: run_actors_def split: option.splits)
  then have "group_doc [deaf ?sv, web_exit ob] (Some (t, e))"
    using assms(1) unfolding group_law_def by (metis list.distinct(1))
  from group_deaf [OF this, of ?sv] obtain ts es where s: "?sv = Some (ts, es)" "ts \<le> t" by auto
  note st = service_stopped [OF assms(1,2) s(1)]
  then have "0 \<in> calls ob t" using s(2) assms(2) unfolding observes_contexts_def by (meson in_mono order_trans)
  with r st s(2) show ?thesis by (meson order_trans)
qed

lemma as_Repository_upsert: "m_UpsertApplications (as_Repository r) = UpsertApplications (pool_env (dbpool r))"
  by (simp add: as_Repository_def Let_def)

lemma commands_Run_cases:
  "commands_Run new_pool now v run_Group names unmarshal cfg ob =
     (case NewConnectionPool new_pool (cfg_Postgres cfg) of
        Inl e \<Rightarrow> Some (0, [], Some (Errorf_w ''cannot parse Postgres connection config: '' e))
      | Inr pool \<Rightarrow> run_actors run_Group names (UpsertApplications (pool_env pool)) unmarshal
          (yhs_DataSyncInterval (cfg_YHS cfg)) ob)"
  by (simp add: commands_Run_def server_setup_def Let_def NewPostgresRepository_def NewService_def WithSyncInterval_def
      as_Repository_upsert split: sum.split)

section \<open>Properties\<close>

text \<open>
  C19. The server runs until it is told to stop: the root command returns an error only when the configuration or the
  connection string is refused; otherwise it returns only after a signal, with nil, and by then the loop of the
  work queue, the event collector and the sync loop have returned, the first two after the signal. This
  holds whatever the HTTP server does: when it cannot listen, its actor returns at once, and the group goes on
  waiting for the service, which nothing but a signal stops.
\<close>

theorem server_runs_until_signal:
  assumes "group_law run_Group" and "\<forall>env. observes_contexts z Logger c w names (UpsertApplications env) unmarshal ob"
    and "rootCmd_RunE new_pool now v run_Group names unmarshal config ob = Some (t, lg, r)"
  shows "case r of
      Some e \<Rightarrow> config = Inl e \<or> (\<exists>cfg e'. config = Inr cfg \<and> NewConnectionPool new_pool (cfg_Postgres cfg) = Inl e' \<and>
        e = Errorf_w ''cannot parse Postgres connection config: '' e')
    | None \<Rightarrow> \<exists>cfg pool. config = Inr cfg \<and> NewConnectionPool new_pool (cfg_Postgres cfg) = Inr pool \<and>
        0 \<in> calls ob t \<and> (\<exists>tq \<le> t. queue_stop ob = Some tq \<and> 0 \<in> calls ob tq) \<and>
        (\<exists>tc \<le> t. collector_exit names (UpsertApplications (pool_env pool)) unmarshal ob = Some (tc, None) \<and> 0 \<in> calls ob tc) \<and>
        (\<exists>ts \<le> t. \<exists>e. sync_exit (yhs_DataSyncInterval (cfg_YHS cfg)) ob = Some (ts, e))"
proof (cases config)
  case (Inl e)
  with assms(3) show ?thesis by (auto simp: rootCmd_RunE_def)
next
  case (Inr cfg)
  show ?thesis
  proof (cases "NewConnectionPool new_pool (cfg_Postgres cfg)")
    case (Inl e)
    with assms(3) Inr show ?thesis by (auto simp: rootCmd_RunE_def commands_Run_cases)
  next
    case (Inr pool)
    with assms(3) \<open>config = Inr cfg\<close>
    have "run_actors run_Group names (UpsertApplications (pool_env pool)) unmarshal (yhs_DataSyncInterval (cfg_YHS cfg)) ob =
        Some (t, lg, r)"
      by (simp add: rootCmd_RunE_def commands_Run_cases)
    from actors_stopped [OF assms(1) spec [OF assms(2)] this] Inr \<open>config = Inr cfg\<close> show ?thesis by simp
  qed
qed

text \<open>A group that follows the documentation: the first of the earliest actors decides.\<close>

definition exits_at :: "instant \<Rightarrow> actor \<Rightarrow> bool" where
  "exits_at t a \<longleftrightarrow> (case a None of None \<Rightarrow> False | Some (t', e) \<Rightarrow> t' = t)"

definition plain_group :: run_group where
  "plain_group as =
     (case List.map_filter (\<lambda>a. map_option fst (a None)) as of
        [] \<Rightarrow> None
      | t0 # ts \<Rightarrow>
          (let t = Min (set (t0 # ts)); pre = takeWhile (Not \<circ> exits_at t) as in
           case dropWhile (Not \<circ> exits_at t) as of
             [] \<Rightarrow> None
           | a # post \<Rightarrow> (case a None of None \<Rightarrow> None
               | Some (t', e) \<Rightarrow> map_option (\<lambda>u. (u, e)) (last_exit t (map (\<lambda>b. b (Some t)) (pre @ post))))))"

lemma plain_group_doc: "group_doc as (plain_group as)"
proof (cases "\<forall>a \<in> set as. a None = None")
  case True
  then have "List.map_filter (\<lambda>a. map_option fst (a None)) as = []" by (induction as) (simp_all add: List.map_filter_simps)
  with True show ?thesis by (simp add: group_doc_def plain_group_def)
next
  case False
  let ?ts = "List.map_filter (\<lambda>a. map_option fst (a None)) as"
  define t where "t = Min (set ?ts)"
  have ts: "set ?ts = {t. \<exists>a \<in> set as. \<exists>e. a None = Some (t, e)}"
    by (induction as) (auto simp: List.map_filter_simps split: option.splits)
  with False have ne: "?ts \<noteq> []" by (auto simp flip: set_empty)
  then have t: "t \<in> set ?ts" unfolding t_def by (intro Min_in) simp_all
  have min: "\<forall>b \<in> set as. \<forall>t' e'. b None = Some (t', e') \<longrightarrow> t \<le> t'"
  proof (intro ballI allI impI)
    fix b t' e'
    assume "b \<in> set as" "b None = Some (t', e')"
    then have "t' \<in> set ?ts" unfolding ts by auto
    then show "t \<le> t'" unfolding t_def by (intro Min_le) simp_all
  qed
  from t obtain b e0 where b: "b \<in> set as" "b None = Some (t, e0)" using ts by auto
  then have "\<exists>x \<in> set as. exits_at t x" by (auto simp: exits_at_def intro!: bexI [of _ b])
  then obtain a post where d: "dropWhile (Not \<circ> exits_at t) as = a # post"
    by (cases "dropWhile (Not \<circ> exits_at t) as") (auto simp: dropWhile_eq_Nil_conv)
  have "exits_at t a" using hd_dropWhile [of "Not \<circ> exits_at t" as] d by simp
  then obtain e where a: "a None = Some (t, e)" by (auto simp: exits_at_def split: option.splits)
  have "plain_group as = map_option (\<lambda>u. (u, e)) (last_exit t (map (\<lambda>b. b (Some t)) (takeWhile (Not \<circ> exits_at t) as @ post)))"
  proof -
    obtain t0 l where l: "?ts = t0 # l" using ne by (cases ?ts) auto
    then have "Min (set (t0 # l)) = t" by (simp add: t_def)
    with l d a show ?thesis by (simp only: plain_group_def Let_def list.case option.case prod.case)
  qed
  moreover have "as = takeWhile (Not \<circ> exits_at t) as @ a # post" using takeWhile_dropWhile_id [of "Not \<circ> exits_at t" as] d by simp
  ultimately show ?thesis using False a min unfolding group_doc_def by (simp only: if_False) blast
qed

lemma plain_group_law: "group_law plain_group"
  by (simp add: group_law_def plain_group_doc)

lemma actors_stop:
  assumes "group_law run_Group" and "conn \<in> fst ` set (obs_conns ob)" and "cancelled_connection conn"
    and "0 \<le> sint interval" and "interval = 0 \<or> CtxDone \<in> fst ` set (sync_events ob)" and "queue_stop ob \<noteq> None"
  shows "\<exists>t lg. run_actors run_Group names upsert unmarshal interval ob = Some (t, lg, None)"
proof -
  let ?sv = "service_Run run_Group names upsert unmarshal interval ob"
  let ?as = "[deaf (queue_exit ob), deaf (collector_exit names upsert unmarshal ob), deaf (sync_exit interval ob)]"
  obtain tq tc ts where x: "queue_exit ob = Some (tq, Some context_Canceled)"
      "collector_exit names upsert unmarshal ob = Some (tc, None)" "sync_exit interval ob = Some (ts, None)"
    using assms(6) collector_exits [OF assms(2,3), of names upsert unmarshal] sync_exits [OF assms(4,5)] by (auto simp: queue_exit_def)
  have "group_doc ?as ?sv" using assms(1) unfolding group_law_def service_Run_def by (metis list.distinct(1))
  from group_returns [OF this] x obtain t e where s: "?sv = Some (t, e)" by (auto simp: deaf_def)
  have g: "group_doc [deaf ?sv, web_exit ob] (run_Group [deaf ?sv, web_exit ob])" using assms(1) by (simp add: group_law_def)
  have "web_exit ob (Some t') \<noteq> None" for t' by (auto simp: web_exit_def split: option.splits)
  with s have "\<exists>t' e'. run_Group [deaf ?sv, web_exit ob] = Some (t', e')"
    by (intro group_returns [OF g]) (simp_all add: deaf_def)
  then obtain t' e' where "run_Group [deaf ?sv, web_exit ob] = Some (t', e')" by blast
  then show ?thesis by (cases e') (auto simp: run_actors_def)
qed

text \<open>A signal at time 5, while the collector is connected and the HTTP server has failed.\<close>

definition demo_observation :: "db observation" where
  "demo_observation = \<lparr>calls = (\<lambda>t. if 5 \<le> t then {0} else {}),
     obs_conns = [((\<lambda>n p q i. Inr None, Inr ([], context_Canceled)), 6)], first_sync = 1, sync_events = [(CtxDone, 5)],
     queue_stop = Some 5, listen_failure = Some (0, ErrorText ''address already in use''),
     collector_state = \<lparr>service = new_service_state empty_db, eventRepository = NewInMemoryEventRepository\<rparr>\<rparr>"

definition demo_config :: Config where
  "demo_config = \<lparr>cfg_YHS = \<lparr>yhs_Port = 8989, yhs_AssetsDir = ''assets'', yhs_DataSyncInterval = 5 * (60 * second),
       yhs_CORSConfig = \<lparr>AllowedOrigins = [], AllowedMethods = [], AllowedHeaders = []\<rparr>\<rparr>,
     cfg_Postgres = demo_pg, cfg_Yunikorn = \<lparr>yk_Host = ''scheduler'', yk_Port = 9080, yk_Secure = False\<rparr>,
     cfg_Log = \<lparr>log_LogLevel = ''info'', log_JSONFormat = False\<rparr>\<rparr>"

definition demo_pool :: pgpool where
  "demo_pool = \<lparr>pool_sql = stable_sql, pool_int8 = demo_int8, pool_env = demo_env\<rparr>"

abbreviation demo_RunE :: "outcome option" where
  "demo_RunE \<equiv> rootCmd_RunE (\<lambda>conn. Inr demo_pool) 0 ''1'' plain_group demo_names (\<lambda>l. Inl io_EOF)
     (Inr demo_config) demo_observation"

lemma demo_observes:
  "\<forall>env. observes_contexts z Logger 1 (w :: 'j WorkQueue) demo_names (UpsertApplications env) (\<lambda>l. Inl io_EOF) demo_observation"
  by (simp add: observes_contexts_def demo_observation_def context_defs Let_def)

lemma server_stops:
  assumes "group_law run_Group" and "conn \<in> fst ` set (obs_conns ob)" and "cancelled_connection conn" and "queue_stop ob \<noteq> None"
    and "NewConnectionPool new_pool (cfg_Postgres cfg) = Inr pool" and "0 \<le> sint (yhs_DataSyncInterval (cfg_YHS cfg))"
    and "yhs_DataSyncInterval (cfg_YHS cfg) = 0 \<or> CtxDone \<in> fst ` set (sync_events ob)"
  shows "\<exists>t lg. rootCmd_RunE new_pool now v run_Group names unmarshal (Inr cfg) ob = Some (t, lg, None)"
  using actors_stop [OF assms(1-3,6,7,4)] assms(5) by (simp add: rootCmd_RunE_def commands_Run_cases)

lemma demo_stop_facts:
  "(\<lambda>n p q i. Inr None, Inr ([], context_Canceled)) \<in> fst ` set (obs_conns demo_observation)"
  "cancelled_connection (\<lambda>n p q i. Inr None, Inr ([], context_Canceled))" "queue_stop demo_observation \<noteq> None"
  "NewConnectionPool (\<lambda>conn. Inr demo_pool) (cfg_Postgres demo_config) = Inr demo_pool"
  "0 \<le> sint (yhs_DataSyncInterval (cfg_YHS demo_config))"
  "yhs_DataSyncInterval (cfg_YHS demo_config) = 0 \<or> CtxDone \<in> fst ` set (sync_events demo_observation)"
  by (simp_all add: demo_observation_def demo_config_def NewConnectionPool_def cancelled_connection_def context_Canceled_def second_def)

theorem server_runs_until_signal_witness:
  "\<exists>t lg. demo_RunE = Some (t, lg, None) \<and> 0 \<in> calls demo_observation t \<and> 5 \<le> t"
proof -
  obtain t lg where r: "demo_RunE = Some (t, lg, None)" using server_stops [OF plain_group_law demo_stop_facts] by blast
  define z :: "unit zap" where "z = \<lparr>zap_New = (\<lambda>_ _. ()), zap_With = (\<lambda>_ _ _. ()), zap_S = (), zap_ParseLevel = (\<lambda>_. None)\<rparr>"
  from server_runs_until_signal [OF plain_group_law demo_observes [of z None "NewWorkQueue [] :: unit WorkQueue"] r]
  have "0 \<in> calls demo_observation t" by auto
  with r show ?thesis by (auto simp: demo_observation_def split: if_splits)
qed

text \<open>
  The server stops when it is told to: with a configuration that is accepted, once the collector has had a
  connection that fails because its context is cancelled, the sync loop has seen that its context is done (or
  syncs only once), and so has the work queue, the root command returns, with nil; the HTTP server is shut
  down by its group.
\<close>

theorem server_stops_after_signal:
  assumes "group_law run_Group" and "conn \<in> fst ` set (obs_conns ob)" and "cancelled_connection conn" and "queue_stop ob \<noteq> None"
    and "NewConnectionPool new_pool (cfg_Postgres cfg) = Inr pool" and "0 \<le> sint (yhs_DataSyncInterval (cfg_YHS cfg))"
    and "yhs_DataSyncInterval (cfg_YHS cfg) = 0 \<or> CtxDone \<in> fst ` set (sync_events ob)"
  shows "\<exists>t lg. rootCmd_RunE new_pool now v run_Group names unmarshal (Inr cfg) ob = Some (t, lg, None)"
  using server_stops [OF assms] .

theorem server_stops_after_signal_witness: "\<exists>t lg. demo_RunE = Some (t, lg, None)"
  by (rule server_stops_after_signal [OF plain_group_law demo_stop_facts])

end
