(* ===== verification/Repository_Laws.thy ===== *)
theory Repository_Laws
  imports Service Web_Dispatch
begin

text \<open>
  The laws of the interface \<open>Repository\<close> and its users. The first part shows that the two methods that no
  job calls, \<open>AddQueues\<close> and \<open>DeleteQueues\<close>, keep the invariant of the database too; then the locale
  \<open>repository\<close> of \<open>Repository\<close> is extended by the source of identifiers, the work queue's jobs, the event
  handlers and the web service are its clients, and \<open>PostgresRepository\<close> is its interpretation.
\<close>

section \<open>Adding queues\<close>

text \<open>
  The arguments for which \<open>AddQueues\<close> links every queue to the row of the queue that it names as its parent:
  trees whose children name their parents, below the row of the given identifier, or, with a nil pointer, all
  below the same queue (the loop keeps the first identifier that it finds).
\<close>

definition add_legal :: "string option \<Rightarrow> PartitionQueueDAOInfo list \<Rightarrow> QueueRow list \<Rightarrow> bool" where
  "add_legal parentId qs rs \<longleftrightarrow>
     (\<forall>q \<in> set qs. named_tree q \<and> [] \<notin> set (queue_names q)) \<and>
     (case parentId of
        None \<Rightarrow> \<exists>n p. \<forall>q \<in> set qs. queue_Parent (qinfo q) = n \<and> (n \<noteq> [] \<longrightarrow> queue_Partition (qinfo q) = p)
      | Some i \<Rightarrow> \<forall>q \<in> set qs. queue_Parent (qinfo q) \<noteq> [] \<and>
          (\<exists>r \<in> set rs. qr_id r = i \<and> queue_key r = (queue_Partition (qinfo q), queue_Parent (qinfo q))))"

text \<open>The same for an identifier that has been looked up: nil only for queues at the top.\<close>

definition resolved :: "string option \<Rightarrow> PartitionQueueDAOInfo list \<Rightarrow> QueueRow list \<Rightarrow> bool" where
  "resolved pid qs rs \<longleftrightarrow> add_legal pid qs rs \<and> (pid = None \<longrightarrow> (\<forall>q \<in> set qs. queue_Parent (qinfo q) = []))"

lemma resolved_mono:
  assumes "resolved pid qs (queues_t d)" and "queues_only d d'" and "set qs' \<subseteq> set qs"
  shows "resolved pid qs' (queues_t d')"
proof (cases pid)
  case None
  with assms(1,3) show ?thesis by (auto simp: resolved_def add_legal_def intro!: exI [of _ "[]"])
next
  case (Some i)
  have "\<exists>r' \<in> set (queues_t d'). qr_id r' = i \<and> queue_key r' = (queue_Partition (qinfo q), queue_Parent (qinfo q))"
    if q: "q \<in> set qs'" for q
  proof -
    obtain r where "r \<in> set (queues_t d)" "qr_id r = i" "queue_key r = (queue_Partition (qinfo q), queue_Parent (qinfo q))"
      using assms(1) subsetD [OF assms(3) q] Some unfolding resolved_def add_legal_def by auto
    with assms(2) show ?thesis unfolding queues_only_def by (metis same_linksD(1,2))
  qed
  with assms(1,3) Some show ?thesis by (auto simp: resolved_def add_legal_def)
qed

lemma resolved_parent:
  assumes "resolved pid qs rs" and "q \<in> set qs"
  shows "parent_resolved rs (new_queue_row i pid n q)"
  using assms by (cases pid) (auto simp: resolved_def add_legal_def parent_resolved_def)

text \<open>Looking up the parent of the first queue.\<close>

definition find_parent ::
    "pgenv \<Rightarrow> string option \<Rightarrow> PartitionQueueDAOInfo \<Rightarrow> db \<Rightarrow> string option result \<times> db" where
  "find_parent env parentId q d =
     (case parentId of
        None \<Rightarrow> getQueueID env (queue_Parent (qinfo q)) (queue_Partition (qinfo q)) d
      | Some p \<Rightarrow> (Inr (Some p), d))"

lemma queues_onlyI: "keeps no_queues d d' \<Longrightarrow> set (queues_t d) \<subseteq> set (queues_t d') \<Longrightarrow> queues_only d d'"
  unfolding queues_only_def using same_links_refl by blast

lemma queues_only_ctr [simp]: "queues_only d (d\<lparr>stmtCtr := k\<rparr>)"
  by (rule queues_onlyI) (simp_all add: keeps_def clear_defs)

lemma find_parent_resolves:
  assumes "find_parent env parentId q d = (Inr pid, d1)" and "add_legal parentId (q # qs) (queues_t d)"
  shows "resolved pid (q # qs) (queues_t d1)"
proof (cases parentId)
  case (Some p)
  with assms show ?thesis by (auto simp: find_parent_def resolved_def)
next
  case None
  then have g: "getQueueID env (queue_Parent (qinfo q)) (queue_Partition (qinfo q)) d = (Inr pid, d1)"
    using assms(1) by (simp add: find_parent_def)
  from assms(2) None obtain n p where l: "\<forall>x \<in> set (q # qs). named_tree x \<and> [] \<notin> set (queue_names x)"
      "\<forall>x \<in> set (q # qs). queue_Parent (qinfo x) = n \<and> (n \<noteq> [] \<longrightarrow> queue_Partition (qinfo x) = p)"
    by (auto simp: add_legal_def)
  from g show ?thesis
  proof (cases rule: getQueueID_cases)
    case top
    with l show ?thesis by (auto simp: resolved_def add_legal_def)
  next
    case (found r k)
    with l find_alive_queueD(1,2) [OF found(4)] show ?thesis by (fastforce simp: resolved_def add_legal_def)
  qed simp
qed

lemma find_parent_keeps: "find_parent env parentId q d = (res, d1) \<Longrightarrow> \<exists>k. d1 = d\<lparr>stmtCtr := k\<rparr>"
proof (cases parentId)
  case None
  assume "find_parent env parentId q d = (res, d1)"
  with None have "getQueueID env (queue_Parent (qinfo q)) (queue_Partition (qinfo q)) d = (res, d1)"
    by (simp add: find_parent_def)
  then show ?thesis by (cases rule: getQueueID_cases) (auto intro: exI [of _ "stmtCtr d"])
qed (auto simp: find_parent_def intro: exI [of _ "stmtCtr d"])

lemma AddQueue_row_step:
  assumes "AddQueue_row env pid q d = (res, d')" and "inj (freshUUID env)" and "queue_inv env d"
    and "\<And>i n. parent_resolved (queues_t d) (new_queue_row i pid n q)"
  shows "queue_inv env d' \<and> queues_only d d' \<and>
    (\<forall>i. res = Inr i \<longrightarrow> (\<exists>r \<in> set (queues_t d'). qr_id r = i \<and> queue_key r = dao_key q))"
proof -
  let ?u = "freshUUID env (uuidCtr d)" and ?d1 = "d\<lparr>uuidCtr := Suc (uuidCtr d)\<rparr>"
  let ?r = "new_queue_row ?u pid (unix_now env ?d1) q"
  obtain x d2 where e: "pg_exec env (insert_queue_stmt ?r) ?d1 = (x, d2)" by fastforce
  from e show ?thesis
  proof (cases rule: pg_exec_cases)
    case (failed e')
    then have d: "d' = ?d1\<lparr>stmtCtr := Suc (stmtCtr d)\<rparr>" "res = Inl e'"
      using assms(1) e by (auto simp: AddQueue_row_def new_uuid_def)
    moreover have "queue_inv env d'" by (rule invs_mono(5) [of env d]) (use d assms(3) in \<open>auto simp: drawn_def\<close>)
    moreover have "queues_only d d'" by (rule queues_onlyI) (use d in \<open>auto simp: keeps_def clear_defs\<close>)
    ultimately show ?thesis by simp
  next
    case ok
    then have d: "d' = ?d1\<lparr>stmtCtr := Suc (stmtCtr d), queues_t := queues_t d @ [?r]\<rparr>" "res = Inr ?u"
        and k: "queue_key ?r \<notin> queue_key ` set (queues_t d)"
      using assms(1) e by (auto simp: AddQueue_row_def new_uuid_def insert_queue_stmt_def put_queues_def insert_row_def
          list_ex_iff split: if_splits)
    have "queue_inv env d'"
      by (rule queue_inv_snoc [OF assms(3,4) k _ assms(2)]) (simp_all add: d)
    moreover have "queues_only d d'" by (rule queues_onlyI) (use d in \<open>auto simp: keeps_def clear_defs\<close>)
    ultimately show ?thesis using d by simp
  qed
qed

lemma children_resolved:
  assumes "resolved pid (q # qs) rs" and "r \<in> set rs'" and "qr_id r = i" and "queue_key r = dao_key q"
  shows "resolved (Some i) (map (set_partition (queue_Partition (qinfo q))) (qChildren q)) rs'"
proof -
  have t: "named_tree q" "[] \<notin> set (queue_names q)" using assms(1) by (auto simp: resolved_def add_legal_def)
  have "queue_QueueName (qinfo q) \<noteq> []" using t(2) unfolding queue_names_root [of q] by auto
  moreover have "named_tree c \<and> queue_Parent (qinfo c) = queue_QueueName (qinfo q) \<and> [] \<notin> set (queue_names c)"
    if "c \<in> set (qChildren q)" for c
    using t that unfolding named_tree_root [of q] queue_names_root [of q] by (auto simp: list_all_iff)
  ultimately show ?thesis using assms(2-4) by (auto simp: resolved_def add_legal_def dao_key_def)
qed

lemma AddQueues_Cons:
  "AddQueues env parentId (q # qs) d =
     (case find_parent env parentId q d of
        (Inl e, d1) \<Rightarrow> (Some (Errorf_v ''could not get parent queue from DB: '' e), d1)
      | (Inr pid, d1) \<Rightarrow>
          if queue_Partition (qinfo q) = [] then
            (Some (ErrorText (sprintf ''partition is required for queue %s'' [AText (queue_QueueName (qinfo q))])), d1)
          else (case AddQueue_row env pid q d1 of
              (Inl e, d2) \<Rightarrow>
                (Some (ErrorText (sprintf ''could not add queue %s into DB: %v''
                   [AText (queue_QueueName (qinfo q)), AText (error_text e)])), d2)
            | (Inr i, d2) \<Rightarrow>
                (case AddQueues env (Some i) (map (set_partition (queue_Partition (qinfo q))) (qChildren q)) d2 of
                   (Some e, d3) \<Rightarrow>
                     (Some (ErrorText (sprintf ''could not add one or more children of queue %s into DB: %v''
                        [AText (queue_QueueName (qinfo q)), AText (error_text e)])), d3)
                 | (None, d3) \<Rightarrow> AddQueues env pid qs d3)))"
proof -
  let ?cs = "map (set_partition (queue_Partition (qinfo q))) (qChildren q)"
  have "(if qChildren q \<noteq> [] then AddQueues env (Some i) ?cs d2 else (None, d2)) = AddQueues env (Some i) ?cs d2" for i d2
    by simp
  then show ?thesis by (simp only: AddQueues.simps(2) find_parent_def)
qed

lemma AddQueues_inv:
  assumes "inj (freshUUID env)"
  shows "AddQueues env parentId qs d = (res, d') \<Longrightarrow> queue_inv env d \<Longrightarrow> add_legal parentId qs (queues_t d) \<Longrightarrow>
    queue_inv env d' \<and> queues_only d d'"
proof (induction "sum_list (map queue_count qs)" arbitrary: parentId qs d res d' rule: less_induct)
  case less
  note prems = less.prems
  show ?case
  proof (cases qs)
    case Nil
    with prems show ?thesis by simp
  next
    case (Cons q rest)
    let ?cs = "map (set_partition (queue_Partition (qinfo q))) (qChildren q)"
    obtain f d1 where f: "find_parent env parentId q d = (f, d1)" by fastforce
    then obtain k where k: "d1 = d\<lparr>stmtCtr := k\<rparr>" using find_parent_keeps by blast
    have i1: "queue_inv env d1" by (rule invs_mono(5) [of env d]) (use k prems(2) in \<open>auto simp: drawn_def\<close>)
    have o1: "queues_only d d1" using k by simp
    show ?thesis
    proof (cases "\<exists>pid. f = Inr pid \<and> queue_Partition (qinfo q) \<noteq> []")
      case False
      then have "d' = d1" using prems(1) Cons f by (auto simp: AddQueues_Cons split: sum.splits)
      with i1 o1 show ?thesis by simp
    next
      case True
      then obtain pid where pid: "f = Inr pid" "queue_Partition (qinfo q) \<noteq> []" by blast
      have r1: "resolved pid (q # rest) (queues_t d1)"
        using find_parent_resolves [of env parentId q d pid d1 rest] f pid(1) prems(3) Cons by simp
      obtain x d2 where x: "AddQueue_row env pid q d1 = (x, d2)" by fastforce
      have "parent_resolved (queues_t d1) (new_queue_row i pid n q)" for i n using resolved_parent [OF r1] by simp
      note s2 = AddQueue_row_step [OF x assms i1 this]
      show ?thesis
      proof (cases x)
        case (Inl e)
        then have "d' = d2" using prems(1) Cons f pid x by (simp add: AddQueues_Cons)
        with s2 o1 show ?thesis using queues_only_trans by blast
      next
        case (Inr i)
        then obtain r where r: "r \<in> set (queues_t d2)" "qr_id r = i" "queue_key r = dao_key q" using s2 by blast
        obtain y d3 where y: "AddQueues env (Some i) ?cs d2 = (y, d3)" by fastforce
        have "queue_inv env d3 \<and> queues_only d2 d3"
          by (rule less.hyps [OF _ y]) (use s2 children_resolved [OF r1 r] Cons in
              \<open>simp_all add: queue_count_children [of q] resolved_def\<close>)
        with s2 o1 have s3: "queue_inv env d3" "queues_only d1 d3" "queues_only d d3" using queues_only_trans by blast+
        show ?thesis
        proof (cases y)
          case (Some e)
          then have "d' = d3" using prems(1) Cons f pid x Inr y by (simp add: AddQueues_Cons)
          with s3 show ?thesis by simp
        next
          case None
          then have "AddQueues env pid rest d3 = (res, d')" using prems(1) Cons f pid x Inr y by (simp add: AddQueues_Cons)
          then have "queue_inv env d' \<and> queues_only d3 d'"
            by (rule less.hyps [rotated]) (use s3(1) resolved_mono [OF r1 s3(2), of rest] Cons in \<open>auto simp: resolved_def\<close>)
          with s3(3) show ?thesis using queues_only_trans by blast
        qed
      qed
    qed
  qed
qed

section \<open>Deleting queues\<close>

lemma delete_row_keeps:
  assumes "pg_exec env (delete_queue_stmt now i) d = (res, d')" and "queue_inv env d"
  shows "queue_inv env d' \<and> queues_only d d'"
  using assms(1)
proof (cases rule: pg_exec_cases)
  case (failed e)
  moreover have "queue_inv env d'" by (rule invs_mono(5) [of env d]) (use failed assms(2) in \<open>auto simp: drawn_def\<close>)
  ultimately show ?thesis by simp
next
  case ok
  let ?f = "\<lambda>r. if qr_id r = i then r\<lparr>qr_deleted_at := Some now\<rparr> else r"
  have d: "d' = d\<lparr>stmtCtr := Suc (stmtCtr d), queues_t := map ?f (queues_t d)\<rparr>" using ok by (simp add: delete_queue_stmt_def)
  have l: "same_links r (?f r)" for r by simp
  have "queue_inv env d'" by (rule queue_inv_map [of ?f, OF l assms(2)]) (simp_all add: d drawn_def)
  moreover have "queues_only d d'" unfolding queues_only_def
  proof (intro conjI ballI)
    show "keeps no_queues d d'" by (simp add: d keeps_def clear_defs)
    show "\<exists>r' \<in> set (queues_t d'). same_links r r'" if "r \<in> set (queues_t d)" for r
      using that l [of r] unfolding d by (intro bexI [of _ "?f r"]) simp_all
  qed
  ultimately show ?thesis by blast
qed

lemma DeleteQueues_inv:
  "DeleteQueues env qs d = (res, d') \<Longrightarrow> queue_inv env d \<Longrightarrow> queue_inv env d' \<and> queues_only d d'"
proof (induction env qs d arbitrary: res d' rule: DeleteQueues.induct)
  case (1 env d)
  then show ?case by simp
next
  case (2 env q qs d)
  obtain x d1 where c: "(if sqChildren q \<noteq> [] then DeleteQueues env (sqChildren q) d else (None, d)) = (x, d1)" by fastforce
  have s1: "queue_inv env d1 \<and> queues_only d d1"
    using "2.IH"(1) [of x d1] "2.prems"(2) c by (cases "sqChildren q = []") auto
  show ?case
  proof (cases x)
    case (Some e)
    then show ?thesis using "2.prems"(1) c s1 by (simp add: DeleteQueues.simps(2))
  next
    case None
    obtain y d2 where y: "pg_exec env (delete_queue_stmt (unix_now env d1) (qr_id (sqRow q))) d1 = (y, d2)" by fastforce
    from delete_row_keeps [OF y] s1 have s2: "queue_inv env d2 \<and> queues_only d d2" using queues_only_trans by blast
    show ?thesis
    proof (cases y)
      case (Some e)
      then show ?thesis using "2.prems"(1) c None y s2 by (simp add: DeleteQueues.simps(2))
    next
      case ok: None
      then have "DeleteQueues env qs d2 = (res, d')" using "2.prems"(1) c None y by (simp add: DeleteQueues.simps(2))
      with "2.IH"(2) [OF c [symmetric] None y [symmetric] ok] s2 show ?thesis using queues_only_trans by blast
    qed
  qed
qed

section \<open>The users of a repository\<close>

text \<open>The web service: whatever a request asks for, no table changes.\<close>

lemma snd_respond [simp]: "snd (respond r f x) = snd x"
  by (cases x) (auto simp: respond_def split: sum.split)

context repository
begin

lemmas reader_laws =
  reads_change_nothing [of CGetAllPartitions, simplified] reads_change_nothing [of "CGetQueuesPerPartition p" for p, simplified]
  reads_change_nothing [of "CGetAppsPerPartitionPerQueue p q f" for p q f, simplified]
  reads_change_nothing [of "CGetNodesPerPartition p" for p, simplified]
  reads_change_nothing [of CGetApplicationsHistory, simplified] reads_change_nothing [of CGetContainersHistory, simplified]
  reads_change_nothing [of CGetNodeUtilizations, simplified]

lemma getQueuesPerPartition_tables:
  assumes "getQueuesPerPartition ws r s = Some (resp, s')" and "ws_repository ws = R"
  shows "tables s' = tables s"
proof -
  have "s' = snd (m_GetQueuesPerPartition R (req_Params r ''partition_name'') s)"
    using assms by (auto simp: getQueuesPerPartition_def split: prod.splits sum.splits option.splits)
  then show ?thesis by (simp add: reader_laws)
qed

lemma getApps_tables:
  assumes "ws_repository ws = R"
  shows "tables (snd (getAppsPerPartitionPerQueue ws r s)) = tables s"
  using assms by (simp add: getAppsPerPartitionPerQueue_def reader_laws split: sum.split)

lemma handle_tables:
  assumes "handle w h r s = Some (resp, s')" and "ws_repository (web_service w) = R"
  shows "tables s' = tables s"
proof (cases "h = H_getQueuesPerPartition")
  case True
  with assms show ?thesis using getQueuesPerPartition_tables by simp
next
  case False
  have "tables (snd (the (handle w h r s))) = tables s"
    using False assms(2) getApps_tables
    by (cases h) (simp_all add: getPartitions_def getNodesPerPartition_def getAppsHistory_def getContainersHistory_def
        getNodeUtilizations_def reader_laws)
  with assms(1) show ?thesis by simp
qed

lemma ServeHTTP_tables:
  assumes "ServeHTTP lookup w r s = Some (ans, s')" and "ws_repository (web_service w) = R"
  shows "tables s' = tables s"
  using assms handle_tables [OF _ assms(2)] by (auto simp: ServeHTTP_def split: if_splits route_match.splits)

end

text \<open>
  The work queue and the event handlers also need a source of identifiers and that what they call is legal
  with any data.
\<close>

locale repository_users = repository +
  fixes draw :: "'a \<Rightarrow> string \<times> 'a"
  assumes draw_inv: "inv s \<Longrightarrow> inv (snd (draw s))"
    and drawn_legal: "legal (CInsertNodeUtilizations (fst (draw s)) nus) (snd (draw s))"
    and upserts_legal: "legal (CUpsertApplications apps) s" "legal (CUpsertPartitions ps) s" "legal (CUpsertQueues qs) s"
      "legal (CUpsertNodes ns p) s" "legal (CUpdateHistory ah ch) s"
begin

lemma job_inv:
  assumes "inv s"
  shows "inv (snd (job_closure R draw job s))"
proof (cases job)
  case (JNodeUtil nus)
  with writes_keep_inv [OF draw_inv [OF assms] drawn_legal, of nus] show ?thesis by (cases "draw s") simp
qed (use assms writes_keep_inv [OF assms upserts_legal(1)] writes_keep_inv [OF assms upserts_legal(2)]
    writes_keep_inv [OF assms upserts_legal(3)] writes_keep_inv [OF assms upserts_legal(4)] writes_keep_inv [OF assms upserts_legal(5)]
    in simp_all)

end

text \<open>So its jobs can be retried, and the event handlers can store applications.\<close>

sublocale repository_users \<subseteq> queued: retriable "job_closure R draw job" inv for job
  by unfold_locales (rule job_inv)

sublocale repository_users \<subseteq> events: app_store "m_UpsertApplications R" inv
proof
  fix r as
  assume "inv r"
  with writes_keep_inv [OF _ upserts_legal(1)] show "inv (snd (m_UpsertApplications R as r))" by simp
qed

text \<open>
  The states that the parts of the server reach with a repository: attempts of the jobs of the work queue,
  events, requests, and calls of single methods, in any order.
\<close>

inductive server_reach ::
    "'s Repository \<Rightarrow> ('s \<Rightarrow> string \<times> 's) \<Rightarrow> (repo_call \<Rightarrow> 's \<Rightarrow> bool) \<Rightarrow> 's \<Rightarrow> 's \<Rightarrow> bool"
  for R draw legal s0 where
  start: "server_reach R draw legal s0 s0"
| attempt: "server_reach R draw legal s0 s \<Longrightarrow> server_reach R draw legal s0 (snd (job_closure R draw job s))"
| event: "server_reach R draw legal s0 (svcRepo v) \<Longrightarrow>
    server_reach R draw legal s0 (svcRepo (snd (handleEvent names client (m_UpsertApplications R) ev v)))"
| request: "server_reach R draw legal s0 s \<Longrightarrow> ws_repository (web_service w) = R \<Longrightarrow>
    ServeHTTP lookup (w :: ('s, (RESTClient, pgpool) Component) web_deps) r s = Some (ans, s') \<Longrightarrow> server_reach R draw legal s0 s'"
| direct: "server_reach R draw legal s0 s \<Longrightarrow> reads c \<or> legal c s \<Longrightarrow> server_reach R draw legal s0 (call R c s)"

context repository_users
begin

lemma server_reach_inv: "server_reach R draw legal s0 s \<Longrightarrow> inv s0 \<Longrightarrow> inv s"
proof (induction rule: server_reach.induct)
  case (attempt s job)
  then show ?case by (simp add: job_inv)
next
  case (event v names client ev)
  then show ?case by (simp add: events.handleEvent_inv)
next
  case (request s w lookup r ans s')
  then show ?case using ServeHTTP_tables inv_of_tables by blast
next
  case (direct s c)
  then show ?case using call_inv by blast
qed

end

section \<open>Postgres keeps the laws\<close>

text \<open>The tables of a database: all but the counter of statements.\<close>

definition tables_of :: "db \<Rightarrow> db" where
  "tables_of d = d\<lparr>stmtCtr := 0\<rparr>"

text \<open>
  Calls with legal arguments: the identifier of utilizations has been drawn, and queues are added below the
  row that they name as their parent.
\<close>

fun pg_legal :: "pgenv \<Rightarrow> repo_call \<Rightarrow> db \<Rightarrow> bool" where
  "pg_legal env (CInsertNodeUtilizations u nus) d \<longleftrightarrow> u \<in> drawn env d"
| "pg_legal env (CAddQueues parentId qs) d \<longleftrightarrow> add_legal parentId qs (queues_t d)"
| "pg_legal env c d \<longleftrightarrow> True"

lemma pg_select_state: "snd (pg_select env qm sm sel d) = d\<lparr>stmtCtr := Suc (stmtCtr d)\<rparr>"
proof -
  obtain res d' where p: "pg_select env qm sm sel d = (res, d')" by fastforce
  then show ?thesis by (cases rule: pg_select_cases) (simp_all add: p)
qed

lemma pg_rows_tables:
  "tables_of (snd (pg_select env qm sm sel1 d)) = tables_of d"
  "pg_rows env qm sm sel d = (res, d') \<Longrightarrow> tables_of d' = tables_of d"
  using pg_select_state [of env qm sm sel1 d] pg_select_state [of env qm sm "\<lambda>d. Inr (sel d)" d]
  by (auto simp: tables_of_def pg_rows_def)

lemma pg_reads: "reads c \<Longrightarrow> tables_of (call (pg_repository sql int8 env) c d) = tables_of d"
  by (cases c) (auto simp: GetAllApplications_def GetAppsPerPartitionPerQueue_def GetApplicationsHistory_def
      GetContainersHistory_def GetNodeUtilizations_def GetNodesPerPartition_def GetAllPartitions_def GetAllQueues_def
      GetQueuesPerPartition_def GetQueue_def Let_def pg_rows_tables(1)
      dest: pg_rows_tables(2) split: prod.split sum.split option.split)

lemma db_inv_tables: "tables_of d = tables_of d' \<Longrightarrow> db_inv env d = db_inv env d'"
proof -
  assume t: "tables_of d = tables_of d'"
  have "d = tables_of d'\<lparr>stmtCtr := stmtCtr d\<rparr>" unfolding t [symmetric] by (simp add: tables_of_def)
  then have "d = d'\<lparr>stmtCtr := stmtCtr d\<rparr>" by (simp add: tables_of_def)
  moreover have "db_inv env (d'\<lparr>stmtCtr := k\<rparr>) = db_inv env d'" for k
    by (simp add: db_inv_def partitions_inv_def nodes_inv_def util_inv_def history_inv_def queue_inv_def apps_inv_def
        app_refs_def drawn_def)
  ultimately show ?thesis by metis
qed

lemma pg_writes:
  assumes "inj (freshUUID env)" and "db_inv env d" and "pg_legal env c d" and "\<not> reads c"
  shows "db_inv env (call (pg_repository sql int8 env) c d)"
proof -
  have job: "db_inv env (snd (run_job int8 env j d))" for j by (rule run_job_inv [OF assms(1,2)])
  have q: "queue_inv env d" using assms(2) by (simp add: db_inv_def)
  show ?thesis
  proof (cases c)
    case (CInsertNodeUtilizations u nus)
    obtain r d' where u: "InsertNodeUtilizations env u nus d = (r, d')" by fastforce
    have "util_inv env d'" using insert_util_inv [OF u] assms(2,3) CInsertNodeUtilizations by (simp add: db_inv_def)
    with invs_mono [OF keeps_drawn [OF InsertNodeUtilizations_keeps [OF u]]] keeps_fields(3) [OF InsertNodeUtilizations_keeps [OF u]]
      assms(2) CInsertNodeUtilizations u show ?thesis by (simp add: db_inv_def)
  next
    case (CAddQueues parentId qs)
    obtain r d' where u: "AddQueues env parentId qs d = (r, d')" by fastforce
    from AddQueues_inv [OF assms(1) u q] assms(3) CAddQueues have "queue_inv env d'" "queues_only d d'" by simp_all
    with db_inv_queues [OF assms(2)] CAddQueues u show ?thesis by simp
  next
    case (CDeleteQueues qs)
    obtain r d' where u: "DeleteQueues env qs d = (r, d')" by fastforce
    from DeleteQueues_inv [OF u q] db_inv_queues [OF assms(2)] CDeleteQueues u show ?thesis by simp
  qed (use assms(4) job [of "JApplications _"] job [of "JHistory _ _"] job [of "JNodes _ _"] job [of "JPartitions _"]
      job [of "JQueues _"] in \<open>simp_all add: run_job_def\<close>)
qed

interpretation pg: repository_users "pg_repository sql int8 env" tables_of "guarded_inv env" "pg_legal env" "new_uuid env"
  for sql int8 env
proof
  show "tables_of (call (pg_repository sql int8 env) c s) = tables_of s" if "reads c" for c s
    using that by (rule pg_reads)
  show "guarded_inv env s \<longleftrightarrow> guarded_inv env s'" if "tables_of s = tables_of s'" for s s'
    using db_inv_tables [OF that] by (simp add: guarded_inv_def)
  show "guarded_inv env (call (pg_repository sql int8 env) c s)" if "guarded_inv env s" "pg_legal env c s" "\<not> reads c" for s c
    using that pg_writes [of env s c] by (simp add: guarded_inv_def)
  show "guarded_inv env (snd (new_uuid env s))" if "guarded_inv env s" for s
    using that by (auto simp: guarded_inv_def new_uuid_def db_inv_def partitions_inv_def nodes_inv_def util_inv_def
        history_inv_def queue_inv_def apps_inv_def app_refs_def drawn_def)
  show "pg_legal env (CInsertNodeUtilizations (fst (new_uuid env s)) nus) (snd (new_uuid env s))" for s nus
    by (simp add: new_uuid_def drawn_def)
qed simp_all

section \<open>Properties\<close>

text \<open>
  C4. All users of the repository keep the invariant of the database. Starting from a database with the
  invariant and with identifiers that are never drawn twice, let the server make attempts of jobs, handle
  events and requests and call any of the eighteen methods, in any order and however the connection fails. The
  arguments of a direct call are arbitrary with two exceptions: \<open>InsertNodeUtilizations\<close> gets an identifier that has
  been drawn, and \<open>AddQueues\<close> gets trees with names whose children name their parents, all of them below the row that
  they name as their parent or, without such a row given, all naming the same parent. Then keys and identifiers
  stay unique, a parent is a row of the same partition and an application refers to the row of its queue. A job
  with all its retries keeps this too, and a request changes no table. For other arguments \<open>AddQueues\<close> does not keep
  it (\<open>AddQueues_carries_parent\<close>); nothing in the server calls it.
\<close>

theorem repository_users_keep_invariant:
  assumes "inj (freshUUID env)" and "db_inv env d0"
    and "server_reach (pg_repository run_sql int8 env) (new_uuid env) (pg_legal env) d0 d"
  shows "db_inv env d \<and>
    (\<forall>fuel initial ctx_done job r.
       executeWithRetry fuel initial ctx_done (job_closure (pg_repository run_sql int8 env) (new_uuid env) job) d = Some r \<longrightarrow>
       db_inv env (final r)) \<and>
    (\<forall>lookup w r ans d'. ws_repository (web_service w) = pg_repository run_sql int8 env \<longrightarrow>
       ServeHTTP lookup w r d = Some (ans, d') \<longrightarrow> tables_of d' = tables_of d)"
proof (intro conjI allI impI)
  have g: "guarded_inv env d"
    using pg.server_reach_inv [OF assms(3)] assms(2) by (simp add: guarded_inv_def)
  then show "db_inv env d" using assms(1) by (simp add: guarded_inv_def)
  show "db_inv env (final r)"
    if "executeWithRetry fuel initial ctx_done (job_closure (pg_repository run_sql int8 env) (new_uuid env) job) d = Some r"
    for fuel initial ctx_done job r
    using pg.queued.retry_inv [OF that g] assms(1) by (simp add: guarded_inv_def)
  show "tables_of d' = tables_of d"
    if "ws_repository (web_service w) = pg_repository run_sql int8 env" "ServeHTTP lookup w r d = Some (ans, d')"
    for lookup w r ans d'
    using pg.ServeHTTP_tables [OF that(2,1)] .
qed

theorem repository_users_keep_invariant_witness:
  "db_inv demo_env (snd (job_closure (pg_repository stable_sql demo_int8 demo_env) (new_uuid demo_env)
      (JQueues (flattenQueues [demo_tree]))
      (call (pg_repository stable_sql demo_int8 demo_env) (CAddQueues None [demo_tree]) empty_db)))"
proof -
  have "inj (freshUUID demo_env)" using healthy_demo_env by (simp add: healthy_env_def)
  moreover have "pg_legal demo_env (CAddQueues None [demo_tree]) empty_db"
    by (simp add: add_legal_def demo_tree_def)
  then have "server_reach (pg_repository stable_sql demo_int8 demo_env) (new_uuid demo_env) (pg_legal demo_env) empty_db
      (call (pg_repository stable_sql demo_int8 demo_env) (CAddQueues None [demo_tree]) empty_db)"
    by (intro server_reach.direct server_reach.start) simp
  then have "server_reach (pg_repository stable_sql demo_int8 demo_env) (new_uuid demo_env) (pg_legal demo_env) empty_db
      (snd (job_closure (pg_repository stable_sql demo_int8 demo_env) (new_uuid demo_env) (JQueues (flattenQueues [demo_tree]))
        (call (pg_repository stable_sql demo_int8 demo_env) (CAddQueues None [demo_tree]) empty_db)))"
    by (rule server_reach.attempt)
  ultimately show ?thesis using repository_users_keep_invariant db_inv_empty by blast
qed

end
