(* ===== verification/Program.thy ===== *)
theory Program
  imports Lifecycle
begin

text \<open>
  The program: \<open>cmd/yunikorn-history-server/main.go\<close> and the commands of \<open>commands/\<close>. cobra is a parameter:
  how it reads a command line against the commands and their flags, how it executes them, and its validators of
  arguments, with the laws that its documentation states (\<open>cobra_law\<close>). The result of the program is the time
  at which it exits and its status.
\<close>

section \<open>Commands\<close>

text \<open>The variables of \<open>global.go\<close> before flags are read.\<close>

definition ConfigFile :: string where
  "ConfigFile = []"

definition MigrationsDir :: string where
  "MigrationsDir = ''migrations''"

record cobra_flag =
  flag_Name :: string
  flag_Shorthand :: string
  flag_Default :: string

datatype RunE = RunServer | RunMigrate

text \<open>A validator of positional arguments: \<open>None\<close> accepts them.\<close>

type_synonym positional_args = "string list \<Rightarrow> goerror option"

record cobra_Command =
  cmd_Use :: string
  cmd_Args :: "positional_args option"
  cmd_ValidArgs :: "string list"
  cmd_RunE :: RunE
  cmd_Flags :: "cobra_flag list"

text \<open>
  What the code uses of cobra: \<open>Parse\<close> finds the command of a command line with the values of its flags by name
  and the positional arguments (\<open>None\<close>: an unknown flag or a request for help); \<open>Execute\<close> gets the root command
  with its subcommands, the functions of the commands and the command line, and returns an error and the time at
  which it returns (\<open>None\<close>: it has not returned).
\<close>

type_synonym command_result = "(instant \<times> goerror option) option"
type_synonym flag_values = "string \<Rightarrow> string"
type_synonym command_tree = "cobra_Command \<times> cobra_Command list"

record cobra =
  Parse :: "command_tree \<Rightarrow> string list \<Rightarrow> (cobra_Command \<times> flag_values \<times> string list) option"
  Execute :: "command_tree \<Rightarrow> (cobra_Command \<Rightarrow> flag_values \<Rightarrow> string list \<Rightarrow> command_result) \<Rightarrow> string list \<Rightarrow> command_result"
  ExactArgs :: "nat \<Rightarrow> positional_args"
  OnlyValidArgs :: "string list \<Rightarrow> positional_args"
  MatchAll :: "positional_args list \<Rightarrow> positional_args"

text \<open>
  The two commands as they are declared; their texts for the help are left out. \<open>migrateCmd\<close> of
  \<open>Postgres_Conn\<close> is the function of the second one.
\<close>

definition rootCmd :: cobra_Command where
  "rootCmd = \<lparr>cmd_Use = ''yunikorn-history-server'', cmd_Args = None, cmd_ValidArgs = [], cmd_RunE = RunServer, cmd_Flags = []\<rparr>"

definition migrateCmd_command :: "cobra \<Rightarrow> cobra_Command" where
  "migrateCmd_command c =
     \<lparr>cmd_Use = ''migrate up|down'',
      cmd_Args = Some (MatchAll c [ExactArgs c 1, OnlyValidArgs c [''up'', ''down'']]),
      cmd_ValidArgs = [''up'', ''down''], cmd_RunE = RunMigrate, cmd_Flags = []\<rparr>"

definition with_flag :: "string \<Rightarrow> string \<Rightarrow> string \<Rightarrow> cobra_Command \<Rightarrow> cobra_Command" where
  "with_flag name shorthand value cmd =
     cmd\<lparr>cmd_Flags := cmd_Flags cmd @ [\<lparr>flag_Name = name, flag_Shorthand = shorthand, flag_Default = value\<rparr>]\<rparr>"

definition newMigrateCmd :: "cobra \<Rightarrow> cobra_Command" where
  "newMigrateCmd c = with_flag ''migrations-dir'' ''m'' MigrationsDir (migrateCmd_command c)"

text \<open>\<open>commands.New\<close>: the root command with its persistent flag, and its subcommand.\<close>

definition commands_New :: "cobra \<Rightarrow> command_tree" where
  "commands_New c = (with_flag ''config'' ''c'' ConfigFile rootCmd, [newMigrateCmd c])"

lemmas commands = rootCmd_def migrateCmd_command_def with_flag_def newMigrateCmd_def commands_New_def

section \<open>The program\<close>

type_synonym exit_status = "instant \<times> nat"

text \<open>The functions of the two commands; the flags are bound to the variables that they read.\<close>

definition run_command ::
    "(string \<Rightarrow> command_result) \<Rightarrow> (string \<Rightarrow> string \<Rightarrow> string \<Rightarrow> command_result) \<Rightarrow>
     cobra_Command \<Rightarrow> flag_values \<Rightarrow> string list \<Rightarrow> command_result" where
  "run_command serve migrate cmd flags args =
     (case cmd_RunE cmd of
        RunServer \<Rightarrow> serve (flags ''config'')
      | RunMigrate \<Rightarrow> migrate (flags ''config'') (flags ''migrations-dir'') (hd args))"

definition main ::
    "cobra \<Rightarrow> (string \<Rightarrow> command_result) \<Rightarrow> (string \<Rightarrow> string \<Rightarrow> string \<Rightarrow> command_result) \<Rightarrow> string list \<Rightarrow>
     exit_status option" where
  "main c serve migrate argv =
     (case Execute c (commands_New c) (run_command serve migrate) argv of
        None \<Rightarrow> None
      | Some (t, err) \<Rightarrow> Some (t, if err \<noteq> None then 1 else 0))"

text \<open>The two functions on what the rest of the development models; \<open>t\<close> is when the migrations are finished.\<close>

definition serve_with ::
    "(string \<Rightarrow> Config result) \<Rightarrow> (Config result \<Rightarrow> outcome option) \<Rightarrow> string \<Rightarrow> command_result" where
  "serve_with config_new run configFile = map_option (\<lambda>(t, lg, err). (t, err)) (run (config_new configFile))"

definition migrate_with ::
    "(string \<Rightarrow> Config result) \<Rightarrow> (string \<Rightarrow> string \<Rightarrow> 'm result) \<Rightarrow> ('m \<Rightarrow> goerror option \<times> 'm) \<Rightarrow>
     ('m \<Rightarrow> goerror option \<times> 'm) \<Rightarrow> instant \<Rightarrow> string \<Rightarrow> string \<Rightarrow> string \<Rightarrow> command_result" where
  "migrate_with config_new migrate_New mUp mDown t configFile dir arg =
     Some (t, fst (migrateCmd config_new migrate_New mUp mDown configFile dir arg))"

section \<open>Facts\<close>

text \<open>
  The documented behaviour: the validators, and that the function of a command runs when its arguments are
  accepted and its error is the result.
\<close>

definition cobra_law :: "cobra \<Rightarrow> bool" where
  "cobra_law c \<longleftrightarrow>
     (\<forall>n args. ExactArgs c n args = None \<longleftrightarrow> length args = n) \<and>
     (\<forall>valid args. OnlyValidArgs c valid args = None \<longleftrightarrow> set args \<subseteq> set valid) \<and>
     (\<forall>checks args. MatchAll c checks args = None \<longleftrightarrow> (\<forall>check \<in> set checks. check args = None)) \<and>
     (\<forall>cmds run argv cmd flags args. Parse c cmds argv = Some (cmd, flags, args) \<longrightarrow>
        Execute c cmds run argv =
          (case (case cmd_Args cmd of None \<Rightarrow> None | Some check \<Rightarrow> check args) of
             Some e \<Rightarrow> Some (0, Some e)
           | None \<Rightarrow> run cmd flags args))"

lemma migrate_args:
  assumes "cobra_law c"
  shows "the (cmd_Args (newMigrateCmd c)) args = None \<longleftrightarrow> args = [''up''] \<or> args = [''down'']"
proof -
  have "the (cmd_Args (newMigrateCmd c)) args = None \<longleftrightarrow> length args = 1 \<and> set args \<subseteq> {''up'', ''down''}"
    using assms by (simp add: cobra_law_def commands)
  also have "\<dots> \<longleftrightarrow> args = [''up''] \<or> args = [''down'']"
    by (cases args) auto
  finally show ?thesis .
qed

lemma execute_command:
  assumes "cobra_law c" and "Parse c cmds argv = Some (cmd, flags, args)"
  shows "Execute c cmds run argv =
    (case (case cmd_Args cmd of None \<Rightarrow> None | Some check \<Rightarrow> check args) of
       Some e \<Rightarrow> Some (0, Some e) | None \<Rightarrow> run cmd flags args)"
  using assms unfolding cobra_law_def by blast

lemma main_serve:
  assumes "cobra_law c" and "Parse c (commands_New c) argv = Some (fst (commands_New c), flags, args)"
  shows "main c serve migrate argv = map_option (\<lambda>(t, err). (t, if err \<noteq> None then 1 else 0)) (serve (flags ''config''))"
  unfolding main_def execute_command [OF assms] by (simp add: run_command_def commands split: option.split)

lemma main_migrate:
  assumes "cobra_law c" and "Parse c (commands_New c) argv = Some (newMigrateCmd c, flags, args)"
  shows "main c serve migrate argv =
    (if the (cmd_Args (newMigrateCmd c)) args = None
     then map_option (\<lambda>(t, err). (t, if err \<noteq> None then 1 else 0)) (migrate (flags ''config'') (flags ''migrations-dir'') (hd args))
     else Some (0, 1))"
  unfolding main_def execute_command [OF assms] by (auto simp: run_command_def commands split: option.split)

section \<open>Properties\<close>

text \<open>
  \<open>migrate\<close> exits with status 0 exactly when it is called with the one argument \<open>up\<close> or \<open>down\<close>, the configuration
  is accepted, the migrator can be made for the directory of the flag, and that direction of it succeeds or has nothing
  to do; otherwise with status 1.
\<close>

theorem migrate_exit_status:
  assumes "cobra_law c" and "Parse c (commands_New c) argv = Some (newMigrateCmd c, flags, args)"
  shows "\<exists>t' status. main c serve (migrate_with config_new migrate_New mUp mDown t) argv = Some (t', status) \<and>
    status \<in> {0, 1} \<and>
    (status = 0 \<longleftrightarrow> (\<exists>cfg m. (args = [''up''] \<or> args = [''down'']) \<and> config_new (flags ''config'') = Inr cfg \<and>
       migrate_New (''file://'' @ flags ''migrations-dir'') (BuildConnectionStringFromConfig (cfg_Postgres cfg)) = Inr m \<and>
       (case fst (if args = [''up''] then mUp m else mDown m) of None \<Rightarrow> True | Some e \<Rightarrow> errors_Is e ErrNoChange)))"
proof (cases "args = [''up''] \<or> args = [''down'']")
  case False
  then show ?thesis using main_migrate [OF assms] migrate_args [OF assms(1), of args] by simp
next
  case True
  let ?r = "migrateCmd config_new migrate_New mUp mDown (flags ''config'') (flags ''migrations-dir'') (hd args)"
  have up: "hd args = ''up'' \<longleftrightarrow> args = [''up'']" using True by auto
  have m: "main c serve (migrate_with config_new migrate_New mUp mDown t) argv =
      Some (t, if fst ?r \<noteq> None then 1 else 0)"
    using True main_migrate [OF assms] migrate_args [OF assms(1), of args] by (simp add: migrate_with_def)
  have "fst ?r = None \<longleftrightarrow> (\<exists>cfg m. config_new (flags ''config'') = Inr cfg \<and>
       migrate_New (''file://'' @ flags ''migrations-dir'') (BuildConnectionStringFromConfig (cfg_Postgres cfg)) = Inr m \<and>
       (case fst (if args = [''up''] then mUp m else mDown m) of None \<Rightarrow> True | Some e \<Rightarrow> errors_Is e ErrNoChange))"
    by (auto simp: migrateCmd_def migrations_New_def getMigrator_def Up_def Down_def migration_result_def up
        split: sum.splits prod.splits option.splits if_splits)
  with m True show ?thesis by auto
qed

text \<open>
  C35. The process ends after a signal, with the right status: called without a subcommand, once the
  collector has had a connection that fails because its context is cancelled and the loops of the sync and of the work
  queue have seen that their contexts are done, the program exits; with status 1 when the configuration or the
  connection string was refused, and with status 0 otherwise, whatever the HTTP server did.
\<close>

theorem process_exit_status:
  assumes "cobra_law c" and "Parse c (commands_New c) argv = Some (fst (commands_New c), flags, args)" and "group_law run_Group"
    and "conn \<in> fst ` set (obs_conns ob)" and "cancelled_connection conn" and "queue_stop ob \<noteq> None"
    and "CtxDone \<in> fst ` set (sync_events ob)"
    and "\<forall>cfg. config_New stat load_file load_env k0 (flags ''config'') = Inr cfg \<longrightarrow> 0 \<le> sint (yhs_DataSyncInterval (cfg_YHS cfg))"
  shows "\<exists>t. main c (serve_with (config_New stat load_file load_env k0)
        (\<lambda>config. rootCmd_RunE new_pool now v run_Group names unmarshal config ob)) migrate argv =
      Some (t, case config_New stat load_file load_env k0 (flags ''config'') of
        Inl e \<Rightarrow> 1
      | Inr cfg \<Rightarrow> (case NewConnectionPool new_pool (cfg_Postgres cfg) of Inl e \<Rightarrow> 1 | Inr pool \<Rightarrow> 0))"
proof (cases "config_New stat load_file load_env k0 (flags ''config'')")
  case (Inl e)
  then show ?thesis using main_serve [OF assms(1,2)] by (simp add: serve_with_def rootCmd_RunE_def)
next
  case (Inr cfg)
  show ?thesis
  proof (cases "NewConnectionPool new_pool (cfg_Postgres cfg)")
    case (Inl e)
    with Inr show ?thesis using main_serve [OF assms(1,2)]
      by (simp add: serve_with_def rootCmd_RunE_def commands_Run_cases)
  next
    case p: (Inr pool)
    obtain t lg where "rootCmd_RunE new_pool now v run_Group names unmarshal (Inr cfg) ob = Some (t, lg, None)"
      using server_stops [OF assms(3-6) p] assms(7,8) Inr by blast
    with Inr p show ?thesis using main_serve [OF assms(1,2)] by (simp add: serve_with_def)
  qed
qed

text \<open>A command line without arguments, a configuration that gives the port only, and the signal of the example before.\<close>

definition demo_parse :: "command_tree \<Rightarrow> string list \<Rightarrow> (cobra_Command \<times> flag_values \<times> string list) option" where
  "demo_parse cmds argv =
     (case argv of
        [] \<Rightarrow> Some (fst cmds, \<lambda>f. [], [])
      | cmd # args \<Rightarrow> Some (hd (snd cmds), \<lambda>f. if f = ''migrations-dir'' then MigrationsDir else [], args))"

definition demo_cobra :: cobra where
  "demo_cobra = \<lparr>Parse = demo_parse,
     Execute = (\<lambda>cmds run argv.
       (case demo_parse cmds argv of
          None \<Rightarrow> Some (0, Some (ErrorText ''unknown command''))
        | Some (cmd, flags, args) \<Rightarrow>
            (case (case cmd_Args cmd of None \<Rightarrow> None | Some check \<Rightarrow> check args) of
               Some e \<Rightarrow> Some (0, Some e) | None \<Rightarrow> run cmd flags args))),
     ExactArgs = (\<lambda>n args. if length args = n then None else Some (ErrorText ''accepts'')),
     OnlyValidArgs = (\<lambda>valid args. if set args \<subseteq> set valid then None else Some (ErrorText ''invalid argument'')),
     MatchAll = (\<lambda>checks args. if \<forall>check \<in> set checks. check args = None then None else Some (ErrorText ''args''))\<rparr>"

lemma demo_cobra_law: "cobra_law demo_cobra"
  by (simp add: cobra_law_def demo_cobra_def)

definition demo_koanf :: koanf where
  "demo_koanf = \<lparr>kString = (\<lambda>_. []), kInt = (\<lambda>key. if key = ''yhs_port'' then 8989 else 0), kBool = (\<lambda>_. False),
     kDuration = (\<lambda>_. 0), kStrings = (\<lambda>_. [])\<rparr>"

theorem process_exit_status_witness:
  "\<exists>t. main demo_cobra (serve_with (config_New (\<lambda>f. None) (\<lambda>f k. Inr k) (\<lambda>g k. Inr k) demo_koanf)
     (\<lambda>config. rootCmd_RunE (\<lambda>conn. Inr demo_pool) 0 ''1'' plain_group demo_names (\<lambda>l. Inl io_EOF) config demo_observation))
     (\<lambda>f d a. None) [] = Some (t, 0)"
proof -
  let ?cfg = "config_New (\<lambda>f. None) (\<lambda>f k. Inr k) (\<lambda>g k. Inr k) demo_koanf []"
  obtain cfg where cfg: "?cfg = Inr cfg" "yhs_DataSyncInterval (cfg_YHS cfg) = 5 * (60 * second)"
    by (auto simp: config_New_def loadConfig_def build_config_def Let_def demo_koanf_def YHSConfig_Validate_def validation_error_def)
  have "0 \<le> sint (5 * (60 * second))" by (simp add: second_def)
  with cfg have "\<forall>cfg. ?cfg = Inr cfg \<longrightarrow> 0 \<le> sint (yhs_DataSyncInterval (cfg_YHS cfg))" by simp
  moreover have "Parse demo_cobra (commands_New demo_cobra) [] = Some (fst (commands_New demo_cobra), \<lambda>f. [], [])"
    by (simp add: demo_cobra_def demo_parse_def)
  moreover have "CtxDone \<in> fst ` set (sync_events demo_observation)" by (simp add: demo_observation_def)
  moreover have "NewConnectionPool (\<lambda>conn. Inr demo_pool) p = Inr demo_pool" for p by (simp add: NewConnectionPool_def)
  ultimately show ?thesis
    using process_exit_status [OF demo_cobra_law _ plain_group_law demo_stop_facts(1-3), of "[]" "\<lambda>f. []" "[]" "\<lambda>f. None"
        "\<lambda>f k. Inr k" "\<lambda>g k. Inr k" demo_koanf "\<lambda>conn. Inr demo_pool" 0 "''1''" demo_names "\<lambda>l. Inl io_EOF"] cfg(1)
    by simp
qed

end
