(* ===== verification/Spec2Isabelle.thy ===== *)
theory Spec2Isabelle
  imports Contexts App_Queries Job_Interleaving Queue_Subtree Sync_Served Web_Dispatch Sync_Jobs Sync_Convergence Lifecycle Repository_Laws Program
begin

text \<open>
  The YuniKorn History Server keeps a history of a YuniKorn scheduler in a PostgreSQL database. It
  follows the scheduler's event stream, copies the scheduler's state periodically over its REST API, and
  serves what it stored over HTTP. This development models the Go code of the server (\<open>internal/\<close> and
  \<open>cmd/\<close>) as HOL functions and step relations and proves what its parts promise.

  \<^bold>\<open>Parts and theories.\<close>

  \<^item> \<open>Go_Prelude\<close>: what the code uses of Go and its standard library: errors with wrapping
    (\<open>errors.Is\<close>, \<open>%v\<close>, \<open>%w\<close>), \<open>fmt.Sprintf\<close>, \<open>strconv\<close>, \<open>strings\<close>, nil slices, 64-bit durations,
    the loop that returns at the first error (\<open>for_each\<close>), and their lemmas.
  \<^item> \<open>Util\<close>: \<open>internal/util\<close>, with a heap for the pointers of \<open>ToPtrSlice\<close>.
  \<^item> \<open>Sql_Builder\<close>: \<open>internal/database/sql/builder.go\<close> and its specification over call sequences.
  \<^item> \<open>Models\<close>: the data of \<open>internal/model\<close> and of the scheduler's API; \<open>Pg_Schema\<close>: the tables of
    \<open>migrations/\<close>, statements that can fail, result sets that can end early, and the locales
    \<open>keyed_table\<close> and \<open>upsert_loop\<close>, which every repository table interprets.
  \<^item> \<open>Repo_Partitions\<close>, \<open>Repo_Nodes\<close>, \<open>Repo_History\<close>, \<open>Repo_Queues\<close>, \<open>Repo_Applications\<close>: the
    files of \<open>internal/database/repository\<close>; \<open>Queue_Forest\<close>, \<open>Queue_Subtree\<close> and
    \<open>Queue_Order\<close> (any order of the rows) have the theorems on queue trees.
  \<^item> \<open>Repository\<close> (\<open>repository.go\<close>, \<open>postgres.go\<close>): the interface as a record of its eighteen methods, which
    all its users take as an argument, its implementation on Postgres, and the locale \<open>repository\<close> with
    the laws of the interface; \<open>Repository_Laws\<close>: the locale \<open>repository_users\<close>, in which jobs, event handlers and
    requests are shown to keep the invariant of any such repository, and its interpretation on Postgres.
  \<^item> \<open>Event_Repository\<close> (\<open>events.go\<close>; locale \<open>event_counter\<close>), \<open>Event_Handler\<close>
    (\<open>event_handler.go\<close>; locale \<open>app_store\<close>) and \<open>Event_Stream\<close> (\<open>stream.go\<close>): the path of an event.
  \<^item> \<open>Work_Queue\<close>: \<open>internal/workqueue\<close>, its operations, the concurrent system of callers, loop and
    shutdown (\<open>wq_step\<close>) and the retries with exponential backoff (locale \<open>retriable\<close>).
  \<^item> \<open>Data_Sync\<close> (\<open>sync.go\<close>): the operations of one sync and its goroutines as a step relation
    (\<open>sync_step\<close>); \<open>Sync_Storage\<close>: what its jobs do to the database, with the invariant \<open>db_inv\<close> of
    all tables;
    \<open>Job_Interleaving\<close>: the jobs as sequences of single statements that interleave (\<open>sys_step\<close>);
    \<open>Sync_Jobs\<close>: which jobs a sync queues; \<open>Sync_Convergence\<close>: the queue job among
    concurrent attempts; \<open>Sync_Served\<close>: reading back what the queue job stored.
  \<^item> \<open>Rest_Client\<close> (\<open>rest.go\<close>), \<open>Health\<close> (\<open>internal/health\<close>; locale \<open>component\<close>), \<open>Web_Service\<close>
    (\<open>internal/webservice\<close>), \<open>Config_Log\<close> (\<open>internal/config\<close>, the levels of \<open>internal/log\<close>),
    \<open>Postgres_Conn\<close> (connection strings, migrations and the function of \<open>commands/migrate.go\<close>).
  \<^item> \<open>Web_Dispatch\<close> (\<open>routes.go\<close>): the registered handlers behind the router, and the locale \<open>reader\<close>,
    the contract of the repository methods that handlers call, interpreted on all seven of them.
  \<^item> \<open>Service\<close> (\<open>service.go\<close>, \<open>commands/root.go\<close>): construction, event collector and sync loop;
    \<open>Lifecycle\<close>: \<open>Service.Run\<close> and the root command with their actors, from start to signal;
    \<open>Program\<close> (\<open>main.go\<close>, \<open>commands/\<close>): the commands with their flags, and the exit status of the process.
  \<^item> \<open>App_Queries\<close>: the part of SQL that the queries of \<open>application.go\<close> use, and what these queries return.
  \<^item> \<open>Contexts\<close> (\<open>internal/log\<close>, \<open>enrichRequestContext\<close>): loggers in contexts and who is cancelled by what.

  \<^bold>\<open>How the parts interact.\<close> A sync asks the client and puts one job per kind of data, and one per partition for its nodes, on the work queue;
  the queue runs a job until it succeeds; a job is one repository method. The event collector reads
  lines from the stream, the handlers keep a cache of applications and store an application when it
  ends; the event repository counts every event. The handlers of the web service read the repository.
  \<open>server_setup\<close> builds them around one pool, one repository, one event repository and one client, as \<open>Run\<close> does. This
  theory composes them: for the server so built, from the scheduler's answers and from an event to the answers of paths.

  \<^bold>\<open>What is proved.\<close> The whole server, as \<open>Run\<close> builds it: what the scheduler
  answers to a sync is what the paths of queues and applications are answered with as long as no stored queue
  disappears (C1), and an application that an event finishes is found there by filters that match it (C7); the
  command runs until a signal and then the process exits with its status (C19, C35). Storage: the upserts do
  what they should on a healthy connection, whatever is stored before (C2, C22, C27), all tables keep their
  invariant under any failure, whatever the users of the repository call within the contract of its methods
  (C4), and under any interleaving of the statements of concurrent jobs (C3), attempts to store applications
  and queues are not disturbed by the others (C5, C6), nothing stored is removed (C21), refused and
  ineffective writes (C28, C29, C30). Queue trees: the readers always return, agree with each other, give back
  what was written and do not depend on the order of rows; deletion marks a whole forest (C13, C14, C15, C16,
  C26). Events: handling a sequence refines the meaning of each event on its own application (C10), the stream
  is cut into lines (C11), counters are exact (C33), the collector runs until it is cancelled (C34). Work
  queue: first in first out under concurrency, retries end in success, bounds of the backoff (C17, C18, C31),
  the shutdown race (C32). Sync: which jobs it queues, and which failures it can lose (C9, C24). Web: a
  request is answered with the type of its route and changes nothing, and which requests panic or are refused
  (C12), a path reaches the method of its route with the parameters in it (C23), a request gets exactly the
  applications it asks for (C8), the builder refines its calls (C20), what a missing parameter and a quote in
  a group do (C25, C36). Surroundings: REST client, health, configuration, connection strings (C37 to C40).

  \<^bold>\<open>Modelling choices.\<close> Code outside the repository is a parameter: the HTTP transport and
  the JSON decoders, the answers of the scheduler, the names of the scheduler interface's enumerations, koanf,
  the file system, zap, the migrator, cobra (\<open>cobra_law\<close>), the router (\<open>router_law\<close>, for the registered patterns), the CORS handler (\<open>cors_law\<close>: which
  requests it answers itself), the actor groups (\<open>group_law\<close>) and the way pgx reads connection strings (\<open>conninfo_law\<close>), which are
  assumed to do what their documentation says, and the database's answer to a query text, which may be a refusal and which
  \<open>answers_sql\<close> assumes to follow SQL on the texts that the builder makes of valid filters. An error that the database
  reports only while the rows are read is not seen by the readers, which do not consult \<open>rows.Err\<close>; it is a result set that
  breaks. The database is a record of tables in insertion order with
  a counter of statements; \<open>pgenv\<close> decides for every statement whether it fails and where a
  result set breaks, and a failing statement changes no table. A query without \<open>ORDER BY\<close> returns
  rows in that order; C16 shows what another order changes. An attempt of a job is one step of \<open>server_reach\<close> and a list of statements in
  \<open>sys_step\<close>; its retries are further attempts. Pointers are values except where aliasing matters
  (\<open>ToPtrSlice\<close>, the variable \<open>parentId\<close> of \<open>AddQueues\<close>, the shared
  \<open>err\<close> of \<open>sync\<close>); \<open>None\<close> in a result that is an option is a nil
  pointer or a panic, as each definition says. Readers do not distinguish nil from empty slices. Times are
  Unix numbers. A Go interface is a record of functions (\<open>Repository\<close>, \<open>Client\<close>) or a sum of its implementations
  (\<open>Component\<close>). A call under a context is a function of the time that is left (\<open>ctx_call\<close>), so the timeout of \<open>Readiness\<close> is
  part of the model. Lines of the log are kept where they report an error; the lines at info level and a response that
  cannot be written are left out. \<open>add_job\<close> appends and does not model the time for which \<open>Add\<close>
  blocks; \<open>wq_step\<close> does. Integer columns have no range, so theorems on a healthy connection take the
  values to be in the range of their columns, and an overflow is one of the failures of a statement. The
  formats of \<open>fmt.Sprintf\<close> have verbs without flags and widths. In \<open>wq_step\<close> the queue is run once and \<open>Shutdown\<close> is one
  step, so two shutdowns that both pass its test are not modelled. In \<open>sync_step\<close> a call of a goroutine up to its
  assignment of the error is one step, so the node jobs of a sync are next to each other in the queue;
  C9 does not depend on that. \<open>observes_contexts\<close> has, beside the guarantees of the standard library, one clause that is read off
  \<open>WorkQueue.Run\<close> and not derived: its cancel function is called only after its loop has seen \<open>Done\<close>.

  \<^bold>\<open>Fuel.\<close> \<open>getChildrenFromMap\<close> and the recursive query of \<open>GetQueue\<close> follow identifiers and would not
  end on a cyclic table; the readers give them one unit more than there are rows, which C13 shows to be
  enough on every table with the invariant. \<open>executeWithRetry\<close> may retry forever; C18 shows that any fuel
  above the number of failures gives the result, and invariants hold for every fuel.

  \<^bold>\<open>Not modelled.\<close> The mocks that mockgen writes, test helpers, the version strings of \<open>info.go\<close>, the interface
  \<open>Migrator\<close>, which nothing implements or uses, the web front end and charts, the headers that the CORS handler adds to responses, and what the HTTP server does with a
  connection. The time of the server's life is that of its observation: how long a part takes to react to a cancelled
  context is not bounded.
\<close>

section \<open>Storing a sync\<close>

lemma flatten_live:
  assumes "\<forall>q \<in> set (flattenQueues ts). stored orig q rs" and "k \<in> set (concat (map tree_keys ts))"
  shows "live k rs"
proof -
  have "k \<in> set (map dao_key (flattenQueues ts))" using assms(2) unfolding flattenQueues_keys .
  then show ?thesis using assms(1) stored_live by auto
qed

text \<open>The applications that a sync delivers are for queues that it delivers.\<close>

definition apps_of_trees :: "PartitionQueueDAOInfo list \<Rightarrow> ApplicationDAOInfo list \<Rightarrow> bool" where
  "apps_of_trees ts as \<longleftrightarrow> distinct (map dao_app_key as) \<and>
     (\<forall>a \<in> set as. app_QueueName a \<noteq> [] \<and> (app_Partition a, app_QueueName a) \<in> set (concat (map tree_keys ts)))"

text \<open>What is stored of an application after a sync.\<close>

definition synced_app :: "db \<Rightarrow> ApplicationDAOInfo \<Rightarrow> ApplicationDAOInfo" where
  "synced_app d a = (case stored_app (dao_app_key a) d of None \<Rightarrow> a | Some old \<Rightarrow> app_update old a)"

lemma sync_jobs_store:
  assumes "healthy_env env" and "db_inv env d" and "scheduler_trees ts"
    and "\<forall>k \<in> set (concat (map tree_keys ts)). \<not> dead k (queues_t d)" and "apps_of_trees ts as"
  shows "\<exists>d1 d2. UpsertQueues env (flattenQueues ts) d = (None, d1) \<and>
    run_job int8 env (JQueues (flattenQueues ts)) d = (None, d1) \<and>
    run_job int8 env (JApplications as) d1 = (None, d2) \<and> db_inv env d2 \<and> queues_t d2 = queues_t d1 \<and>
    (\<forall>q \<in> set (flattenQueues ts). stored (queues_t d) q (queues_t d2)) \<and>
    (\<forall>a \<in> set as. stored_app (dao_app_key a) d2 = Some (synced_app d a))"
proof -
  have inj: "inj (freshUUID env)" using assms(1) by (simp add: healthy_env_def)
  obtain d1 where u: "UpsertQueues env (flattenQueues ts) d = (None, d1)"
      "\<forall>q \<in> set (flattenQueues ts). stored (queues_t d) q (queues_t d1)"
    using UpsertQueues_flatten [OF assms(1) _ assms(3,4)] assms(2) by (auto simp: db_inv_def)
  have j1: "run_job int8 env (JQueues (flattenQueues ts)) d = (None, d1)" using u(1) by (simp add: run_job_def)
  have i1: "db_inv env d1" using run_job_inv [OF inj assms(2), of int8 "JQueues (flattenQueues ts)"] j1 by simp
  have "\<forall>a \<in> set as. app_QueueName a \<noteq> [] \<and> live (app_Partition a, app_QueueName a) (queues_t d1)"
    using assms(5) flatten_live [OF u(2)] unfolding apps_of_trees_def by blast
  then obtain d2 where a: "UpsertApplications env as d1 = (None, d2)"
      "\<forall>a \<in> set as. stored_app (dao_app_key a) d2 = Some (synced_app d1 a)"
    using UpsertApplications_stores [OF assms(1) _ _, of d1 as] i1 assms(5)
    unfolding db_inv_def apps_of_trees_def synced_app_def by blast
  have j2: "run_job int8 env (JApplications as) d1 = (None, d2)" using a(1) by (simp add: run_job_def)
  have i2: "db_inv env d2" using run_job_inv [OF inj i1, of int8 "JApplications as"] j2 by simp
  have "queues_t d2 = queues_t d1" using keeps_fields(6) [OF UpsertApplications_keeps [OF a(1)]] by simp
  moreover have "stored_app k d1 = stored_app k d" for k
    using keeps_fields(5) [OF UpsertQueues_keeps [OF u(1)]] by (simp add: stored_app_def)
  ultimately show ?thesis using j1 j2 i2 u a(2) by (auto simp: synced_app_def)
qed

text \<open>
  C2. The two jobs that a sync queues in order, on a healthy connection: for the queue trees of the
  scheduler, none of whose queues is deleted in the database, and applications in those queues, the
  flattened queues and then the applications are stored without error, the database keeps its invariant
  (the parent of a queue's row is the row of the queue it names), every queue of the trees has a live row
  with its new values, and every application has its row, a known one updated with the new values.
\<close>

theorem sync_stores_scheduler_state:
  assumes "healthy_env env" and "db_inv env d" and "scheduler_trees ts"
    and "\<forall>k \<in> set (concat (map tree_keys ts)). \<not> dead k (queues_t d)"
    and "distinct (map dao_app_key as)"
    and "\<forall>a \<in> set as. app_QueueName a \<noteq> [] \<and> (app_Partition a, app_QueueName a) \<in> set (concat (map tree_keys ts))"
  shows "\<exists>d1 d2. run_job int8 env (JQueues (flattenQueues ts)) d = (None, d1) \<and>
    run_job int8 env (JApplications as) d1 = (None, d2) \<and> db_inv env d2 \<and>
    (\<forall>q \<in> set (flattenQueues ts). stored (queues_t d) q (queues_t d2)) \<and>
    (\<forall>a \<in> set as. stored_app (dao_app_key a) d2 =
       Some (case stored_app (dao_app_key a) d of None \<Rightarrow> a | Some old \<Rightarrow> app_update old a))"
proof -
  have "apps_of_trees ts as" using assms(5,6) by (simp add: apps_of_trees_def)
  from sync_jobs_store [OF assms(1-4) this, of int8] show ?thesis unfolding synced_app_def by blast
qed

lemma demo_scheduler_trees: "scheduler_trees [demo_tree]"
  by (simp add: scheduler_trees_def demo_tree_def tree_keys_def)

theorem sync_stores_scheduler_state_witness:
  "\<exists>d1 d2. run_job demo_int8 demo_env (JQueues (flattenQueues [demo_tree])) empty_db = (None, d1) \<and>
     run_job demo_int8 demo_env (JApplications [demo_app]) d1 = (None, d2) \<and> db_inv demo_env d2 \<and>
     stored_app (dao_app_key demo_app) d2 = Some demo_app"
proof -
  have "\<forall>k \<in> set (concat (map tree_keys [demo_tree])). \<not> dead k (queues_t empty_db)"
    by (simp add: dead_def empty_db_def)
  moreover have "app_QueueName demo_app \<noteq> [] \<and>
      (app_Partition demo_app, app_QueueName demo_app) \<in> set (concat (map tree_keys [demo_tree]))"
    by (simp add: demo_app_def demo_tree_def tree_keys_def)
  moreover have "stored_app (dao_app_key demo_app) empty_db = None"
    by (simp add: stored_app_def lookup_row_def empty_db_def)
  ultimately show ?thesis
    using sync_stores_scheduler_state [OF healthy_demo_env db_inv_empty demo_scheduler_trees, of "[demo_app]" demo_int8]
    by auto
qed

section \<open>Serving a sync\<close>

lemma stored_app_row:
  assumes "stored_app k d = Some a"
  shows "\<exists>x \<in> set (applications_t d). ar_info x = a \<and> app_key x = k"
proof -
  obtain x where "find (\<lambda>x. app_key x = k) (applications_t d) = Some x" "ar_info x = a"
    using assms by (auto simp: stored_app_def lookup_row_def)
  then show ?thesis by (auto simp: find_Some_iff)
qed

lemma GetQueuesPerPartition_healthy:
  "healthy_env env \<Longrightarrow> \<exists>d'. GetQueuesPerPartition env p d =
     (Inr (build_forest (filter (\<lambda>r. queue_Partition (qr_info r) = p) (queues_t d))), d')"
  by (simp add: GetQueuesPerPartition_def)

lemma served_queues:
  assumes "healthy_env env" and "fst (GetQueuesPerPartition env (req_Params r ''partition_name'') d1) = Inr (Some ts)"
    and "queues_t d2 = queues_t d1" and "ws_repository ws = pg_repository run_sql int8 env"
  shows "\<exists>d'. getQueuesPerPartition ws r d2 = Some (jsonResponse (QueuesJ ts), d')"
proof -
  let ?p = "req_Params r ''partition_name''"
  obtain d3 d4 where "GetQueuesPerPartition env ?p d1 =
        (Inr (build_forest (filter (\<lambda>r. queue_Partition (qr_info r) = ?p) (queues_t d1))), d3)"
      "GetQueuesPerPartition env ?p d2 =
        (Inr (build_forest (filter (\<lambda>r. queue_Partition (qr_info r) = ?p) (queues_t d1))), d4)"
    using GetQueuesPerPartition_healthy [OF assms(1), of ?p d1] GetQueuesPerPartition_healthy [OF assms(1), of ?p d2]
      assms(3) by auto
  with assms(2) show ?thesis by (simp add: getQueuesPerPartition_def assms(4))
qed

lemma served_apps:
  assumes "healthy_env env" and "answers_sql run_sql" and "api_filters f" and "plain_groups f"
    and "count_ok (filter_Limit f)" and "count_ok (filter_Offset f)" and "req_Query r = filters_query f"
    and "\<forall>a \<in> set as. stored_app (dao_app_key a) d = Some (g a)" and "ws_repository ws = pg_repository run_sql int8 env"
  shows "\<exists>rs. fst (getAppsPerPartitionPerQueue ws r d) =
      jsonResponse (AppsJ (page (filter_Limit f) (filter_Offset f) rs)) \<and>
    sorted_wrt (\<lambda>a b. row_time b \<le> row_time a) rs \<and>
    mset rs = mset (filter (\<lambda>x. queue_row (req_Params r ''partition_name'') (req_Params r ''queue_name'') x \<and> app_matches f (ar_info x)) (applications_t d)) \<and>
    (\<forall>a \<in> set as. app_Partition a = req_Params r ''partition_name'' \<and> app_QueueName a = req_Params r ''queue_name'' \<and>
       app_matches f (g a) \<longrightarrow> g a \<in> ar_info ` set rs)"
proof -
  let ?p = "req_Params r ''partition_name''" and ?q = "req_Params r ''queue_name''"
  obtain rs d' where rs: "GetAppsPerPartitionPerQueue run_sql env ?p ?q f d =
        (Inr (page (filter_Limit f) (filter_Offset f) rs), d')"
      "mset rs = mset (filter (\<lambda>x. queue_row ?p ?q x \<and> app_matches f (ar_info x)) (applications_t d))"
      "sorted_wrt (\<lambda>a b. row_time b \<le> row_time a) rs"
    using GetAppsPerPartitionPerQueue_answer [OF assms(1,2,4-6), of ?p ?q d] by blast
  have "g a \<in> ar_info ` set rs" if a: "a \<in> set as" "app_Partition a = ?p" "app_QueueName a = ?q" "app_matches f (g a)" for a
  proof -
    obtain x where x: "x \<in> set (applications_t d)" "ar_info x = g a" "app_key x = dao_app_key a"
      using stored_app_row [OF bspec [OF assms(8) a(1)]] by blast
    then have "x \<in> set_mset (mset (filter (\<lambda>x. queue_row ?p ?q x \<and> app_matches f (ar_info x)) (applications_t d)))"
      using a(2-4) by (simp add: queue_row_def app_key_def dao_app_key_def)
    then have "x \<in> set rs" unfolding rs(2) [symmetric] by simp
    then show ?thesis unfolding x(2) [symmetric] by (rule imageI)
  qed
  moreover have "fst (getAppsPerPartitionPerQueue ws r d) =
      jsonResponse (AppsJ (page (filter_Limit f) (filter_Offset f) rs))"
    using rs(1) parse_filters_query [OF assms(3,7)] by (simp add: getAppsPerPartitionPerQueue_def assms(9) respond_def)
  ultimately show ?thesis using rs(2,3) by blast
qed

text \<open>The two jobs of a sync, and then the two endpoints.\<close>

lemma jobs_are_served:
  assumes "healthy_env env" and "db_inv env d" and "scheduler_trees ts"
    and "\<forall>k \<in> set (concat (map tree_keys ts)). \<not> dead k (queues_t d)" and "apps_of_trees ts as"
    and "\<forall>q \<in> set ts. [] \<notin> set (queue_names q)" and "still_reported (req_Params rq ''partition_name'') ts (queues_t d)"
    and "answers_sql run_sql" and "api_filters f" and "plain_groups f"
    and "count_ok (filter_Limit f)" and "count_ok (filter_Offset f)" and "req_Query ra = filters_query f"
    and "ws_repository ws = pg_repository run_sql int8 env"
  shows "\<exists>d1 d2 d3 qs qs' rs. run_job int8 env (JQueues (flattenQueues ts)) d = (None, d1) \<and>
    run_job int8 env (JApplications as) d1 = (None, d2) \<and>
    getQueuesPerPartition ws rq d2 = Some (jsonResponse (QueuesJ qs), d3) \<and> unordered_forest qs = unordered_forest qs' \<and>
    list_all2 (grows (stored_as (queues_t d))) qs' (map (propagate (req_Params rq ''partition_name''))
      (filter (\<lambda>q. queue_Partition (qinfo q) = req_Params rq ''partition_name'') ts)) \<and>
    fst (getAppsPerPartitionPerQueue ws ra d2) = jsonResponse (AppsJ (page (filter_Limit f) (filter_Offset f) rs)) \<and>
    sorted_wrt (\<lambda>a b. row_time b \<le> row_time a) rs \<and>
    mset rs = mset (filter (\<lambda>x. queue_row (req_Params ra ''partition_name'') (req_Params ra ''queue_name'') x \<and> app_matches f (ar_info x)) (applications_t d2)) \<and>
    (\<forall>a \<in> set as. app_Partition a = req_Params ra ''partition_name'' \<and> app_QueueName a = req_Params ra ''queue_name'' \<and>
       app_matches f (synced_app d a) \<longrightarrow> synced_app d a \<in> ar_info ` set rs)"
proof -
  let ?P = "req_Params rq ''partition_name''"
  obtain d1 d2 where s: "UpsertQueues env (flattenQueues ts) d = (None, d1)"
      "run_job int8 env (JQueues (flattenQueues ts)) d = (None, d1)"
      "run_job int8 env (JApplications as) d1 = (None, d2)" "queues_t d2 = queues_t d1"
      "\<forall>a \<in> set as. stored_app (dao_app_key a) d2 = Some (synced_app d a)"
    using sync_jobs_store [OF assms(1-5), of int8] by blast
  have "queue_inv env d" using assms(2) by (simp add: db_inv_def)
  from synced_queues_read [OF assms(1) this assms(3,4,6,7)] s(1) obtain qs qs' where
    q: "fst (GetQueuesPerPartition env ?P d1) = Inr (Some qs)" "unordered_forest qs = unordered_forest qs'"
      "list_all2 (grows (stored_as (queues_t d))) qs' (map (propagate ?P) (filter (\<lambda>q. queue_Partition (qinfo q) = ?P) ts))"
    by auto
  obtain d3 where d3: "getQueuesPerPartition ws rq d2 = Some (jsonResponse (QueuesJ qs), d3)"
    using served_queues [OF assms(1) q(1) s(4) assms(14)] by blast
  obtain rs where r: "fst (getAppsPerPartitionPerQueue ws ra d2) =
        jsonResponse (AppsJ (page (filter_Limit f) (filter_Offset f) rs))"
      "sorted_wrt (\<lambda>a b. row_time b \<le> row_time a) rs"
      "mset rs = mset (filter (\<lambda>x. queue_row (req_Params ra ''partition_name'') (req_Params ra ''queue_name'') x \<and>
        app_matches f (ar_info x)) (applications_t d2))"
      "\<forall>a \<in> set as. app_Partition a = req_Params ra ''partition_name'' \<and> app_QueueName a = req_Params ra ''queue_name'' \<and>
        app_matches f (synced_app d a) \<longrightarrow> synced_app d a \<in> ar_info ` set rs"
    using served_apps [OF assms(1,8-13) s(5) assms(14)] by blast
  show ?thesis
    by (rule exI [of _ d1], rule exI [of _ d2], rule exI [of _ d3], rule exI [of _ qs], rule exI [of _ qs'], rule exI [of _ rs],
        intro conjI) (fact s(2) s(3) d3 q(2) q(3) r)+
qed

section \<open>From the scheduler's answers to the responses\<close>

lemma flattenQueues_append: "flattenQueues (xs @ ys) = flattenQueues xs @ flattenQueues ys"
  by (induction xs) auto

lemma flattenQueues_concat: "flattenQueues qs = concat (map (\<lambda>q. flattenQueues [q]) qs)"
proof (induction qs)
  case (Cons q qs)
  have "flattenQueues (q # qs) = flattenQueues [q] @ flattenQueues qs" using flattenQueues_append [of "[q]" qs] by simp
  with Cons show ?case by simp
qed simp

lemma mset_concat_map: "mset (concat (map f xs)) = (\<Sum>x \<in># mset xs. mset (f x))"
  by (induction xs) auto

lemma concat_map_perm: "mset xs = mset ys \<Longrightarrow> mset (concat (map f xs)) = mset (concat (map f ys))"
  by (simp add: mset_concat_map)

lemma flattenQueues_perm: "mset xs = mset ys \<Longrightarrow> mset (flattenQueues xs) = mset (flattenQueues ys)"
  using concat_map_perm [of xs ys "\<lambda>q. flattenQueues [q]"] by (simp only: flattenQueues_concat [symmetric])

lemma scheduler_trees_perm:
  assumes "mset xs = mset ys" and "scheduler_trees ys"
  shows "scheduler_trees xs"
  using assms mset_eq_setD [OF assms(1)] mset_eq_imp_distinct_iff [OF concat_map_perm [OF assms(1), of tree_keys]]
  by (simp add: scheduler_trees_def list_all_iff)

text \<open>
  What the server expects of the scheduler: it answers every request; its queue trees name the parents and
  have distinct names; the applications of a queue are listed under that queue, each identifier once. No
  reported queue is deleted in the database.
\<close>

definition scheduler_report :: "yk_client \<Rightarrow> PartitionInfo list \<Rightarrow> db \<Rightarrow> bool" where
  "scheduler_report client ps d \<longleftrightarrow> no_failures client ps \<and> no_nil_queues client ps \<and> scheduler_trees (trees_of client ps) \<and>
     (\<forall>q \<in> set (trees_of client ps). [] \<notin> set (queue_names q)) \<and>
     (\<forall>k \<in> set (concat (map tree_keys (trees_of client ps))). \<not> dead k (queues_t d)) \<and>
     (\<forall>q \<in> set (flattenQueues (trees_of client ps)). distinct (map app_ApplicationID (queue_apps client q)) \<and>
        (\<forall>a \<in> set (queue_apps client q). (app_Partition a, app_QueueName a) = dao_key q))"

lemma distinct_concat_keys:
  assumes "distinct (map g qs)" and "\<forall>q \<in> set qs. distinct (map h (f q)) \<and> (\<forall>a \<in> set (f q). fst (h a) = g q)"
  shows "distinct (map h (concat (map f qs)))"
  using assms
proof (induction qs)
  case (Cons q qs)
  have "h a \<noteq> h b" if a: "a \<in> set (f q)" "q' \<in> set qs" "b \<in> set (f q')" for a b q'
  proof -
    have "fst (h a) = g q" "fst (h b) = g q'" using Cons.prems(2) a by auto
    moreover have "g q \<noteq> g q'" using Cons.prems(1) a(2) by auto
    ultimately show ?thesis by auto
  qed
  then have "h ` set (f q) \<inter> h ` set (concat (map f qs)) = {}" unfolding set_concat set_map by blast
  with Cons show ?case by simp
qed simp

lemma apps_of_report:
  assumes "scheduler_report client ps d" and "mset ps' = mset ps" and "mset qs' = mset (flattenQueues (trees_of client ps'))"
  shows "apps_of_trees (trees_of client ps') (apps_of client qs')"
proof -
  let ?ts = "trees_of client ps" and ?ts' = "trees_of client ps'"
  have m: "mset ?ts' = mset ?ts" using assms(2) by (simp add: trees_of_def)
  have st: "scheduler_trees ?ts'" using scheduler_trees_perm [OF m] assms(1) by (simp add: scheduler_report_def)
  have sq: "set qs' = set (flattenQueues ?ts)" "set qs' = set (flattenQueues ?ts')"
    using mset_eq_setD [OF flattenQueues_perm [OF m]] mset_eq_setD [OF assms(3)] by simp_all
  have ok: "\<forall>q \<in> set qs'. distinct (map app_ApplicationID (queue_apps client q)) \<and>
      (\<forall>a \<in> set (queue_apps client q). (app_Partition a, app_QueueName a) = dao_key q)"
    using assms(1) sq(1) by (simp add: scheduler_report_def)
  let ?h = "\<lambda>a. ((app_Partition a, app_QueueName a), app_ApplicationID a)"
  have "distinct (map ?h (queue_apps client q))" if "q \<in> set qs'" for q
    using ok that by (simp add: distinct_map inj_on_def)
  moreover have "distinct (map dao_key qs')"
    using flattenQueues_distinct [OF st] mset_eq_imp_distinct_iff [of "map dao_key qs'" "map dao_key (flattenQueues ?ts')"] assms(3) by simp
  ultimately have "distinct (map ?h (apps_of client qs'))"
    unfolding apps_of_def using ok by (intro distinct_concat_keys) auto
  then have "distinct (map dao_app_key (apps_of client qs'))"
    by (simp add: distinct_map inj_on_def dao_app_key_def)
  moreover have "app_QueueName a \<noteq> [] \<and> (app_Partition a, app_QueueName a) \<in> set (concat (map tree_keys ?ts'))"
    if a: "a \<in> set (apps_of client qs')" for a
  proof -
    obtain q where q: "q \<in> set qs'" "(app_Partition a, app_QueueName a) = dao_key q"
      using a ok unfolding apps_of_def by auto
    then have k: "(app_Partition a, app_QueueName a) \<in> set (concat (map tree_keys ?ts'))"
      using sq(2) unfolding flattenQueues_keys [symmetric] by auto
    then obtain t where "t \<in> set ?ts'" "app_QueueName a \<in> set (queue_names t)" by (auto simp: tree_keys_def)
    with assms(1) mset_eq_setD [OF m] k show ?thesis by (auto simp: scheduler_report_def)
  qed
  ultimately show ?thesis by (simp add: apps_of_trees_def)
qed

lemma report_is_served:
  assumes "healthy_env env" and "db_inv env d" and "GetPartitions_c client = Inr ps" and "started (sy_wq s)"
    and "scheduler_report client ps d" and "still_reported (req_Params rq ''partition_name'') (trees_of client ps) (queues_t d)"
    and "answers_sql run_sql" and "api_filters f" and "plain_groups f"
    and "count_ok (filter_Limit f)" and "count_ok (filter_Offset f)" and "req_Query ra = filters_query f"
    and "sync_returns uuids client s r s'" and "ws_repository ws = pg_repository run_sql int8 env"
  shows "\<exists>fq as new ts d1 d2 d3 qs qs' rs. r = None \<and> jobs s' = jobs s @ new \<and> subseq [JQueues fq, JApplications as] new \<and>
    run_job int8 env (JQueues fq) d = (None, d1) \<and> run_job int8 env (JApplications as) d1 = (None, d2) \<and>
    getQueuesPerPartition ws rq d2 = Some (jsonResponse (QueuesJ qs), d3) \<and> unordered_forest qs = unordered_forest qs' \<and>
    mset ts = mset (trees_of client ps) \<and>
    list_all2 (grows (stored_as (queues_t d))) qs' (map (propagate (req_Params rq ''partition_name''))
      (filter (\<lambda>q. queue_Partition (qinfo q) = req_Params rq ''partition_name'') ts)) \<and>
    fst (getAppsPerPartitionPerQueue ws ra d2) = jsonResponse (AppsJ (page (filter_Limit f) (filter_Offset f) rs)) \<and>
    sorted_wrt (\<lambda>a b. row_time b \<le> row_time a) rs \<and>
    mset rs = mset (filter (\<lambda>x. queue_row (req_Params ra ''partition_name'') (req_Params ra ''queue_name'') x \<and> app_matches f (ar_info x)) (applications_t d2)) \<and>
    (\<forall>q \<in> set (flattenQueues (trees_of client ps)). dao_key q = (req_Params ra ''partition_name'', req_Params ra ''queue_name'') \<longrightarrow>
       (\<forall>a \<in> set (queue_apps client q). app_matches f (synced_app d a) \<longrightarrow> synced_app d a \<in> ar_info ` set rs))"
proof -
  let ?ts = "trees_of client ps"
  have rep: "no_failures client ps" "no_nil_queues client ps" "scheduler_trees ?ts" "\<forall>q \<in> set ?ts. [] \<notin> set (queue_names q)"
      "\<forall>k \<in> set (concat (map tree_keys ?ts)). \<not> dead k (queues_t d)"
    using assms(5) unfolding scheduler_report_def by blast+
  obtain ps' qa new where n: "r = None" "mset ps' = mset ps" "mset qa = mset (flattenQueues (trees_of client ps'))"
      "jobs s' = jobs s @ JPartitions ps # new"
      "subseq [JQueues (flattenQueues (trees_of client ps')), JApplications (apps_of client qa)] new"
    using sync_queued [OF assms(3,4) rep(1,2) assms(13)] by blast
  let ?ts' = "trees_of client ps'" and ?as = "apps_of client qa"
  have m: "mset ?ts' = mset ?ts" using n(2) by (simp add: trees_of_def)
  have f: "set (flattenQueues ?ts') = set (flattenQueues ?ts)" "set ?ts' = set ?ts"
    using mset_eq_setD [OF flattenQueues_perm [OF m]] mset_eq_setD [OF m] by simp_all
  have t: "scheduler_trees ?ts'" "\<forall>k \<in> set (concat (map tree_keys ?ts')). \<not> dead k (queues_t d)"
      "\<forall>q \<in> set ?ts'. [] \<notin> set (queue_names q)" "still_reported (req_Params rq ''partition_name'') ?ts' (queues_t d)"
    using scheduler_trees_perm [OF m rep(3)] rep(4,5) assms(6) f by (simp_all add: still_reported_def)
  obtain d1 d2 d3 qs qs' rs where j: "run_job int8 env (JQueues (flattenQueues ?ts')) d = (None, d1)"
      "run_job int8 env (JApplications ?as) d1 = (None, d2)"
      "getQueuesPerPartition ws rq d2 = Some (jsonResponse (QueuesJ qs), d3)" "unordered_forest qs = unordered_forest qs'"
      "list_all2 (grows (stored_as (queues_t d))) qs' (map (propagate (req_Params rq ''partition_name''))
        (filter (\<lambda>q. queue_Partition (qinfo q) = req_Params rq ''partition_name'') ?ts'))"
      "fst (getAppsPerPartitionPerQueue ws ra d2) = jsonResponse (AppsJ (page (filter_Limit f) (filter_Offset f) rs))"
      "sorted_wrt (\<lambda>a b. row_time b \<le> row_time a) rs"
      "mset rs = mset (filter (\<lambda>x. queue_row (req_Params ra ''partition_name'') (req_Params ra ''queue_name'') x \<and>
        app_matches f (ar_info x)) (applications_t d2))"
      "\<forall>a \<in> set ?as. app_Partition a = req_Params ra ''partition_name'' \<and> app_QueueName a = req_Params ra ''queue_name'' \<and>
        app_matches f (synced_app d a) \<longrightarrow> synced_app d a \<in> ar_info ` set rs"
    using jobs_are_served [OF assms(1,2) t(1,2) apps_of_report [OF assms(5) n(2,3)] t(3,4) assms(7-12,14)] by blast
  have apps: "\<forall>q \<in> set (flattenQueues ?ts). dao_key q = (req_Params ra ''partition_name'', req_Params ra ''queue_name'') \<longrightarrow>
      (\<forall>a \<in> set (queue_apps client q). app_matches f (synced_app d a) \<longrightarrow> synced_app d a \<in> ar_info ` set rs)"
  proof (intro ballI impI)
    fix q a
    assume q: "q \<in> set (flattenQueues ?ts)" "dao_key q = (req_Params ra ''partition_name'', req_Params ra ''queue_name'')"
      "a \<in> set (queue_apps client q)" "app_matches f (synced_app d a)"
    have "q \<in> set qa" using q(1) f(1) mset_eq_setD [OF n(3)] by simp
    then have "a \<in> set ?as" using q(3) by (auto simp: apps_of_def)
    moreover have "(app_Partition a, app_QueueName a) = dao_key q" using assms(5) q(1,3) by (simp add: scheduler_report_def)
    ultimately show "synced_app d a \<in> ar_info ` set rs" using j(9) q(2,4) by simp
  qed
  have new: "jobs s' = jobs s @ (JPartitions ps # new)"
      "subseq [JQueues (flattenQueues ?ts'), JApplications ?as] (JPartitions ps # new)" using n(4,5) by auto
  show ?thesis
    by (rule exI [of _ "flattenQueues ?ts'"], rule exI [of _ ?as], rule exI [of _ "JPartitions ps # new"], rule exI [of _ ?ts'],
        rule exI [of _ d1], rule exI [of _ d2], rule exI [of _ d3], rule exI [of _ qs], rule exI [of _ qs'], rule exI [of _ rs],
        intro conjI) (fact n(1) new j(1-8) m apps)+
qed

section \<open>The server that Run builds\<close>

abbreviation srv_env :: "server \<Rightarrow> pgenv" where
  "srv_env srv \<equiv> pool_env (srv_pool srv)"

abbreviation srv_sql :: "server \<Rightarrow> sql_answer" where
  "srv_sql srv \<equiv> pool_sql (srv_pool srv)"

lemma as_Repository_pool: "as_Repository \<lparr>dbpool = pool\<rparr> = pg_repository (pool_sql pool) (pool_int8 pool) (pool_env pool)"
  by (cases pool) (simp add: pg_repository_def)

text \<open>Both the service and the web service get the repository on the pool.\<close>

lemma server_setup_parts:
  assumes "server_setup names new_pool now v cfg = Some (Inr srv)"
  shows "svc_repo (srv_service srv) = pg_repository (srv_sql srv) (pool_int8 (srv_pool srv)) (srv_env srv)"
    and "ws_repository (srv_web srv) = pg_repository (srv_sql srv) (pool_int8 (srv_pool srv)) (srv_env srv)"
    and "svc_eventHandler (srv_service srv) = (\<lambda>answers. handleEvent names answers (UpsertApplications (srv_env srv)))"
    and "svc_client (srv_service srv) = NewRESTClient (cfg_Yunikorn cfg)"
  using assms
  by (auto simp: server_setup_def Let_def NewPostgresRepository_def NewService_def WithSyncInterval_def NewWebService_def
      as_Repository_pool split: sum.splits)

text \<open>The paths of the two endpoints.\<close>

definition queues_path :: "string \<Rightarrow> string" where
  "queues_path P = ''/ws/v1/partition/'' @ P @ ''/queues''"

definition applications_path :: "string \<Rightarrow> string \<Rightarrow> string" where
  "applications_path P Q = ''/ws/v1/partition/'' @ P @ ''/queue/'' @ Q @ ''/applications''"

definition path_segment :: "string \<Rightarrow> bool" where
  "path_segment v \<longleftrightarrow> v \<noteq> [] \<and> CHR ''/'' \<notin> set v"

lemma queues_pattern:
  "split_on (CHR ''/'') ''/ws/v1/partition/:partition_name/queues'' =
     [[], ''ws'', ''v1'', ''partition'', '':partition_name'', ''queues'']"
  by (rule split_on_eq; simp)

lemma applications_pattern:
  "split_on (CHR ''/'') ''/ws/v1/partition/:partition_name/queue/:queue_name/applications'' =
     [[], ''ws'', ''v1'', ''partition'', '':partition_name'', ''queue'', '':queue_name'', ''applications'']"
  by (rule split_on_eq; simp)

lemma serve_queues_path:
  assumes "router_law lookup" and "cors_law (web_preflight w)" and "req_Method r = ''GET''"
    and "path_segment P" and "req_Path r = queues_path P"
  shows "ServeHTTP lookup w r d = map_option (map_prod Answered id)
    (getQueuesPerPartition (web_service w) (r\<lparr>req_Params := ByName [(''partition_name'', P)]\<rparr>) d)"
proof -
  let ?pat = "''/ws/v1/partition/:partition_name/queues''"
  have n: "param_names ?pat = [''partition_name'']" unfolding param_names_def queues_pattern by (simp add: is_param_def)
  have r: "(?pat, H_getQueuesPerPartition) \<in> set routes" by (simp add: routes_def)
  have "req_Path r = fill_pattern ?pat [P]"
    unfolding assms(5) queues_path_def fill_pattern_def queues_pattern by (simp add: is_param_def)
  from ServeHTTP_route [OF assms(1-3) r _ _ this] assms(4) show ?thesis by (simp add: n path_segment_def)
qed

lemma serve_applications_path:
  assumes "router_law lookup" and "cors_law (web_preflight w)" and "req_Method r = ''GET''"
    and "path_segment P" and "path_segment Q" and "req_Path r = applications_path P Q"
  shows "ServeHTTP lookup w r d = Some (map_prod Answered id (getAppsPerPartitionPerQueue (web_service w)
    (r\<lparr>req_Params := ByName [(''partition_name'', P), (''queue_name'', Q)]\<rparr>) d))"
proof -
  let ?pat = "''/ws/v1/partition/:partition_name/queue/:queue_name/applications''"
  have n: "param_names ?pat = [''partition_name'', ''queue_name'']"
    unfolding param_names_def applications_pattern by (simp add: is_param_def)
  have r: "(?pat, H_getAppsPerPartitionPerQueue) \<in> set routes" by (simp add: routes_def)
  have "req_Path r = fill_pattern ?pat [P, Q]"
    unfolding assms(6) applications_path_def fill_pattern_def applications_pattern by (simp add: is_param_def)
  from ServeHTTP_route [OF assms(1-3) r _ _ this] assms(4,5) show ?thesis by (simp add: n path_segment_def)
qed

lemma path_params [simp]:
  "ByName [(''partition_name'', P)] ''partition_name'' = P"
  "ByName [(''partition_name'', P), (''queue_name'', Q)] ''partition_name'' = P"
  "ByName [(''partition_name'', P), (''queue_name'', Q)] ''queue_name'' = Q"
  by (simp_all add: ByName_def)

lemma select_params: "req_Params (r\<lparr>req_Params := ps\<rparr>) = ps"
  by simp


text \<open>
  A server on the database of the examples, and a scheduler behind its REST client with one partition, three
  queues and one application: the body of a response is the address that was asked for, and the decoders know
  what it stands for.
\<close>

definition demo_dev_app :: ApplicationDAOInfo where
  "demo_dev_app = demo_app\<lparr>app_Groups := Some [''dev'']\<rparr>"

definition demo_srv :: server where
  "demo_srv = (case server_setup demo_names (\<lambda>conn. Inr demo_pool) 0 ''1'' demo_config of Some (Inr srv) \<Rightarrow> srv)"

lemma demo_srv_setup: "server_setup demo_names (\<lambda>conn. Inr demo_pool) 0 ''1'' demo_config = Some (Inr demo_srv)"
  using demo_stop_facts(4) by (simp add: demo_srv_def server_setup_def NewPostgresRepository_def Let_def)

lemma demo_srv_pool: "srv_pool demo_srv = demo_pool"
  using demo_stop_facts(4) by (simp add: demo_srv_def server_setup_def NewPostgresRepository_def Let_def)

definition demo_http :: transport where
  "demo_http u = Inr \<lparr>respURLPath = u, StatusCode = 200, bodyRead = Inr u, bodyCloseErr = None\<rparr>"

definition demo_decoders :: decoders where
  "demo_decoders = \<lparr>dec_partitions = (\<lambda>b. Inr [demo_partition]), dec_queue = (\<lambda>b. Inr (Some demo_tree)),
     dec_apps = (\<lambda>b. Inr (if b = url (svc_client (srv_service demo_srv)) ''/ws/v1/partition/default/queue/root/applications''
       then [demo_dev_app] else [])),
     dec_app = (\<lambda>b. Inr demo_dev_app), dec_nodes = (\<lambda>b. Inr []), dec_util = (\<lambda>b. Inr []), dec_apps_history = (\<lambda>b. Inr []),
     dec_containers_history = (\<lambda>b. Inr []), dec_health = (\<lambda>b. Inr b)\<rparr>"

definition demo_apps_client :: yk_client where
  "demo_apps_client = yk_client.truncate
     (as_Client demo_decoders demo_http \<lparr>opened = 0, closed = 0, net_log = []\<rparr> (svc_client (srv_service demo_srv)))"

lemma demo_apps_client_simps:
  "GetPartitions_c demo_apps_client = Inr [demo_partition]" "GetPartitionQueues_c demo_apps_client p = Inr (Some demo_tree)"
  "GetPartitionNodes_c demo_apps_client p = Inr []" "GetNodeUtil_c demo_apps_client = Inr []"
  "GetAppsHistory_c demo_apps_client = Inr []" "GetContainersHistory_c demo_apps_client = Inr []"
  by (simp_all add: demo_apps_client_def as_Client_def yk_client.truncate_def GetPartitions_def GetPartitionQueues_def
      GetPartitionNodes_def GetNodeUtil_def GetAppsHistory_def GetContainersHistory_r_def get_json_result demo_http_def demo_decoders_def)

lemma demo_apps_client_apps:
  "p \<noteq> [] \<Longrightarrow> q \<noteq> [] \<Longrightarrow> GetApplications_c demo_apps_client p q =
     Inr (if endpointApplicationsByQueue p q = ''/ws/v1/partition/default/queue/root/applications'' then [demo_dev_app] else [])"
  by (simp add: demo_apps_client_def as_Client_def yk_client.truncate_def GetApplications_def default_partition_def Let_def
      get_json_result demo_http_def demo_decoders_def url_eq)

lemma demo_apps_client_answers: "GetApplications_c demo_apps_client p q \<noteq> Inl e"
  by (simp add: demo_apps_client_def as_Client_def yk_client.truncate_def GetApplications_def Let_def
      get_json_result demo_http_def demo_decoders_def)

lemma demo_trees_of: "trees_of demo_apps_client [demo_partition] = [demo_tree]"
  by (simp add: trees_of_def queue_tree_def demo_apps_client_simps)

lemma demo_scheduler_report: "scheduler_report demo_apps_client [demo_partition] empty_db"
proof -
  have "no_failures demo_apps_client [demo_partition]" "no_nil_queues demo_apps_client [demo_partition]"
    by (simp_all add: no_failures_def worker_forall chain_fails_def no_nil_queues_def demo_apps_client_simps demo_apps_client_answers)
  moreover have "[] \<notin> set (queue_names demo_tree)" "\<not> dead k (queues_t empty_db)" for k
    by (simp_all add: demo_tree_def dead_def empty_db_def)
  moreover have "distinct (map app_ApplicationID (queue_apps demo_apps_client q)) \<and>
      (\<forall>a \<in> set (queue_apps demo_apps_client q). (app_Partition a, app_QueueName a) = dao_key q)"
    if "q \<in> set (flattenQueues [demo_tree])" for q
    using that by (auto simp: demo_tree_def queue_apps_def demo_apps_client_apps endpointApplicationsByQueue_def extra_args_def
        demo_dev_app_def demo_app_def dao_key_def set_partition_def)
  ultimately show ?thesis using demo_scheduler_trees by (simp add: scheduler_report_def demo_trees_of)
qed

definition demo_serving :: "(db, (RESTClient, pgpool) Component) web_deps" where
  "demo_serving = \<lparr>web_check = Check (server_dependencies demo_decoders (\<lambda>ctx. (0, demo_http)) \<lparr>opened = 0, closed = 0, net_log = []\<rparr>
       (\<lambda>p q ctx. (0, None))),
     web_order = [], web_hostname = ''h'', web_now = 5, web_join = (\<lambda>a b. a @ b), web_stat = (\<lambda>p. StatNotExist),
     web_preflight = demo_preflight, web_service = srv_web demo_srv\<rparr>"

lemma demo_server_facts:
  "web_service demo_serving = srv_web demo_srv" "healthy_env (srv_env demo_srv)" "answers_sql (srv_sql demo_srv)"
  "path_segment ''default''" "path_segment ''root''" "cors_law (web_preflight demo_serving)" "req_Method (demo_get path q) = ''GET''"
  using healthy_demo_env answers_stable_sql demo_preflight_law
  by (simp_all add: demo_serving_def demo_srv_pool demo_pool_def path_segment_def demo_get_def)

lemma demo_filters_facts:
  "api_filters demo_filters" "plain_groups demo_filters" "count_ok (filter_Limit demo_filters)" "count_ok (filter_Offset demo_filters)"
  "filter_Limit demo_filters = Some 10" "filter_Offset demo_filters = None"
  by (simp_all add: api_filters_def plain_groups_def demo_filters_def empty_filters_def int64_opt_def slice_list_def
      quote_sym_def count_ok_def)


section \<open>From an event to the responses\<close>

lemma dao_app_key_set_state [simp]: "dao_app_key (set_state names ev app) = dao_app_key app"
  by (simp add: dao_app_key_def set_state_def Let_def)

lemma synced_app_values:
  "dao_app_key (synced_app d a) = (case stored_app (dao_app_key a) d of None \<Rightarrow> dao_app_key a | Some old \<Rightarrow> dao_app_key old)"
  "app_State (synced_app d a) = app_State a"
  "app_StateLog a = Some l \<Longrightarrow> app_StateLog (synced_app d a) = Some l"
  by (simp_all add: synced_app_def app_update_def dao_app_key_def coalesce_def split: option.split)

lemma dao_app_key_synced [simp]: "dao_app_key (synced_app d a) = dao_app_key a"
proof (cases "stored_app (dao_app_key a) d")
  case (Some old)
  from stored_app_row [OF Some] have "dao_app_key old = dao_app_key a" by (auto simp: app_key_def dao_app_key_def)
  with Some show ?thesis by (simp add: synced_app_values(1))
qed (simp add: synced_app_values(1))

text \<open>
  C7. From an event to the responses of the server that \<open>Run\<close> built: when the scheduler reports that a cached
  application is completed, failed or rejected, and its queue is live, then after the service's handler has handled
  the event on a healthy connection, a request \<open>GET\<close> for the applications of that queue with filters that match what
  is stored of the application is answered with the page that limit and offset ask for of a list, latest
  submission first, in which the application is found with the state of the event and with the transition at the end of
  its log; it is in the answer itself when the request has no limit and no offset.
\<close>

theorem finished_application_is_served:
  assumes "server_setup names new_pool now v cfg = Some (Inr srv)" and "web_service w = srv_web srv" and "router_law lookup"
    and "healthy_env (srv_env srv)" and "answers_sql (srv_sql srv)" and "db_inv (srv_env srv) (svcRepo s)"
    and "ev_Type ev = APP" and "cached (ev_ObjectID ev) s = Some app"
    and "(ev_EventChangeType ev, ev_EventChangeDetail ev) \<in>
      {(ChangeType_SET, APP_COMPLETED), (ChangeType_SET, APP_FAILED), (ChangeType_REMOVE, APP_REJECT)}"
    and "live (app_Partition app, app_QueueName app) (queues_t (svcRepo s))"
    and "path_segment (app_Partition app)" and "path_segment (app_QueueName app)"
    and "req_Path ra = applications_path (app_Partition app) (app_QueueName app)"
    and "req_Query ra = filters_query f" and "api_filters f" and "plain_groups f"
    and "count_ok (filter_Limit f)" and "count_ok (filter_Offset f)"
    and "app_matches f (synced_app (svcRepo s) (set_state names ev app))"
    and "cors_law (web_preflight w)" and "req_Method ra = ''GET''"
  shows "\<exists>s' d' apps rs x. svc_eventHandler (srv_service srv) client ev s = (None, s') \<and>
    ServeHTTP lookup w ra (svcRepo s') = Some (Answered (jsonResponse (AppsJ apps)), d') \<and>
    apps = page (filter_Limit f) (filter_Offset f) rs \<and> sorted_wrt (\<lambda>a b. row_time b \<le> row_time a) rs \<and> x \<in> set rs \<and>
    (filter_Limit f = None \<and> filter_Offset f = None \<longrightarrow> x \<in> set apps) \<and> dao_app_key (ar_info x) = dao_app_key app \<and>
    app_State (ar_info x) = ChangeDetail_name names (ev_EventChangeDetail ev) \<and>
    app_StateLog (ar_info x) = Some (slice_list (app_StateLog app) @
      [\<lparr>st_Time = ev_TimestampNano ev, st_ApplicationState = ChangeDetail_name names (ev_EventChangeDetail ev)\<rparr>])"
proof -
  note parts = server_setup_parts [OF assms(1)]
  let ?env = "srv_env srv" and ?a = "set_state names ev app" and ?P = "app_Partition app" and ?Q = "app_QueueName app"
  let ?s' = "snd (handleEvent names client (UpsertApplications ?env) ev s)"
    and ?ra = "ra\<lparr>req_Params := ByName [(''partition_name'', ?P), (''queue_name'', ?Q)]\<rparr>"
  have W: "ws_repository (web_service w) = pg_repository (srv_sql srv) (pool_int8 (srv_pool srv)) ?env"
    using parts(2) assms(2) by simp
  have h: "svc_eventHandler (srv_service srv) client ev s = (None, ?s')" unfolding parts(3) by (simp add: handleEvent_def)
  have t: "svcRepo ?s' = snd (UpsertApplications ?env [?a] (svcRepo s))"
      "app_State ?a = ChangeDetail_name names (ev_EventChangeDetail ev)"
      "app_StateLog ?a = Some (slice_list (app_StateLog app) @
        [\<lparr>st_Time = ev_TimestampNano ev, st_ApplicationState = ChangeDetail_name names (ev_EventChangeDetail ev)\<rparr>])"
    using terminal_event_persists [OF assms(7-9), of names client "UpsertApplications ?env"] by blast+
  have k: "app_Partition ?a = ?P" "app_QueueName ?a = ?Q" by (simp_all add: set_state_def Let_def)
  have "apps_inv ?env (svcRepo s)" "distinct (map dao_app_key [?a])"
      "\<forall>a \<in> set [?a]. app_QueueName a \<noteq> [] \<and> live (app_Partition a, app_QueueName a) (queues_t (svcRepo s))"
    using assms(6,10,12) k by (simp_all add: db_inv_def path_segment_def)
  from UpsertApplications_stores [OF assms(4) this] t(1)
  have st: "\<forall>a \<in> set [?a]. stored_app (dao_app_key a) (svcRepo ?s') = Some (synced_app (svcRepo s) a)"
    unfolding synced_app_def by (metis snd_conv)
  have q: "req_Query ?ra = filters_query f" using assms(14) by simp
  obtain rs where rs: "fst (getAppsPerPartitionPerQueue (web_service w) ?ra (svcRepo ?s')) =
        jsonResponse (AppsJ (page (filter_Limit f) (filter_Offset f) rs))" "sorted_wrt (\<lambda>a b. row_time b \<le> row_time a) rs"
      "synced_app (svcRepo s) ?a \<in> ar_info ` set rs"
    using served_apps [OF assms(4,5,15-18) q st W] assms(19) k by auto
  then obtain x where x: "x \<in> set rs" "ar_info x = synced_app (svcRepo s) ?a" by auto
  obtain d' where d': "ServeHTTP lookup w ra (svcRepo ?s') =
      Some (Answered (jsonResponse (AppsJ (page (filter_Limit f) (filter_Offset f) rs))), d')"
    using serve_applications_path [OF assms(3,20,21,11-13), of "svcRepo ?s'"] rs(1)
    by (cases "getAppsPerPartitionPerQueue (web_service w) ?ra (svcRepo ?s')") simp
  show ?thesis
    by (rule exI [of _ ?s'], rule exI [of _ d'], rule exI [of _ "page (filter_Limit f) (filter_Offset f) rs"],
        rule exI [of _ rs], rule exI [of _ x], intro conjI)
      (simp_all add: h d' rs(2) x page_def t(2) synced_app_values(2) synced_app_values(3) [OF t(3)])
qed

theorem finished_application_is_served_witness:
  "\<exists>s' d' rs x. svc_eventHandler (srv_service demo_srv) (\<lambda>p q i. Inr None) demo_event
       \<lparr>appMap = [''app-1'' \<mapsto> Some demo_dev_app], svcRepo = sys_db demo_app_waiting, svcLog = []\<rparr> = (None, s') \<and>
     ServeHTTP first_match demo_serving (demo_get ''/ws/v1/partition/default/queue/root/applications'' (filters_query demo_filters))
       (svcRepo s') = Some (Answered (jsonResponse (AppsJ (page (Some 10) None rs))), d') \<and>
     x \<in> set rs \<and> app_State (ar_info x) = ''APP_COMPLETED''"
proof -
  let ?s = "\<lparr>appMap = [''app-1'' \<mapsto> Some demo_dev_app], svcRepo = sys_db demo_app_waiting, svcLog = []\<rparr>"
    and ?ra = "demo_get ''/ws/v1/partition/default/queue/root/applications'' (filters_query demo_filters)"
  have inv: "db_inv (srv_env demo_srv) (svcRepo ?s)"
    using sys_reach_inv [OF demo_app_waiting_reach] healthy_demo_env
    by (simp add: sys_inv_def healthy_env_def demo_srv_pool demo_pool_def)
  have e: "ev_Type demo_event = APP" "cached (ev_ObjectID demo_event) ?s = Some demo_dev_app"
      "(ev_EventChangeType demo_event, ev_EventChangeDetail demo_event) \<in>
        {(ChangeType_SET, APP_COMPLETED), (ChangeType_SET, APP_FAILED), (ChangeType_REMOVE, APP_REJECT)}"
    by (simp_all add: demo_event_def cached_def)
  have q: "live (app_Partition demo_dev_app, app_QueueName demo_dev_app) (queues_t (svcRepo ?s))"
      "path_segment (app_Partition demo_dev_app)" "path_segment (app_QueueName demo_dev_app)"
      "req_Path ?ra = applications_path (app_Partition demo_dev_app) (app_QueueName demo_dev_app)"
      "req_Query ?ra = filters_query demo_filters"
    using demo_write_queue by (auto simp: demo_dev_app_def demo_app_def demo_get_def applications_path_def path_segment_def)
  have "applications_t (sys_db demo_app_waiting) = []"
    by (simp add: demo_app_waiting_def write_queue_def written_def new_uuid_def upsert_queue_stmt_def put_queues_def
        insert_on_conflict_def insert_row_def new_queue_row_def empty_db_def)
  then have m: "app_matches demo_filters (synced_app (svcRepo ?s) (set_state demo_names demo_event demo_dev_app))"
    by (simp add: synced_app_def stored_app_def lookup_row_def set_state_def Let_def app_matches_def within_def demo_filters_def
        empty_filters_def demo_dev_app_def demo_app_def slice_list_def)
  have n: "ChangeDetail_name demo_names (ev_EventChangeDetail demo_event) = ''APP_COMPLETED''"
    by (simp add: demo_names_def demo_event_def)
  from finished_application_is_served [OF demo_srv_setup demo_server_facts(1) router_law_first_match demo_server_facts(2,3)
      inv e q demo_filters_facts(1-4) m demo_server_facts(6,7), of "\<lambda>p q i. Inr None"]
  show ?thesis unfolding n demo_filters_facts(5,6) by blast
qed

end
